(* ===== verification/Prelude.thy ===== *)
theory Prelude
  imports Complex_Main "HOL-Library.Multiset" "HOL-Library.Sublist"
begin

text \<open>
  What the components share: the Go strings and slices the sources use, as functions on byte
  lists; the collections of defining equations that carry the component proofs; list lemmas; and
  the interface of a transition system with an invariant, which the state machines of the event
  bus, the run manager, the spawner, the question broker and the pool of connections instantiate.

  A Go string is a list of bytes, so \<^typ>\<open>string\<close> models it exactly: \<^const>\<open>length\<close> is Go's
  \<^verbatim>\<open>len\<close>. Text that Go reads as runes is decoded by \<open>runes\<close> below. A Go \<^verbatim>\<open>int\<close> that counts
  tokens, bytes or messages is an \<^typ>\<open>int\<close> (or a \<^typ>\<open>nat\<close> where it is a length); the durations
  that are doubled in a loop are wrapped to 64 bits where that happens.
\<close>

named_theorems queue_defs \<open>the operations on the message queues and on the conversation\<close>
named_theorems agent_defs \<open>the definitions of the agent loop\<close>
named_theorems store_defs \<open>the definitions of the session store\<close>
named_theorems bus_defs \<open>the definitions of the event bus\<close>
named_theorems runs_defs \<open>the definitions of the run manager\<close>
named_theorems search_defs \<open>the definitions of the search engine\<close>
named_theorems egress_defs \<open>the definitions of the egress proxy and the address guard\<close>

section \<open>Bytes, strings and runes\<close>

abbreviation byte :: "nat \<Rightarrow> char" where
  "byte n \<equiv> char_of n"

abbreviation nl :: string where
  "nl \<equiv> [CHR 0x0A]"

definition between :: "nat \<Rightarrow> nat \<Rightarrow> char \<Rightarrow> bool" where
  "between lo hi c \<longleftrightarrow> lo \<le> (of_char c :: nat) \<and> (of_char c :: nat) \<le> hi"

text \<open>
  \<open>rune_len s\<close> is the length of the well-formed UTF-8 sequence at the start of \<open>s\<close>, or 0 when
  the first byte starts none: the table Go's \<^verbatim>\<open>utf8.DecodeRune\<close> uses, with the second-byte ranges
  that exclude overlong forms, surrogates and code points past U+10FFFF.
\<close>

definition cont :: "char \<Rightarrow> bool" where
  "cont c \<longleftrightarrow> between 0x80 0xBF c"

fun rune_len :: "string \<Rightarrow> nat" where
  "rune_len [] = 0"
| "rune_len (a # s) =
    (if between 0x00 0x7F a then 1
     else if between 0xC2 0xDF a then (case s of b # _ \<Rightarrow> if cont b then 2 else 0 | _ \<Rightarrow> 0)
     else if between 0xE0 0xEF a then
       (case s of b # c # _ \<Rightarrow>
          if between (if a = byte 0xE0 then 0xA0 else 0x80) (if a = byte 0xED then 0x9F else 0xBF) b
             \<and> cont c then 3 else 0
        | _ \<Rightarrow> 0)
     else if between 0xF0 0xF4 a then
       (case s of b # c # d # _ \<Rightarrow>
          if between (if a = byte 0xF0 then 0x90 else 0x80) (if a = byte 0xF4 then 0x8F else 0xBF) b
             \<and> cont c \<and> cont d then 4 else 0
        | _ \<Rightarrow> 0)
     else 0)"

text \<open>
  \<open>runes s\<close> is \<^verbatim>\<open>[]rune(s)\<close> with every rune spelled in UTF-8: an ill-formed byte becomes the
  replacement character. \<open>concat (runes s)\<close> is therefore the string Go gets back from the runes,
  and what \<^verbatim>\<open>encoding/json\<close> writes for \<open>s\<close>.
\<close>

definition replacement :: string where
  "replacement = [CHR 0xEF, CHR 0xBF, CHR 0xBD]"

function runes :: "string \<Rightarrow> string list" where
  "runes [] = []"
| "runes (a # s) =
    (case rune_len (a # s) of
       0 \<Rightarrow> replacement # runes s
     | Suc n \<Rightarrow> take (Suc n) (a # s) # runes (drop n s))"
  by pat_completeness auto
termination by (relation "measure length") auto

definition utf8 :: "string \<Rightarrow> string" where
  "utf8 s = concat (runes s)"

text \<open>\<open>strings.TrimSpace\<close>: the code points Unicode calls white space, as byte sequences.\<close>

definition space_seqs :: "string list" where
  "space_seqs =
    [[CHR 0x09], [CHR 0x0A], [CHR 0x0B], [CHR 0x0C], [CHR 0x0D], [CHR 0x20],
     [CHR 0xC2, CHR 0x85], [CHR 0xC2, CHR 0xA0], [CHR 0xE1, CHR 0x9A, CHR 0x80]]
    @ map (\<lambda>n. [CHR 0xE2, CHR 0x80, byte n]) [0x80..<0x8B]
    @ [[CHR 0xE2, CHR 0x80, CHR 0xA8], [CHR 0xE2, CHR 0x80, CHR 0xA9],
       [CHR 0xE2, CHR 0x80, CHR 0xAF], [CHR 0xE2, CHR 0x81, CHR 0x9F],
       [CHR 0xE3, CHR 0x80, CHR 0x80]]"

definition strip_one :: "string list \<Rightarrow> string \<Rightarrow> string option" where
  "strip_one seqs s =
    (case filter (\<lambda>q. q \<noteq> [] \<and> prefix q s) seqs of [] \<Rightarrow> None | q # _ \<Rightarrow> Some (drop (length q) s))"

lemma strip_one_shorter: "strip_one seqs s = Some r \<Longrightarrow> length r < length s"
proof -
  assume "strip_one seqs s = Some r"
  then obtain q qs where "filter (\<lambda>q. q \<noteq> [] \<and> prefix q s) seqs = q # qs"
    and r: "r = drop (length q) s"
    by (simp add: strip_one_def split: list.splits)
  then have q: "q \<in> set (filter (\<lambda>q. q \<noteq> [] \<and> prefix q s) seqs)" by simp
  from q have "q \<noteq> []" "length q \<le> length s" by (auto dest: prefix_length_le)
  with r show ?thesis by (cases q) auto
qed

function strip_left :: "string list \<Rightarrow> string \<Rightarrow> string" where
  "strip_left seqs s = (case strip_one seqs s of None \<Rightarrow> s | Some r \<Rightarrow> strip_left seqs r)"
  by pat_completeness auto
termination
  by (relation "measure (length \<circ> snd)") (auto dest: strip_one_shorter)

declare strip_left.simps [simp del]

definition trim_space :: "string \<Rightarrow> string" where
  "trim_space s = rev (strip_left (map rev space_seqs) (rev (strip_left space_seqs s)))"

definition trim_prefix :: "string \<Rightarrow> string \<Rightarrow> string" where
  "trim_prefix p s = (if prefix p s then drop (length p) s else s)"

definition trim_suffix :: "string \<Rightarrow> string \<Rightarrow> string" where
  "trim_suffix p s = (if suffix p s then take (length s - length p) s else s)"

fun join_str :: "string \<Rightarrow> string list \<Rightarrow> string" where
  "join_str sep [] = []"
| "join_str sep [x] = x"
| "join_str sep (x # xs) = x @ sep @ join_str sep xs"

lemma trim_prefix_append [simp]: "trim_prefix p (p @ s) = s"
  by (simp add: trim_prefix_def)

lemma trim_suffix_append [simp]: "trim_suffix p (s @ p) = s"
  by (simp add: trim_suffix_def suffix_def)

text \<open>\<open>strconv.Itoa\<close>\<close>

fun digits :: "nat \<Rightarrow> string" where
  "digits n = (if n < 10 then [byte (48 + n)] else digits (n div 10) @ [byte (48 + n mod 10)])"

declare digits.simps [simp del]

definition itoa :: "int \<Rightarrow> string" where
  "itoa n = (if n < 0 then CHR ''-'' # digits (nat (- n)) else digits (nat n))"

section \<open>Slices\<close>

text \<open>
  \<^verbatim>\<open>slices.Index\<close> and \<^verbatim>\<open>slices.IndexFunc\<close> (\<open>None\<close> for Go's -1), and the deletion of the first
  match, which is how the sources combine them with \<^verbatim>\<open>slices.Delete\<close>.
\<close>

fun index_of :: "('a \<Rightarrow> bool) \<Rightarrow> 'a list \<Rightarrow> nat option" where
  "index_of P [] = None"
| "index_of P (x # xs) = (if P x then Some 0 else map_option Suc (index_of P xs))"

definition delete_at :: "nat \<Rightarrow> 'a list \<Rightarrow> 'a list" where
  "delete_at i xs = take i xs @ drop (Suc i) xs"

lemma index_of_None: "index_of P xs = None \<longleftrightarrow> (\<forall>x \<in> set xs. \<not> P x)"
  by (induction xs) auto

lemma index_of_Some:
  "index_of P xs = Some i \<Longrightarrow> i < length xs \<and> P (xs ! i) \<and> (\<forall>j < i. \<not> P (xs ! j))"
proof (induction xs arbitrary: i)
  case (Cons x xs)
  then show ?case by (auto split: if_splits simp: nth_Cons less_Suc_eq_0_disj split: nat.splits)
qed simp

lemma delete_at_index_remove1:
  "index_of (\<lambda>y. y = x) xs = Some i \<Longrightarrow> delete_at i xs = remove1 x xs"
  by (induction xs arbitrary: i) (auto simp: delete_at_def split: if_splits)

lemma mset_delete_at: "i < length xs \<Longrightarrow> mset (delete_at i xs) = mset xs - {#xs ! i#}"
proof -
  assume "i < length xs"
  then have "mset xs = mset (take i xs @ xs ! i # drop (Suc i) xs)"
    by (metis id_take_nth_drop)
  then show ?thesis by (simp add: delete_at_def)
qed

lemma set_delete_at_subset: "set (delete_at i xs) \<subseteq> set xs"
  by (auto simp: delete_at_def dest: in_set_takeD in_set_dropD)

lemma length_delete_at: "i < length xs \<Longrightarrow> length (delete_at i xs) = length xs - 1"
  by (simp add: delete_at_def)

lemma distinct_delete_at: "distinct xs \<Longrightarrow> distinct (delete_at i xs)"
  using set_take_disj_set_drop_if_distinct [of xs i "Suc i"] by (simp add: delete_at_def)

lemma map_delete_at: "map f (delete_at i xs) = delete_at i (map f xs)"
  by (simp add: delete_at_def take_map drop_map)

text \<open>The newest \<open>n\<close> elements of a list, which is what a Go tail slice keeps.\<close>

definition last_n :: "nat \<Rightarrow> 'a list \<Rightarrow> 'a list" where
  "last_n n xs = drop (length xs - n) xs"

lemma length_last_n: "length (last_n n xs) = min n (length xs)"
  by (simp add: last_n_def)

lemma last_n_all: "length xs \<le> n \<Longrightarrow> last_n n xs = xs"
  by (simp add: last_n_def)

lemma last_n_append_last_n: "last_n n (last_n n xs @ ys) = last_n n (xs @ ys)"
proof (cases "length ys \<ge> n \<or> length xs \<le> n")
  case True
  then show ?thesis by (auto simp: last_n_def)
next
  case False
  then have "length (drop (length xs - n) xs) = n" by simp
  moreover have "length xs - n + length ys = length xs + length ys - n" using False by simp
  ultimately show ?thesis using False by (simp add: last_n_def add.commute)
qed

lemma suffix_last_n: "suffix (last_n n xs) xs"
  by (simp add: last_n_def suffix_drop)

section \<open>Machine integers\<close>

text \<open>A 64-bit two's complement value: what Go keeps of an \<^verbatim>\<open>int64\<close> result.\<close>

definition wrap64 :: "int \<Rightarrow> int" where
  "wrap64 n = (n + 2 ^ 63) mod 2 ^ 64 - 2 ^ 63"

lemma wrap64_id: "- (2 ^ 63) \<le> n \<Longrightarrow> n < 2 ^ 63 \<Longrightarrow> wrap64 n = n"
  by (simp add: wrap64_def)

text \<open>Go's integer division truncates towards zero.\<close>

definition go_div :: "int \<Rightarrow> int \<Rightarrow> int" where
  "go_div a b = sgn a * sgn b * (\<bar>a\<bar> div \<bar>b\<bar>)"

lemma go_div_nonneg: "0 \<le> a \<Longrightarrow> 0 < b \<Longrightarrow> go_div a b = a div b"
  by (cases "a = 0") (simp_all add: go_div_def)

section \<open>Transition systems\<close>

text \<open>
  A component that several goroutines use is a state, the steps its operations take under its
  lock, and an invariant. \<open>reachable\<close> is the least predicate closed under the steps; a client
  gets the invariant, and whatever follows from it, in every reachable state.
\<close>

inductive reachable :: "'s \<Rightarrow> ('s \<Rightarrow> 's \<Rightarrow> bool) \<Rightarrow> 's \<Rightarrow> bool" for start step where
  reach_start: "reachable start step start"
| reach_step: "reachable start step s \<Longrightarrow> step s t \<Longrightarrow> reachable start step t"

inductive steps :: "('s \<Rightarrow> 's \<Rightarrow> bool) \<Rightarrow> 's \<Rightarrow> 's \<Rightarrow> bool" for step where
  steps_refl: "steps step s s"
| steps_step: "steps step s t \<Longrightarrow> step t u \<Longrightarrow> steps step s u"

locale transition_system =
  fixes start :: 's
    and step :: "'s \<Rightarrow> 's \<Rightarrow> bool"
    and inv :: "'s \<Rightarrow> bool"
  assumes inv_start: "inv start"
    and inv_step: "inv s \<Longrightarrow> step s t \<Longrightarrow> inv t"
begin

lemma reachable_inv: "reachable start step s \<Longrightarrow> inv s"
  by (induction rule: reachable.induct) (auto intro: inv_start inv_step)

lemma steps_inv: "steps step s t \<Longrightarrow> inv s \<Longrightarrow> inv t"
  by (induction rule: steps.induct) (auto intro: inv_step)

lemma steps_reachable: "steps step s t \<Longrightarrow> reachable start step s \<Longrightarrow> reachable start step t"
  by (induction rule: steps.induct) (auto intro: reach_step)

end

end
