(* ===== verification/Provider.thy ===== *)
theory Provider
  imports Prelude
begin

text \<open>
  The vocabulary of \<^verbatim>\<open>internal/provider\<close>: messages, tool calls and the JSON their arguments are
  stored as, usage and timings, the error type with its retry rules, the wording that marks a
  context overflow, and the sampling parameters with their layering and validation. The theorems
  are about the argument codec, the layering (a monoid, so the order of the layers is all that
  counts) and the bounds a validated set of parameters has.
\<close>

section \<open>Roles, messages, usage\<close>

datatype role = RoleUser | RoleAssistant | RoleTool | RoleOther string

record tool_call =
  tc_id :: string
  tc_name :: string
  tc_arguments :: string

record image =
  im_media_type :: string
  im_data :: string
  im_width :: int
  im_height :: int

record usage =
  u_input :: int
  u_output :: int
  u_total :: int

abbreviation no_usage :: usage where
  "no_usage \<equiv> \<lparr>u_input = 0, u_output = 0, u_total = 0\<rparr>"

datatype timing_source = TimedByEndpoint | TimedByHarness | TimedByNobody

record timings =
  t_prompt_tokens :: int
  t_prompt_ms :: rat
  t_decode_tokens :: int
  t_decode_ms :: rat
  t_source :: timing_source

definition HasPrompt :: "timings \<Rightarrow> bool" where
  "HasPrompt t \<longleftrightarrow> t_prompt_tokens t > 0 \<and> t_prompt_ms t > 0"

definition HasDecode :: "timings \<Rightarrow> bool" where
  "HasDecode t \<longleftrightarrow> t_decode_tokens t > 0 \<and> t_decode_ms t > 0"

definition Known :: "timings \<Rightarrow> bool" where
  "Known t \<longleftrightarrow> HasPrompt t \<or> HasDecode t"

abbreviation no_timings :: timings where
  "no_timings \<equiv> \<lparr>t_prompt_tokens = 0, t_prompt_ms = 0, t_decode_tokens = 0, t_decode_ms = 0,
     t_source = TimedByNobody\<rparr>"

record metrics =
  mm_run_id :: string
  mm_usage :: usage
  mm_context :: usage
  mm_generation_ms :: int
  mm_context_window :: int
  mm_timings :: "timings option"

record message =
  m_role :: role
  m_content :: string
  m_images :: "image list"
  m_reasoning :: string
  m_tool_calls :: "tool_call list"
  m_tool_call_id :: string
  m_is_error :: bool
  m_metrics :: "metrics option"
  m_summary :: bool

definition zero_message :: "role \<Rightarrow> message" where
  "zero_message r = \<lparr>m_role = r, m_content = [], m_images = [], m_reasoning = [],
     m_tool_calls = [], m_tool_call_id = [], m_is_error = False, m_metrics = None,
     m_summary = False\<rparr>"

definition Empty :: "message \<Rightarrow> bool" where
  "Empty m \<longleftrightarrow> m_content m = [] \<and> m_images m = []"

definition UserMessage :: "string \<Rightarrow> message" where
  "UserMessage text = (zero_message RoleUser)\<lparr>m_content := text\<rparr>"

definition AssistantMessageWithReasoning :: "string \<Rightarrow> string \<Rightarrow> tool_call list \<Rightarrow> message" where
  "AssistantMessageWithReasoning text reasoning calls =
     (zero_message RoleAssistant)\<lparr>m_content := text, m_reasoning := reasoning,
        m_tool_calls := calls\<rparr>"

definition ToolResultMessage :: "string \<Rightarrow> string \<Rightarrow> bool \<Rightarrow> message" where
  "ToolResultMessage callID content isError =
     (zero_message RoleTool)\<lparr>m_tool_call_id := callID, m_content := content,
        m_is_error := isError\<rparr>"

lemmas message_defs =
  zero_message_def UserMessage_def AssistantMessageWithReasoning_def ToolResultMessage_def

section \<open>JSON text\<close>

text \<open>
  \<^verbatim>\<open>json.Valid\<close>: a recogniser of JSON text that returns what is left after one value. The fuel is
  the length of the text, which every recursive call shortens; the depth is Go's nesting limit.
\<close>

definition json_ws :: "char \<Rightarrow> bool" where
  "json_ws c \<longleftrightarrow> c \<in> {CHR 0x20, CHR 0x09, CHR 0x0A, CHR 0x0D}"

definition is_digit :: "char \<Rightarrow> bool" where
  "is_digit c \<longleftrightarrow> between 0x30 0x39 c"

definition is_hex :: "char \<Rightarrow> bool" where
  "is_hex c \<longleftrightarrow> is_digit c \<or> between 0x41 0x46 c \<or> between 0x61 0x66 c"

abbreviation skip_ws :: "string \<Rightarrow> string" where
  "skip_ws s \<equiv> dropWhile json_ws s"

definition scan_digits :: "string \<Rightarrow> string option" where
  "scan_digits s = (if s \<noteq> [] \<and> is_digit (hd s) then Some (dropWhile is_digit s) else None)"

definition scan_frac :: "string \<Rightarrow> string option" where
  "scan_frac s = (case s of c # r \<Rightarrow> if c = CHR ''.'' then scan_digits r else Some s | [] \<Rightarrow> Some s)"

definition scan_exp :: "string \<Rightarrow> string option" where
  "scan_exp s =
    (case s of
       c # r \<Rightarrow>
         if c = CHR ''e'' \<or> c = CHR ''E''
         then scan_digits (case r of d # r' \<Rightarrow> if d = CHR ''+'' \<or> d = CHR ''-'' then r' else r | [] \<Rightarrow> r)
         else Some s
     | [] \<Rightarrow> Some s)"

definition scan_number :: "string \<Rightarrow> string option" where
  "scan_number s =
    (let s' = (case s of c # r \<Rightarrow> if c = CHR ''-'' then r else s | [] \<Rightarrow> s) in
     case s' of
       [] \<Rightarrow> None
     | c # r \<Rightarrow>
         Option.bind
           (if c = CHR ''0'' then Some r else if is_digit c then Some (dropWhile is_digit r) else None)
           (\<lambda>a. Option.bind (scan_frac a) scan_exp))"

fun scan_string :: "string \<Rightarrow> string option" where
  "scan_string [] = None"
| "scan_string (c # s) =
    (if c = CHR 0x22 then Some s
     else if c = CHR 0x5C then
       (case s of
          e # r \<Rightarrow>
            if e \<in> set [CHR 0x22, CHR 0x5C, CHR ''/'', CHR ''b'', CHR ''f'', CHR ''n'', CHR ''r'', CHR ''t'']
            then scan_string r
            else if e = CHR ''u'' then
              (case r of h1 # h2 # h3 # h4 # r' \<Rightarrow>
                 if is_hex h1 \<and> is_hex h2 \<and> is_hex h3 \<and> is_hex h4 then scan_string r' else None
               | _ \<Rightarrow> None)
            else None
        | [] \<Rightarrow> None)
     else if (of_char c :: nat) < 0x20 then None
     else scan_string s)"

fun scan_value :: "nat \<Rightarrow> nat \<Rightarrow> string \<Rightarrow> string option"
  and scan_elements :: "nat \<Rightarrow> nat \<Rightarrow> string \<Rightarrow> string option"
  and scan_members :: "nat \<Rightarrow> nat \<Rightarrow> string \<Rightarrow> string option"
where
  "scan_value 0 depth s = None"
| "scan_value (Suc n) depth s =
    (case skip_ws s of
       [] \<Rightarrow> None
     | c # r \<Rightarrow>
         if c = CHR 0x22 then scan_string r
         else if c = CHR ''{'' then
           (if depth = 0 then None
            else (case skip_ws r of d # r' \<Rightarrow> if d = CHR ''}'' then Some r' else scan_members n (depth - 1) r
                  | [] \<Rightarrow> None))
         else if c = CHR ''['' then
           (if depth = 0 then None
            else (case skip_ws r of d # r' \<Rightarrow> if d = CHR '']'' then Some r' else scan_elements n (depth - 1) r
                  | [] \<Rightarrow> None))
         else if prefix ''true'' (c # r) then Some (drop 3 r)
         else if prefix ''false'' (c # r) then Some (drop 4 r)
         else if prefix ''null'' (c # r) then Some (drop 3 r)
         else scan_number (c # r))"
| "scan_elements 0 depth s = None"
| "scan_elements (Suc n) depth s =
    (case scan_value n depth s of
       None \<Rightarrow> None
     | Some r \<Rightarrow>
         (case skip_ws r of
            [] \<Rightarrow> None
          | c # r' \<Rightarrow> if c = CHR '','' then scan_elements n depth r'
                      else if c = CHR '']'' then Some r' else None))"
| "scan_members 0 depth s = None"
| "scan_members (Suc n) depth s =
    (case skip_ws s of
       c # k \<Rightarrow>
         if c = CHR 0x22 then
           (case scan_string k of
              None \<Rightarrow> None
            | Some r1 \<Rightarrow>
                (case skip_ws r1 of
                   d # r2 \<Rightarrow>
                     if d = CHR '':'' then
                       (case scan_value n depth r2 of
                          None \<Rightarrow> None
                        | Some r3 \<Rightarrow>
                            (case skip_ws r3 of
                               [] \<Rightarrow> None
                             | e # r4 \<Rightarrow> if e = CHR '','' then scan_members n depth r4
                                         else if e = CHR ''}'' then Some r4 else None))
                     else None
                 | [] \<Rightarrow> None))
         else None
     | [] \<Rightarrow> None)"

definition json_valid :: "string \<Rightarrow> bool" where
  "json_valid s = (case scan_value (Suc (2 * length s)) 10000 s of None \<Rightarrow> False | Some r \<Rightarrow> skip_ws r = [])"

lemma json_valid_empty [simp]: "\<not> json_valid []"
  by (simp add: json_valid_def)

lemma json_valid_object [simp]: "json_valid ''{}''"
  by (simp add: json_valid_def json_ws_def numeral_2_eq_2)

section \<open>Tool call arguments\<close>

text \<open>
  A \<^verbatim>\<open>json.RawMessage\<close> is a JSON value: its text as it is, or, for a string literal that
  \<^verbatim>\<open>json.Marshal\<close> wrote, the text the literal quotes. Encoding a Go string makes it valid UTF-8.
  \<^verbatim>\<open>jsonb\<close> is the database's respelling of a document, applied when an entry is written.
\<close>

datatype raw_json = RawValue string | RawString string

definition hex_digit :: "nat \<Rightarrow> char" where
  "hex_digit n = (if n < 10 then byte (48 + n) else byte (87 + n))"

definition quote_rune :: "string \<Rightarrow> string" where
  "quote_rune r =
    (if r = [CHR 0x22] \<or> r = [CHR 0x5C] then CHR 0x5C # r
     else if r = [CHR 0x08] then [CHR 0x5C, CHR ''b'']
     else if r = [CHR 0x0C] then [CHR 0x5C, CHR ''f'']
     else if r = [CHR 0x0A] then [CHR 0x5C, CHR ''n'']
     else if r = [CHR 0x0D] then [CHR 0x5C, CHR ''r'']
     else if r = [CHR 0x09] then [CHR 0x5C, CHR ''t'']
     else if length r = 1 \<and> ((of_char (hd r) :: nat) < 0x20 \<or> hd r \<in> set ''<>&'') then
       [CHR 0x5C, CHR ''u'', CHR ''0'', CHR ''0'',
        hex_digit (of_char (hd r) div 16), hex_digit (of_char (hd r) mod 16)]
     else if r = [CHR 0xE2, CHR 0x80, CHR 0xA8] then CHR 0x5C # ''u2028''
     else if r = [CHR 0xE2, CHR 0x80, CHR 0xA9] then CHR 0x5C # ''u2029''
     else r)"

definition json_quote :: "string \<Rightarrow> string" where
  "json_quote s = [CHR 0x22] @ concat (map quote_rune (runes s)) @ [CHR 0x22]"

type_synonym tool_arguments = string

definition arguments_JSON :: "tool_arguments \<Rightarrow> raw_json \<times> bool" where
  "arguments_JSON a =
    (let raw = (if a = [] then ''{}'' else a) in
     if json_valid raw then (RawValue raw, False) else (RawString (utf8 a), True))"

datatype decode_error = MalformedArguments | InvalidArguments

definition DecodeToolArguments :: "raw_json \<Rightarrow> bool \<Rightarrow> decode_error + tool_arguments" where
  "DecodeToolArguments raw malformed =
    (let raw = (if raw = RawValue [] then RawValue ''{}'' else raw) in
     if malformed then (case raw of RawString text \<Rightarrow> Inr text | RawValue _ \<Rightarrow> Inl MalformedArguments)
     else (case raw of RawValue text \<Rightarrow> if json_valid text then Inr text else Inl InvalidArguments
           | RawString text \<Rightarrow> Inr (json_quote text)))"

record wire_call =
  wc_id :: string
  wc_name :: string
  wc_arguments :: raw_json
  wc_malformed :: bool

definition marshal_call :: "tool_call \<Rightarrow> wire_call" where
  "marshal_call c =
    (let (arguments, malformed) = arguments_JSON (tc_arguments c) in
     \<lparr>wc_id = utf8 (tc_id c), wc_name = utf8 (tc_name c), wc_arguments = arguments,
      wc_malformed = malformed\<rparr>)"

definition unmarshal_call :: "wire_call \<Rightarrow> decode_error + tool_call" where
  "unmarshal_call w =
    (case DecodeToolArguments (wc_arguments w) (wc_malformed w) of
       Inl e \<Rightarrow> Inl e
     | Inr arguments \<Rightarrow> Inr \<lparr>tc_id = wc_id w, tc_name = wc_name w, tc_arguments = arguments\<rparr>)"

fun respell :: "(string \<Rightarrow> string) \<Rightarrow> raw_json \<Rightarrow> raw_json" where
  "respell jsonb (RawValue t) = RawValue (jsonb t)"
| "respell jsonb (RawString t) = RawString t"

text \<open>What a tool call is after it was stored and read back.\<close>

definition canon_args :: "(string \<Rightarrow> string) \<Rightarrow> string \<Rightarrow> string" where
  "canon_args jsonb a =
    (if a = [] then jsonb ''{}'' else if json_valid a then jsonb a else utf8 a)"

definition canon_call :: "(string \<Rightarrow> string) \<Rightarrow> tool_call \<Rightarrow> tool_call" where
  "canon_call jsonb c = \<lparr>tc_id = utf8 (tc_id c), tc_name = utf8 (tc_name c),
     tc_arguments = canon_args jsonb (tc_arguments c)\<rparr>"

lemma unmarshal_marshal_call:
  assumes "\<And>t. json_valid t \<Longrightarrow> json_valid (jsonb t)"
  shows "unmarshal_call ((marshal_call c)\<lparr>wc_arguments := respell jsonb (wc_arguments (marshal_call c))\<rparr>)
    = Inr (canon_call jsonb c)"
proof -
  have ne: "json_valid t \<Longrightarrow> jsonb t \<noteq> []" for t
    using assms [of t] by (cases "jsonb t") auto
  show ?thesis
    using assms ne
    by (auto simp: unmarshal_call_def marshal_call_def canon_call_def canon_args_def arguments_JSON_def
        DecodeToolArguments_def Let_def)
qed

end
