(* ===== verification/Sampling.thy ===== *)
theory Sampling
  imports Provider
begin

text \<open>
  \<^verbatim>\<open>internal/provider/sampling.go\<close> and the two shape checks of \<^verbatim>\<open>provider.go\<close>: the optional sampling
  parameters, how one layer of configuration is put over another, and what a request may carry.
\<close>

section \<open>Numbers a request carries\<close>

text \<open>A \<^verbatim>\<open>float64\<close> is a finite value, an infinity, or NaN, which no comparison accepts.\<close>

datatype float64 = Finite rat | PosInf | NegInf | NaN

fun float_le :: "float64 \<Rightarrow> float64 \<Rightarrow> bool" where
  "float_le NaN _ = False"
| "float_le _ NaN = False"
| "float_le NegInf _ = True"
| "float_le _ PosInf = True"
| "float_le (Finite a) (Finite b) = (a \<le> b)"
| "float_le _ _ = False"

definition within_range :: "float64 option \<Rightarrow> rat \<Rightarrow> rat \<Rightarrow> bool" where
  "within_range v lo hi =
    (case v of None \<Rightarrow> True | Some x \<Rightarrow> float_le (Finite lo) x \<and> float_le x (Finite hi))"

lemma within_range_Some: "within_range (Some x) lo hi \<longleftrightarrow> (\<exists>r. x = Finite r \<and> lo \<le> r \<and> r \<le> hi)"
  by (cases x) (simp_all add: within_range_def)

section \<open>Efforts and switches\<close>

definition MaxReasoningEffortLen :: nat where
  "MaxReasoningEffortLen = 32"

definition effort_byte :: "char \<Rightarrow> bool" where
  "effort_byte c \<longleftrightarrow> between 0x61 0x7A c \<or> between 0x41 0x5A c \<or> between 0x30 0x39 c
     \<or> c = CHR ''_'' \<or> c = CHR ''-''"

text \<open>The rune loop: a rune outside ASCII is no letter, digit or mark, so each byte decides.\<close>

definition ValidReasoningEffort :: "string \<Rightarrow> bool" where
  "ValidReasoningEffort effort =
    (if length effort > MaxReasoningEffortLen then False else list_all effort_byte effort)"

definition ValidThinkingSwitch :: "string \<Rightarrow> bool" where
  "ValidThinkingSwitch s = (s \<in> set ['''', ''reasoning_effort'', ''chat_template_kwargs'', ''thinking''])"

section \<open>Sampling\<close>

record sampling =
  Temperature :: "float64 option"
  TopP :: "float64 option"
  TopK :: "int option"
  MinP :: "float64 option"
  FrequencyPenalty :: "float64 option"
  PresencePenalty :: "float64 option"
  Seed :: "int option"
  Stop :: "string list option"
  MaxOutput :: "int option"
  ReasoningEffort :: "string option"

definition no_sampling :: sampling where
  "no_sampling = \<lparr>Temperature = None, TopP = None, TopK = None, MinP = None,
     FrequencyPenalty = None, PresencePenalty = None, Seed = None, Stop = None,
     MaxOutput = None, ReasoningEffort = None\<rparr>"

definition layer :: "'a option \<Rightarrow> 'a option \<Rightarrow> 'a option" where
  "layer upper lower = (case upper of Some v \<Rightarrow> Some v | None \<Rightarrow> lower)"

definition Over :: "sampling \<Rightarrow> sampling \<Rightarrow> sampling" where
  "Over s lower =
    \<lparr>Temperature = layer (Temperature s) (Temperature lower),
     TopP = layer (TopP s) (TopP lower),
     TopK = layer (TopK s) (TopK lower),
     MinP = layer (MinP s) (MinP lower),
     FrequencyPenalty = layer (FrequencyPenalty s) (FrequencyPenalty lower),
     PresencePenalty = layer (PresencePenalty s) (PresencePenalty lower),
     Seed = layer (Seed s) (Seed lower),
     Stop = layer (Stop s) (Stop lower),
     MaxOutput = layer (MaxOutput s) (MaxOutput lower),
     ReasoningEffort = layer (ReasoningEffort s) (ReasoningEffort lower)\<rparr>"

definition MaxStopSequences :: nat where
  "MaxStopSequences = 16"

definition MaxStopSequenceLen :: nat where
  "MaxStopSequenceLen = 256"

definition stop_list :: "sampling \<Rightarrow> string list" where
  "stop_list s = (case Stop s of None \<Rightarrow> [] | Some l \<Rightarrow> l)"

datatype sampling_error =
    BadTemperature | BadTopP | BadTopK | BadMinP | BadFrequencyPenalty | BadPresencePenalty
  | TooManyStops | BadMaxOutput | BadReasoningEffort | BadStopSequence

definition Validate :: "sampling \<Rightarrow> sampling_error option" where
  "Validate s =
    (if \<not> within_range (Temperature s) 0 2 then Some BadTemperature
     else if \<not> within_range (TopP s) 0 1 then Some BadTopP
     else if (case TopK s of Some k \<Rightarrow> k < 1 | None \<Rightarrow> False) then Some BadTopK
     else if \<not> within_range (MinP s) 0 1 then Some BadMinP
     else if \<not> within_range (FrequencyPenalty s) (-2) 2 then Some BadFrequencyPenalty
     else if \<not> within_range (PresencePenalty s) (-2) 2 then Some BadPresencePenalty
     else if length (stop_list s) > MaxStopSequences then Some TooManyStops
     else if (case MaxOutput s of Some n \<Rightarrow> n < 1 | None \<Rightarrow> False) then Some BadMaxOutput
     else if (case ReasoningEffort s of Some e \<Rightarrow> \<not> ValidReasoningEffort e | None \<Rightarrow> False)
       then Some BadReasoningEffort
     else if list_ex (\<lambda>q. q = [] \<or> length q > MaxStopSequenceLen) (stop_list s)
       then Some BadStopSequence
     else None)"

section \<open>Layering is a monoid that keeps validity\<close>

lemma layer_assoc: "layer (layer a b) c = layer a (layer b c)"
  by (simp add: layer_def split: option.splits)

lemma layer_None [simp]: "layer None a = a" "layer a None = a"
  by (simp_all add: layer_def split: option.splits)

lemma layer_Some [simp]: "layer (Some v) a = Some v"
  by (simp add: layer_def)

lemma layer_cases: "layer a b = a \<or> layer a b = b"
  by (simp add: layer_def split: option.splits)

lemma Over_assoc: "Over (Over a b) c = Over a (Over b c)"
  by (simp add: Over_def layer_assoc)

lemma Over_no_sampling: "Over no_sampling s = s" "Over s no_sampling = s"
  by (simp_all add: Over_def no_sampling_def)

text \<open>
  Field by field, \<^const>\<open>Validate\<close> accepts: the parameters are independent of one another.
\<close>

definition valid_fields :: "sampling \<Rightarrow> bool" where
  "valid_fields s \<longleftrightarrow>
     within_range (Temperature s) 0 2 \<and> within_range (TopP s) 0 1 \<and> pred_option (\<lambda>k. 1 \<le> k) (TopK s)
     \<and> within_range (MinP s) 0 1 \<and> within_range (FrequencyPenalty s) (-2) 2 \<and> within_range (PresencePenalty s) (-2) 2
     \<and> pred_option (\<lambda>n. 1 \<le> n) (MaxOutput s) \<and> pred_option ValidReasoningEffort (ReasoningEffort s)
     \<and> pred_option (\<lambda>l. length l \<le> 16 \<and> (\<forall>q \<in> set l. q \<noteq> [] \<and> length q \<le> 256)) (Stop s)"

lemma Validate_fields: "Validate s = None \<longleftrightarrow> valid_fields s"
  by (auto simp: Validate_def valid_fields_def stop_list_def MaxStopSequences_def
      MaxStopSequenceLen_def list_ex_iff not_less not_le Suc_le_eq split: option.splits if_splits)

lemma valid_fields_layer: "P a \<Longrightarrow> P b \<Longrightarrow> P (layer a b)"
  by (cases a) simp_all

text \<open>
  Layering keeps validity: a stack of layers that each validate resolves to parameters
  that validate.
\<close>

lemma Over_valid: "Validate a = None \<Longrightarrow> Validate b = None \<Longrightarrow> Validate (Over a b) = None"
  unfolding Validate_fields valid_fields_def Over_def
  by (auto intro: valid_fields_layer)

end
