(* ===== verification/Tool_Registry.thy ===== *)
theory Tool_Registry
  imports Provider "HOL-Library.Char_ord" "HOL-Library.List_Lexorder" "HOL-Library.AList"
begin

text \<open>
  \<^verbatim>\<open>internal/tool\<close>: tools, results and the registry of the tools one agent may call. The registry is
  a Go map from names to tools; here it is an association list with distinct keys, and the listing
  operations sort the names as the code does, so nothing depends on the order of the list.
\<close>

record tool_def =
  td_name :: string
  td_description :: string
  td_schema :: string

text \<open>A tool is its definition and whether it implements \<^verbatim>\<open>Standalone\<close>. Running it is up to its
  author, so a call is a parameter of the agent loop.\<close>

record tool =
  tool_definition :: tool_def
  tool_standalone :: bool

abbreviation tool_name :: "tool \<Rightarrow> string" where
  "tool_name t \<equiv> td_name (tool_definition t)"

definition NeedsWorkspace :: "tool \<Rightarrow> bool" where
  "NeedsWorkspace t \<longleftrightarrow> \<not> tool_standalone t"

record tool_result =
  tr_content :: string
  tr_is_error :: bool
  tr_details :: string

definition tool_Errorf :: "string \<Rightarrow> tool_result" where
  "tool_Errorf msg = \<lparr>tr_content = msg, tr_is_error = True, tr_details = []\<rparr>"

section \<open>The registry\<close>

type_synonym registry = "(string \<times> tool) list"

datatype register_error = ToolIsNil | NameIsEmpty | AlreadyRegistered string

definition Register :: "tool option \<Rightarrow> registry \<Rightarrow> register_error + registry" where
  "Register t r =
    (case t of
       None \<Rightarrow> Inl ToolIsNil
     | Some t \<Rightarrow>
         let name = tool_name t in
         if name = [] then Inl NameIsEmpty
         else if map_of r name \<noteq> None then Inl (AlreadyRegistered name)
         else Inr ((name, t) # r))"

fun register_all :: "tool option list \<Rightarrow> registry \<Rightarrow> register_error + registry" where
  "register_all [] r = Inr r"
| "register_all (t # ts) r =
    (case Register t r of Inl e \<Rightarrow> Inl e | Inr r' \<Rightarrow> register_all ts r')"

definition NewRegistry :: "tool option list \<Rightarrow> register_error + registry" where
  "NewRegistry tools = register_all tools []"

definition registry_Get :: "string \<Rightarrow> registry \<Rightarrow> tool option" where
  "registry_Get name r = map_of r name"

definition registry_List :: "registry \<Rightarrow> tool list" where
  "registry_List r = map (\<lambda>name. the (map_of r name)) (sort (map fst r))"

definition registry_Filter :: "(tool \<Rightarrow> bool) \<Rightarrow> registry \<Rightarrow> registry" where
  "registry_Filter keep r =
     fold (\<lambda>t out. if keep t then AList.update (tool_name t) t out else out) (registry_List r) []"

definition Schemas :: "registry \<Rightarrow> tool_def list" where
  "Schemas r = map tool_definition (registry_List r)"

section \<open>The invariant and what the operations do\<close>

definition registry_ok :: "registry \<Rightarrow> bool" where
  "registry_ok r \<longleftrightarrow> distinct (map fst r) \<and> list_all (\<lambda>(n, t). n = tool_name t \<and> n \<noteq> []) r"

lemma Register_ok: "registry_ok r \<Longrightarrow> Register t r = Inr r' \<Longrightarrow> registry_ok r'"
  by (auto simp: Register_def registry_ok_def Let_def map_of_eq_None_iff split: option.splits if_splits)

lemma register_all_ok: "registry_ok r \<Longrightarrow> register_all ts r = Inr r' \<Longrightarrow> registry_ok r'"
  by (induction ts arbitrary: r) (auto dest: Register_ok split: sum.splits)

lemma NewRegistry_ok: "NewRegistry ts = Inr r \<Longrightarrow> registry_ok r"
  using register_all_ok [of "[]" ts r] by (simp add: NewRegistry_def registry_ok_def)

lemma registry_List_names:
  "registry_ok r \<Longrightarrow> map tool_name (registry_List r) = sort (map fst r)"
proof -
  assume ok: "registry_ok r"
  have "tool_name (the (map_of r n)) = n" if "n \<in> set (map fst r)" for n
    using ok that by (auto simp: registry_ok_def list_all_iff dest: map_of_is_SomeI)
  then show ?thesis by (auto simp: registry_List_def intro: map_idI)
qed

lemma registry_List_set: "registry_ok r \<Longrightarrow> set (registry_List r) = snd ` set r"
  by (force simp: registry_List_def registry_ok_def image_image image_iff dest: map_of_is_SomeI)

lemma registry_List_sorted:
  "registry_ok r \<Longrightarrow> sorted_wrt (<) (map tool_name (registry_List r))"
  by (simp add: registry_List_names strict_sorted_iff) (simp add: registry_ok_def)

lemma Get_List:
  assumes "registry_ok r"
  shows "registry_Get n r = Some t \<longleftrightarrow> t \<in> set (registry_List r) \<and> tool_name t = n"
proof -
  have "map_of r n = Some t \<longleftrightarrow> (n, t) \<in> set r"
    using assms by (simp add: registry_ok_def)
  also have "\<dots> \<longleftrightarrow> t \<in> snd ` set r \<and> tool_name t = n"
    using assms by (force simp: registry_ok_def list_all_iff)
  finally show ?thesis using assms by (simp add: registry_Get_def registry_List_set)
qed

lemma update_new_key: "k \<notin> fst ` set al \<Longrightarrow> AList.update k v al = al @ [(k, v)]"
  by (induction al) auto

lemma Filter_fold:
  assumes "distinct (map tool_name ts)" "\<forall>t \<in> set ts. tool_name t \<notin> fst ` set out"
    and "registry_ok out" "\<forall>t \<in> set ts. tool_name t \<noteq> []"
  shows "registry_ok (fold (\<lambda>t out. if keep t then AList.update (tool_name t) t out else out) ts out)
    \<and> snd ` set (fold (\<lambda>t out. if keep t then AList.update (tool_name t) t out else out) ts out)
      = snd ` set out \<union> {t \<in> set ts. keep t}"
  using assms
proof (induction ts arbitrary: out)
  case (Cons t ts)
  show ?case
  proof (cases "keep t")
    case False
    with Cons show ?thesis by auto
  next
    case True
    let ?o = "AList.update (tool_name t) t out"
    have new: "?o = out @ [(tool_name t, t)]"
      using Cons.prems(2) by (simp add: update_new_key)
    have "registry_ok ?o" using Cons.prems by (auto simp: new registry_ok_def)
    moreover have "\<forall>u \<in> set ts. tool_name u \<notin> fst ` set ?o"
    proof
      fix u assume "u \<in> set ts"
      then have "tool_name u \<in> tool_name ` set ts" by (rule imageI)
      moreover have "tool_name t \<notin> tool_name ` set ts" using Cons.prems(1) by simp
      ultimately have ne: "tool_name u \<noteq> tool_name t" by auto
      have "tool_name u \<notin> fst ` set out" using Cons.prems(2) \<open>u \<in> set ts\<close> by simp
      then show "tool_name u \<notin> fst ` set ?o" using ne by (simp add: new)
    qed
    ultimately show ?thesis
      using Cons.IH [of ?o] Cons.prems True by (auto simp: new)
  qed
qed simp

lemma Filter_spec:
  assumes "registry_ok r"
  shows "registry_ok (registry_Filter keep r)"
    and "set (registry_List (registry_Filter keep r)) = {t \<in> set (registry_List r). keep t}"
proof -
  have d: "distinct (map tool_name (registry_List r))"
    using registry_List_sorted [OF assms] by (simp add: strict_sorted_iff)
  have ne: "\<forall>t \<in> set (registry_List r). tool_name t \<noteq> []"
    using assms by (fastforce simp: registry_List_set registry_ok_def list_all_iff)
  have "registry_ok []" by (simp add: registry_ok_def)
  from Filter_fold [OF d _ this ne, of keep]
  show ok: "registry_ok (registry_Filter keep r)"
    and "set (registry_List (registry_Filter keep r)) = {t \<in> set (registry_List r). keep t}"
    by (auto simp: registry_Filter_def registry_List_set)
qed

end
