(* ===== verification/Provider_Errors.thy ===== *)
theory Provider_Errors
  imports Provider
begin

text \<open>
  Errors as the agent loop sees them: Go's wrapped and joined errors as a datatype, the provider's
  error with its retry advice, and \<^verbatim>\<open>ContextOverflow\<close>, which recognises by its wording an endpoint
  that refused a request as too large. The regular expressions of \<^verbatim>\<open>overflow.go\<close> are data here,
  matched by a small backtracking matcher.
\<close>

section \<open>Errors\<close>

datatype err =
    ErrText string
  | ErrCanceled
  | ErrDeadline
  | ErrNotFound
  | ErrConflict
  | ErrSilentOverflow
  | ErrNothingToCompact
  | ErrProvider string int bool int err
  | ErrWrap string err
  | ErrJoin err err

fun err_text :: "err \<Rightarrow> string" where
  "err_text (ErrText s) = s"
| "err_text ErrCanceled = ''context canceled''"
| "err_text ErrDeadline = ''context deadline exceeded''"
| "err_text ErrNotFound = ''not found''"
| "err_text ErrConflict = ''conflict''"
| "err_text ErrSilentOverflow =
     ''call model: the endpoint filled its context window with the request and produced nothing''"
| "err_text ErrNothingToCompact =
     ''nothing to compact: the conversation fits in what a compaction keeps''"
| "err_text (ErrProvider op status retry after e) =
     (if status \<noteq> 0 then op @ '': http '' @ itoa status @ '': '' @ err_text e
      else op @ '': '' @ err_text e)"
| "err_text (ErrWrap p e) = p @ '': '' @ err_text e"
| "err_text (ErrJoin a b) = err_text a @ nl @ err_text b"

text \<open>\<^verbatim>\<open>errors.As(err, *provider.Error)\<close>: the outermost provider error of the tree.\<close>

fun provider_error :: "err \<Rightarrow> (bool \<times> int) option" where
  "provider_error (ErrProvider op status retry after e) = Some (retry, after)"
| "provider_error (ErrWrap p e) = provider_error e"
| "provider_error (ErrJoin a b) =
     (case provider_error a of Some r \<Rightarrow> Some r | None \<Rightarrow> provider_error b)"
| "provider_error _ = None"

definition Retryable :: "err \<Rightarrow> bool" where
  "Retryable e = (case provider_error e of Some (retry, _) \<Rightarrow> retry | None \<Rightarrow> False)"

definition RetryAfter :: "err \<Rightarrow> int" where
  "RetryAfter e = (case provider_error e of Some (_, after) \<Rightarrow> after | None \<Rightarrow> 0)"

fun err_is :: "err \<Rightarrow> err \<Rightarrow> bool" where
  "err_is target (ErrProvider op status retry after e) \<longleftrightarrow>
     ErrProvider op status retry after e = target \<or> err_is target e"
| "err_is target (ErrWrap p e) \<longleftrightarrow> ErrWrap p e = target \<or> err_is target e"
| "err_is target (ErrJoin a b) \<longleftrightarrow> ErrJoin a b = target \<or> err_is target a \<or> err_is target b"
| "err_is target e \<longleftrightarrow> e = target"

section \<open>Regular expressions\<close>

text \<open>
  The operators the patterns use. A literal matches without regard to case, as \<^verbatim>\<open>(?i)\<close> asks: the
  two ASCII cases, and the Kelvin sign and the long s, which fold to \<open>k\<close> and \<open>s\<close>.
\<close>

datatype char_class = Digit | DigitComma | Space | AnyButNewline

datatype re = Lit string | Opt "re list" | Many0 char_class | Many1 char_class | Alt "re list list"

fun in_class :: "char_class \<Rightarrow> char \<Rightarrow> bool" where
  "in_class Digit c = is_digit c"
| "in_class DigitComma c = (is_digit c \<or> c = CHR '','')"
| "in_class Space c = (c \<in> {CHR 0x09, CHR 0x0A, CHR 0x0C, CHR 0x0D, CHR 0x20})"
| "in_class AnyButNewline c = (c \<noteq> CHR 0x0A)"

definition lower :: "char \<Rightarrow> char" where
  "lower c = (if between 0x41 0x5A c then byte (of_char c + 32) else c)"

definition upper :: "char \<Rightarrow> char" where
  "upper c = (if between 0x61 0x7A c then byte (of_char c - 32) else c)"

definition fold_alts :: "char \<Rightarrow> string list" where
  "fold_alts c = [[lower c], [upper c]]
     @ (if lower c = CHR ''s'' then [[CHR 0xC5, CHR 0xBF]]
        else if lower c = CHR ''k'' then [[CHR 0xE2, CHR 0x84, CHR 0xAA]] else [])"

fun lit_rest :: "string \<Rightarrow> string \<Rightarrow> string option" where
  "lit_rest [] s = Some s"
| "lit_rest (c # cs) s =
    (case filter (\<lambda>a. prefix a s) (fold_alts c) of
       [] \<Rightarrow> None
     | a # _ \<Rightarrow> lit_rest cs (drop (length a) s))"

fun many0_rests :: "char_class \<Rightarrow> string \<Rightarrow> string list" where
  "many0_rests k [] = [[]]"
| "many0_rests k (c # s) = (if in_class k c then (c # s) # many0_rests k s else [c # s])"

fun re_rests :: "re \<Rightarrow> string \<Rightarrow> string list"
  and seq_rests :: "re list \<Rightarrow> string \<Rightarrow> string list"
  and alt_rests :: "re list list \<Rightarrow> string \<Rightarrow> string list"
where
  "re_rests (Lit l) s = (case lit_rest l s of None \<Rightarrow> [] | Some r \<Rightarrow> [r])"
| "re_rests (Opt rs) s = seq_rests rs s @ [s]"
| "re_rests (Many0 k) s = many0_rests k s"
| "re_rests (Many1 k) s = (case s of [] \<Rightarrow> [] | c # r \<Rightarrow> if in_class k c then many0_rests k r else [])"
| "re_rests (Alt as) s = alt_rests as s"
| "seq_rests [] s = [s]"
| "seq_rests (r # rs) s = concat (map (seq_rests rs) (re_rests r s))"
| "alt_rests [] s = []"
| "alt_rests (a # as) s = seq_rests a s @ alt_rests as s"

definition MatchString :: "re list \<Rightarrow> string \<Rightarrow> bool" where
  "MatchString p text \<longleftrightarrow> list_ex (\<lambda>s. seq_rests p s \<noteq> []) (suffixes text)"

section \<open>Context overflow\<close>

definition overflowPatterns :: "re list list" where
  "overflowPatterns =
   [[Lit ''prompt is too long''],
    [Lit ''request_too_large''],
    [Lit ''input is too long for requested model''],
    [Lit ''exceeds the context window''],
    [Lit ''exceeds '', Opt [Lit ''the ''], Opt [Lit ''model'', Opt [Lit [CHR 0x27]], Lit ''s ''],
     Lit ''maximum context length'',
     Alt [[Lit '' of '', Many1 DigitComma, Lit '' token'', Opt [Lit ''s'']],
          [Many0 Space, Lit ''('', Many1 DigitComma, Lit '')'']]],
    [Lit ''input token count'', Many0 AnyButNewline, Lit ''exceeds the maximum''],
    [Lit ''maximum prompt length is '', Many1 Digit],
    [Lit ''reduce the length of the messages''],
    [Lit ''maximum context length is '', Many1 Digit, Lit '' tokens''],
    [Lit ''exceeds '', Opt [Lit ''the ''], Lit ''maximum allowed input length of '', Many1 DigitComma,
     Lit '' token'', Opt [Lit ''s'']],
    [Lit ''input ('', Many1 Digit, Lit '' tokens) is longer than the model'', Opt [Lit [CHR 0x27]],
     Lit ''s context length ('', Many1 Digit, Lit '' tokens)''],
    [Lit ''exceeds the limit of '', Many1 Digit],
    [Lit ''exceeds the available context size''],
    [Lit ''greater than the context length''],
    [Lit ''context window exceeds limit''],
    [Lit ''exceeded model token limit''],
    [Lit ''too large for model with '', Many1 Digit, Lit '' maximum context length''],
    [Lit ''prompt has '', Many1 DigitComma, Lit '' token'', Opt [Lit ''s''],
     Lit '', but the configured context size is '', Many1 DigitComma, Lit '' token'', Opt [Lit ''s'']],
    [Lit ''model_context_window_exceeded''],
    [Lit ''prompt too long; exceeded '', Opt [Lit ''max ''], Lit ''context length''],
    [Lit ''range of input length should be''],
    [Lit ''context'', Alt [[Lit ''_''], [Lit '' '']], Lit ''length'', Alt [[Lit ''_''], [Lit '' '']],
     Lit ''exceeded''],
    [Lit ''too many tokens''],
    [Lit ''token limit exceeded'']]"

definition notOverflowPatterns :: "re list list" where
  "notOverflowPatterns =
   [[Alt [[Lit ''Throttling error''], [Lit ''Service unavailable'']], Lit '':''],
    [Lit ''please wait''],
    [Lit ''rate limit''],
    [Lit ''too many requests'']]"

definition ContextOverflow :: "err \<Rightarrow> bool" where
  "ContextOverflow e =
    (let text = err_text e in
     if list_ex (\<lambda>p. MatchString p text) notOverflowPatterns then False
     else list_ex (\<lambda>p. MatchString p text) overflowPatterns)"

text \<open>\<^verbatim>\<open>StripReasoning\<close>: the pattern is anchored, so it removes at most one block, at the start.\<close>

fun after_first :: "string \<Rightarrow> string \<Rightarrow> string option" where
  "after_first p s =
    (if prefix p s then Some (drop (length p) s)
     else (case s of [] \<Rightarrow> None | _ # r \<Rightarrow> after_first p r))"

declare after_first.simps [simp del]

definition StripReasoning :: "string \<Rightarrow> string" where
  "StripReasoning text =
    (let s = dropWhile (in_class Space) text in
     if prefix ''<think>'' s then
       (case after_first ''</think>'' (drop 7 s) of Some r \<Rightarrow> r | None \<Rightarrow> text)
     else text)"

section \<open>Facts\<close>

lemma Retryable_wrap [simp]: "Retryable (ErrWrap p e) = Retryable e"
  by (simp add: Retryable_def)

lemma lit_rest_self: "lit_rest l (l @ s) = Some s"
proof (induction l)
  case (Cons c l)
  have f: "filter (\<lambda>a. prefix a (c # l @ s)) (fold_alts c) = (if lower c = upper c then [[c],[c]] else [[c]])"
    if "lower c = c \<or> upper c = c"
    using that by (auto simp: fold_alts_def lower_def upper_def between_def split: if_splits)
  have "lower c = c \<or> upper c = c"
    by (auto simp: lower_def upper_def between_def)
  with f Cons.IH show ?case by (cases "lower c = upper c") auto
qed simp

lemma MatchString_literal: "MatchString [Lit l] (a @ l @ b)"
proof -
  have "l @ b \<in> set (suffixes (a @ l @ b))"
    by (simp add: in_set_suffixes suffix_def)
  moreover have "seq_rests [Lit l] (l @ b) \<noteq> []"
    by (simp add: lit_rest_self)
  ultimately show ?thesis unfolding MatchString_def list_ex_iff by blast
qed

lemma after_first_here: "after_first p (p @ z) = Some z"
  by (simp add: after_first.simps [of p "p @ z"])

lemma after_first_spec:
  "after_first p s = Some r \<Longrightarrow> \<exists>a. s = a @ p @ r"
proof (induction p s rule: after_first.induct)
  case (1 p s)
  show ?case
  proof (cases "prefix p s")
    case True
    then obtain z where s: "s = p @ z" by (auto simp: prefix_def)
    with "1.prems" have "r = z" by (simp add: after_first_here)
    with s show ?thesis by blast
  next
    case False
    with "1.prems" obtain c r' where s: "s = c # r'" and "after_first p r' = Some r"
      by (auto simp: after_first.simps [of p s] split: list.splits)
    with "1.IH" False obtain a where "r' = a @ p @ r" by blast
    with s have "s = (c # a) @ p @ r" by simp
    then show ?thesis by blast
  qed
qed

lemma rate_limit_is_no_overflow:
  "err_text e = a @ ''rate limit'' @ b \<Longrightarrow> \<not> ContextOverflow e"
  using MatchString_literal [of "''rate limit''" a b]
  by (simp add: ContextOverflow_def notOverflowPatterns_def Let_def)

end
