(* ===== verification/Conversation.thy ===== *)
theory Conversation
  imports Provider_Errors
begin

text \<open>
  \<^verbatim>\<open>internal/agent/queue.go\<close> and \<^verbatim>\<open>conversation.go\<close>, and the queue half of \<^verbatim>\<open>agent.go\<close>: the FIFO
  queues of steering and follow-up messages, the conversation, and the operations that accept,
  select and give back messages under the agent's lock. The locale \<open>message_queue\<close> is what the
  loop relies on of a queue; its interpretation discharges the laws for the code's queue.
\<close>

section \<open>The queue\<close>

record queue =
  q_messages :: "message list"

definition new_queue :: queue where
  "new_queue = \<lparr>q_messages = []\<rparr>"

definition q_push :: "message \<Rightarrow> queue \<Rightarrow> queue" where
  "q_push msg q = q\<lparr>q_messages := q_messages q @ [msg]\<rparr>"

definition q_unshift :: "message list \<Rightarrow> queue \<Rightarrow> queue" where
  "q_unshift msgs q = (if msgs = [] then q else q\<lparr>q_messages := msgs @ q_messages q\<rparr>)"

definition q_drain :: "queue \<Rightarrow> message list \<times> queue" where
  "q_drain q = (q_messages q, q\<lparr>q_messages := []\<rparr>)"

definition q_take :: "int \<Rightarrow> queue \<Rightarrow> message list \<times> queue" where
  "q_take n q =
    (if n \<le> 0 then q_drain q
     else let n = (if n > int (length (q_messages q)) then length (q_messages q) else nat n) in
       (take n (q_messages q), q\<lparr>q_messages := drop n (q_messages q)\<rparr>))"

definition q_pending :: "queue \<Rightarrow> message list" where
  "q_pending q = q_messages q"

lemmas [queue_defs] = new_queue_def q_push_def q_unshift_def q_drain_def q_take_def q_pending_def

text \<open>What the loop relies on: a queue is the list of its messages, oldest first.\<close>

locale message_queue =
  fixes contents :: "'q \<Rightarrow> 'm list"
    and push :: "'m \<Rightarrow> 'q \<Rightarrow> 'q"
    and unshift :: "'m list \<Rightarrow> 'q \<Rightarrow> 'q"
    and drain :: "'q \<Rightarrow> 'm list \<times> 'q"
    and takeq :: "int \<Rightarrow> 'q \<Rightarrow> 'm list \<times> 'q"
  assumes contents_push: "contents (push m q) = contents q @ [m]"
    and contents_unshift: "contents (unshift ms q) = ms @ contents q"
    and drain_all: "drain q = (ms, q') \<Longrightarrow> ms = contents q \<and> contents q' = []"
    and take_split: "takeq n q = (ms, q') \<Longrightarrow> ms @ contents q' = contents q"
    and take_positive: "takeq n q = (ms, q') \<Longrightarrow> 0 < n \<Longrightarrow> length ms = min (nat n) (length (contents q))"
    and take_rest: "takeq n q = (ms, q') \<Longrightarrow> n \<le> 0 \<Longrightarrow> contents q' = []"
begin

text \<open>Giving back what was taken restores the order, whatever was accepted in between.\<close>

lemma take_unshift:
  assumes "takeq n q = (ms, q')"
  shows "contents (unshift ms (fold push xs q')) = contents q @ xs"
proof -
  have "contents (fold push xs r) = contents r @ xs" for r
    by (induction xs arbitrary: r) (simp_all add: contents_push)
  then show ?thesis using take_split [OF assms] by (simp add: contents_unshift)
qed

lemma drain_unshift:
  assumes "drain q = (ms, q')"
  shows "contents (unshift ms (fold push xs q')) = contents q @ xs"
proof -
  have "contents (fold push xs r) = contents r @ xs" for r
    by (induction xs arbitrary: r) (simp_all add: contents_push)
  then show ?thesis using drain_all [OF assms] by (simp add: contents_unshift)
qed

lemma push_unshift: "contents (push m (unshift ms q)) = contents (unshift ms (push m q))"
  by (simp add: contents_push contents_unshift)

end

interpretation agent_queue: message_queue q_messages q_push q_unshift q_drain q_take
  by unfold_locales (auto simp: queue_defs Let_def split: if_splits)

section \<open>The conversation\<close>

type_synonym conversation = "message list"

definition conv_Append :: "message \<Rightarrow> conversation \<Rightarrow> conversation" where
  "conv_Append m c = c @ [m]"

definition conv_Truncate :: "int \<Rightarrow> conversation \<Rightarrow> conversation" where
  "conv_Truncate n c =
    (let n = (if n < 0 then 0 else n) in if n < int (length c) then take (nat n) c else c)"

definition conv_Replace :: "message list \<Rightarrow> conversation \<Rightarrow> conversation" where
  "conv_Replace msgs c = msgs"

lemmas [queue_defs] = conv_Append_def conv_Truncate_def conv_Replace_def

lemma conv_Truncate_take: "0 \<le> n \<Longrightarrow> conv_Truncate n c = take (nat n) c"
  by (simp add: conv_Truncate_def Let_def)

section \<open>The agent's queues\<close>

datatype queue_mode = QueueOneAtATime | QueueAll

datatype origin = FromSteering | FromFollowUps

record agent_queues =
  steering :: queue
  followUps :: queue
  accepting :: bool

definition new_queues :: agent_queues where
  "new_queues = \<lparr>steering = new_queue, followUps = new_queue, accepting = True\<rparr>"

definition Steer :: "message \<Rightarrow> agent_queues \<Rightarrow> bool \<times> agent_queues" where
  "Steer msg a =
    (if \<not> accepting a then (False, a) else (True, a\<lparr>steering := q_push msg (steering a)\<rparr>))"

definition FollowUp :: "message \<Rightarrow> agent_queues \<Rightarrow> bool \<times> agent_queues" where
  "FollowUp msg a =
    (if \<not> accepting a then (False, a) else (True, a\<lparr>followUps := q_push msg (followUps a)\<rparr>))"

definition PendingSteering :: "agent_queues \<Rightarrow> message list" where
  "PendingSteering a = q_pending (steering a)"

definition PendingFollowUps :: "agent_queues \<Rightarrow> message list" where
  "PendingFollowUps a = q_pending (followUps a)"

definition drainSteering :: "agent_queues \<Rightarrow> message list \<times> agent_queues" where
  "drainSteering a = (let (msgs, q) = q_drain (steering a) in (msgs, a\<lparr>steering := q\<rparr>))"

definition nextQueued :: "queue_mode \<Rightarrow> agent_queues \<Rightarrow> (message list \<times> origin option) \<times> agent_queues" where
  "nextQueued mode a =
    (let (msgs, q) = q_drain (steering a) in
     if msgs \<noteq> [] then ((msgs, Some FromSteering), a\<lparr>steering := q\<rparr>)
     else
       let count = (if mode = QueueAll then 0 else 1);
           (msgs, f) = q_take count (followUps a) in
       if msgs \<noteq> [] then ((msgs, Some FromFollowUps), a\<lparr>steering := q, followUps := f\<rparr>)
       else (([], None), a\<lparr>steering := q, followUps := f, accepting := False\<rparr>))"

definition closeQueues :: "agent_queues \<Rightarrow> agent_queues" where
  "closeQueues a = a\<lparr>accepting := False\<rparr>"

definition unshift_to :: "origin option \<Rightarrow> message list \<Rightarrow> agent_queues \<Rightarrow> agent_queues" where
  "unshift_to orig msgs a =
    (case orig of
       None \<Rightarrow> a
     | Some FromSteering \<Rightarrow> a\<lparr>steering := q_unshift msgs (steering a)\<rparr>
     | Some FromFollowUps \<Rightarrow> a\<lparr>followUps := q_unshift msgs (followUps a)\<rparr>)"

lemmas [queue_defs] =
  Steer_def FollowUp_def PendingSteering_def PendingFollowUps_def drainSteering_def nextQueued_def
  closeQueues_def unshift_to_def new_queues_def

text \<open>Messages other goroutines hand to the agent, in the order its lock serialises them.\<close>

datatype incoming = InSteer message | InFollowUp message

fun accept :: "incoming \<Rightarrow> agent_queues \<Rightarrow> agent_queues" where
  "accept (InSteer m) a = snd (Steer m a)"
| "accept (InFollowUp m) a = snd (FollowUp m a)"

definition accept_all :: "incoming list \<Rightarrow> agent_queues \<Rightarrow> agent_queues" where
  "accept_all xs a = fold accept xs a"

abbreviation steer_msgs :: "incoming list \<Rightarrow> message list" where
  "steer_msgs xs \<equiv> List.map_filter (\<lambda>x. case x of InSteer m \<Rightarrow> Some m | _ \<Rightarrow> None) xs"

abbreviation follow_msgs :: "incoming list \<Rightarrow> message list" where
  "follow_msgs xs \<equiv> List.map_filter (\<lambda>x. case x of InFollowUp m \<Rightarrow> Some m | _ \<Rightarrow> None) xs"

lemma accept_all_open:
  "accepting a \<Longrightarrow>
    q_messages (steering (accept_all xs a)) = q_messages (steering a) @ steer_msgs xs \<and>
    q_messages (followUps (accept_all xs a)) = q_messages (followUps a) @ follow_msgs xs \<and>
    accepting (accept_all xs a)"
proof (induction xs arbitrary: a)
  case (Cons x xs)
  have "accepting (accept x a)" using Cons.prems by (cases x) (simp_all add: queue_defs)
  from Cons.IH [OF this] Cons.prems show ?case
    by (cases x) (simp_all add: queue_defs accept_all_def List.map_filter_simps)
qed (simp add: accept_all_def List.map_filter_simps)

lemma accept_closed: "\<not> accepting a \<Longrightarrow> accept x a = a"
  by (cases x) (simp_all add: queue_defs)

lemma accept_all_closed: "\<not> accepting a \<Longrightarrow> accept_all xs a = a"
  by (induction xs) (simp_all add: accept_all_def accept_closed)

text \<open>
  The final check of the loop: it finds nothing only when both queues are empty, and from that
  moment on no message is accepted, so none can be accepted and then never delivered.
\<close>

lemma nextQueued_cases:
  "nextQueued mode a = ((msgs, o'), a') \<Longrightarrow>
    (msgs \<noteq> [] \<and> o' = Some FromSteering \<and> msgs = q_messages (steering a)
       \<and> q_messages (steering a') = [] \<and> followUps a' = followUps a \<and> accepting a' = accepting a)
    \<or> (msgs \<noteq> [] \<and> o' = Some FromFollowUps \<and> q_messages (steering a) = []
       \<and> q_messages (steering a') = []
       \<and> msgs @ q_messages (followUps a') = q_messages (followUps a) \<and> accepting a' = accepting a)
    \<or> (msgs = [] \<and> o' = None \<and> q_messages (steering a) = [] \<and> q_messages (followUps a) = []
       \<and> \<not> accepting a' \<and> q_messages (steering a') = [] \<and> q_messages (followUps a') = [])"
  by (auto simp: queue_defs Let_def split: if_splits prod.splits)

end
