(* ===== verification/Context.thy ===== *)
theory Context
  imports Sampling Tool_Registry Conversation
begin

text \<open>
  \<^verbatim>\<open>internal/agent/context.go\<close> and \<^verbatim>\<open>prompt.go\<close>: how a model request is assembled from the prompt
  sections, the tool schemas and the conversation, and how its size is estimated. The JSON text of
  a message and of a tool definition, whose length the estimate uses, is a parameter: the two
  encoders of \<open>encoders\<close>, \<^const>\<open>None\<close> where \<^verbatim>\<open>json.Marshal\<close> fails.
\<close>

section \<open>Estimates\<close>

definition EstimateTokens :: "string \<Rightarrow> int" where
  "EstimateTokens text = go_div (int (length text) + 4 - 1) 4"

definition ImageTokens :: "int \<Rightarrow> int \<Rightarrow> int" where
  "ImageTokens w h =
    (let (w, h) = (if w \<le> 0 \<or> h \<le> 0 then (1920, 1080) else (w, h)) in
     go_div (w * h + 750 - 1) 750)"

record encoders =
  enc_message :: "message \<Rightarrow> string option"
  enc_tool_def :: "tool_def \<Rightarrow> string option"

definition ToolTokens :: "encoders \<Rightarrow> tool_def \<Rightarrow> int" where
  "ToolTokens enc d =
    (case enc_tool_def enc d of
       None \<Rightarrow> EstimateTokens (td_name d @ td_description d @ td_schema d)
     | Some data \<Rightarrow> EstimateTokens data)"

definition messageTokens :: "encoders \<Rightarrow> message \<Rightarrow> int" where
  "messageTokens enc m =
    (let images = m_images m;
         m = m\<lparr>m_images := []\<rparr>;
         tokens = sum_list (map (\<lambda>img. ImageTokens (im_width img) (im_height img)) images) in
     case enc_message enc m of
       None \<Rightarrow> tokens + EstimateTokens (m_content m @ m_reasoning m)
     | Some data \<Rightarrow> tokens + EstimateTokens data)"

section \<open>Sections, schemas, parameters\<close>

datatype section_kind = SectionBase | SectionContextFiles | SectionInstructions

record context_file =
  cf_path :: string
  cf_text :: string
  cf_tokens :: int

record prompt_section =
  s_kind :: section_kind
  s_text :: string
  s_tokens :: int
  s_files :: "context_file list"

definition newSection :: "section_kind \<Rightarrow> string \<Rightarrow> prompt_section" where
  "newSection kind text =
     \<lparr>s_kind = kind, s_text = text, s_tokens = EstimateTokens text, s_files = []\<rparr>"

datatype tool_source = ToolBuiltin | ToolMCP

definition sourceOf :: "string \<Rightarrow> tool_source" where
  "sourceOf name = (if prefix ''mcp_'' name then ToolMCP else ToolBuiltin)"

record tool_schema =
  ts_def :: tool_def
  ts_source :: tool_source
  ts_tokens :: int

record parameters =
  p_model :: string
  p_sampling :: sampling
  p_thinking_switch :: string
  p_preserve_thinking :: bool
  p_image_input :: bool

record model_context =
  x_sections :: "prompt_section list"
  x_tools :: "tool_schema list"
  x_messages :: "message list"
  x_message_tokens :: int
  x_message_sizes :: "int list"
  x_parameters :: parameters

record request =
  r_model :: string
  r_system :: string
  r_messages :: "message list"
  r_tools :: "tool_def list"
  r_sampling :: sampling
  r_thinking_switch :: string
  r_preserve_thinking :: bool

definition context_System :: "model_context \<Rightarrow> string" where
  "context_System c = join_str (nl @ nl) (map s_text (x_sections c))"

definition context_Request :: "model_context \<Rightarrow> request" where
  "context_Request c =
    \<lparr>r_model = p_model (x_parameters c),
     r_system = context_System c,
     r_messages = x_messages c,
     r_tools = map ts_def (x_tools c),
     r_sampling = p_sampling (x_parameters c),
     r_thinking_switch = p_thinking_switch (x_parameters c),
     r_preserve_thinking = p_preserve_thinking (x_parameters c)\<rparr>"

section \<open>Messages as sent\<close>

definition withoutImages :: "message \<Rightarrow> message" where
  "withoutImages m =
    (if m_images m = [] then m
     else
       let note =
         (if length (m_images m) > 1
          then ''['' @ itoa (int (length (m_images m))) @ '' images omitted: the model in use does not accept images]''
          else ''[1 image omitted: the model in use does not accept images]'') in
       m\<lparr>m_images := [],
         m_content := (if m_content m = [] then note else m_content m @ nl @ nl @ note)\<rparr>)"

definition prepare :: "parameters \<Rightarrow> message \<Rightarrow> message" where
  "prepare p m =
    (let m = m\<lparr>m_metrics := None\<rparr>;
         m = (if \<not> p_preserve_thinking p then m\<lparr>m_reasoning := []\<rparr> else m) in
     if \<not> p_image_input p then withoutImages m else m)"

fun with_loop :: "encoders \<Rightarrow> message list \<Rightarrow> model_context \<Rightarrow> model_context" where
  "with_loop enc [] c = c"
| "with_loop enc (m # ms) c =
    (let m' = prepare (x_parameters c) m;
         size = messageTokens enc m' in
     with_loop enc ms
       (c\<lparr>x_messages := x_messages c @ [m'],
          x_message_sizes := x_message_sizes c @ [size],
          x_message_tokens := x_message_tokens c + size\<rparr>))"

definition WithMessages :: "encoders \<Rightarrow> message list \<Rightarrow> model_context \<Rightarrow> model_context" where
  "WithMessages enc msgs c =
     with_loop enc msgs (c\<lparr>x_messages := [], x_message_sizes := [], x_message_tokens := 0\<rparr>)"

section \<open>The options of an agent\<close>

record compaction_prompts =
  cp_summary :: string
  cp_update :: string
  cp_turn_prefix :: string

record compaction_settings =
  cs_auto :: bool
  cs_reserve_tokens :: int
  cs_keep_recent_tokens :: int
  cs_prompts :: compaction_prompts
  cs_fallback_effort :: string

record agent_options =
  o_model :: string
  o_context_window :: int
  o_compaction :: compaction_settings
  o_sampling :: sampling
  o_thinking_switch :: string
  o_preserve_thinking :: bool
  o_image_input :: bool
  o_base_prompt :: "string option"
  o_skip_context_files :: bool
  o_instructions :: string
  o_queue :: "queue_mode option"
  o_max_retries :: int
  o_retry_backoff :: int
  o_has_executor :: bool
  o_has_store :: bool
  o_has_recorder :: bool
  o_tools :: "registry option"

text \<open>\<^verbatim>\<open>New\<close> fills in what the caller left at its zero value.\<close>

definition agent_New :: "agent_options \<Rightarrow> agent_options" where
  "agent_New opts =
    (let opts = (if o_queue opts = None then opts\<lparr>o_queue := Some QueueOneAtATime\<rparr> else opts);
         opts = (if o_max_retries opts = 0 then opts\<lparr>o_max_retries := 3\<rparr> else opts) in
     if o_retry_backoff opts \<le> 0 then opts\<lparr>o_retry_backoff := 500000000\<rparr> else opts)"

definition agent_base :: "encoders \<Rightarrow> agent_options \<Rightarrow> prompt_section list \<Rightarrow> model_context" where
  "agent_base enc opts prompt =
    \<lparr>x_sections = prompt,
     x_tools =
       (case o_tools opts of
          None \<Rightarrow> []
        | Some r \<Rightarrow>
            map (\<lambda>d. \<lparr>ts_def = d, ts_source = sourceOf (td_name d), ts_tokens = ToolTokens enc d\<rparr>)
              (Schemas r)),
     x_messages = [], x_message_tokens = 0, x_message_sizes = [],
     x_parameters =
       \<lparr>p_model = o_model opts, p_sampling = o_sampling opts,
        p_thinking_switch = o_thinking_switch opts,
        p_preserve_thinking = o_preserve_thinking opts,
        p_image_input = o_image_input opts\<rparr>\<rparr>"

definition assemble :: "encoders \<Rightarrow> agent_options \<Rightarrow> conversation \<Rightarrow> prompt_section list \<Rightarrow> model_context" where
  "assemble enc opts conv prompt = WithMessages enc conv (agent_base enc opts prompt)"

section \<open>The system prompt\<close>

record found_file =
  ff_path :: string
  ff_content :: string

text \<open>
  \<^verbatim>\<open>Agent.prompt\<close>: the built-in base prompt of each kind, what \<^verbatim>\<open>contextfile.Discover\<close> found (only
  asked with a workspace) and the section \<^verbatim>\<open>contextfile.Section\<close> renders of it are arguments.
\<close>

definition agent_prompt ::
  "string \<Rightarrow> string \<Rightarrow> (found_file list \<Rightarrow> string) \<Rightarrow> agent_options \<Rightarrow> (err + found_file list)
    \<Rightarrow> err + prompt_section list" where
  "agent_prompt workspacePrompt chatPrompt render opts discovered =
    (let base = (if o_has_executor opts then workspacePrompt else chatPrompt);
         base = (case o_base_prompt opts of Some p \<Rightarrow> p | None \<Rightarrow> base);
         text = trim_space base;
         sections = (if text \<noteq> [] then [newSection SectionBase text] else []);
         finish = (\<lambda>sections.
           let text = trim_space (o_instructions opts) in
           if text \<noteq> [] then sections @ [newSection SectionInstructions text] else sections) in
     if o_has_executor opts \<and> \<not> o_skip_context_files opts then
       (case discovered of
          Inl e \<Rightarrow> Inl e
        | Inr files \<Rightarrow>
            let text = render files in
            Inr (finish
              (if text \<noteq> [] then
                 sections @
                 [(newSection SectionContextFiles text)
                   \<lparr>s_files := map (\<lambda>f. \<lparr>cf_path = ff_path f, cf_text = ff_content f,
                      cf_tokens = EstimateTokens (ff_content f)\<rparr>) files\<rparr>]
               else sections)))
     else Inr (finish sections))"

section \<open>What assembling does\<close>

lemma EstimateTokens_bounds:
  "4 * EstimateTokens text \<ge> int (length text) \<and> 4 * EstimateTokens text < int (length text) + 4"
  by (simp add: EstimateTokens_def go_div_nonneg) presburger

lemma EstimateTokens_nonneg: "0 \<le> EstimateTokens text"
  by (simp add: EstimateTokens_def go_div_nonneg)

lemma ImageTokens_pos: "0 < ImageTokens w h"
proof (cases "w \<le> 0 \<or> h \<le> 0")
  case True
  then show ?thesis by (auto simp: ImageTokens_def go_div_def)
next
  case False
  then have "1 \<le> w * h" using mult_mono [of 1 w 1 h] by simp
  then have "1 \<le> (w * h + 749) div 750" using zdiv_mono1 [of 750 "w * h + 749" 750] by simp
  then show ?thesis using False \<open>1 \<le> w * h\<close> by (simp add: ImageTokens_def go_div_nonneg)
qed

lemma messageTokens_nonneg: "0 \<le> messageTokens enc m"
proof -
  have "0 \<le> sum_list (map (\<lambda>img. ImageTokens (im_width img) (im_height img)) xs)" for xs
    by (rule sum_list_nonneg) (auto intro: less_imp_le ImageTokens_pos)
  then show ?thesis
    by (auto simp: messageTokens_def Let_def EstimateTokens_nonneg intro!: add_nonneg_nonneg split: option.splits)
qed

lemma with_loop_eq:
  "with_loop enc ms c =
    c\<lparr>x_messages := x_messages c @ map (prepare (x_parameters c)) ms,
      x_message_sizes := x_message_sizes c @ map (\<lambda>m. messageTokens enc (prepare (x_parameters c) m)) ms,
      x_message_tokens := x_message_tokens c
        + sum_list (map (\<lambda>m. messageTokens enc (prepare (x_parameters c) m)) ms)\<rparr>"
  by (induction ms arbitrary: c) (simp_all add: Let_def)

lemma WithMessages_eq:
  "WithMessages enc ms c =
    c\<lparr>x_messages := map (prepare (x_parameters c)) ms,
      x_message_sizes := map (\<lambda>m. messageTokens enc (prepare (x_parameters c) m)) ms,
      x_message_tokens := sum_list (map (\<lambda>m. messageTokens enc (prepare (x_parameters c) m)) ms)\<rparr>"
  by (simp add: WithMessages_def with_loop_eq)

lemma prepare_fields [simp]:
  "m_role (prepare p m) = m_role m" "m_tool_calls (prepare p m) = m_tool_calls m"
  "m_tool_call_id (prepare p m) = m_tool_call_id m" "m_metrics (prepare p m) = None"
  by (simp_all add: prepare_def withoutImages_def Let_def)

lemma length_sizes [simp]: "length (x_message_sizes (WithMessages enc ms c)) = length ms"
  by (simp add: WithMessages_eq)

lemma WithMessages_parameters [simp]:
  "x_parameters (WithMessages enc ms c) = x_parameters c"
  "x_sections (WithMessages enc ms c) = x_sections c"
  "x_tools (WithMessages enc ms c) = x_tools c"
  by (simp_all add: WithMessages_eq)

lemma prepare_no_images: "\<not> p_image_input p \<Longrightarrow> m_images (prepare p m) = []"
  by (simp add: prepare_def withoutImages_def Let_def)

lemma prepare_no_reasoning: "\<not> p_preserve_thinking p \<Longrightarrow> m_reasoning (prepare p m) = []"
  by (simp add: prepare_def withoutImages_def Let_def)

end
