(* ===== verification/Compaction.thy ===== *)
theory Compaction
  imports Context
begin

text \<open>
  \<^verbatim>\<open>internal/agent/compaction.go\<close>, the part that calls no model: the budgets, the place where a
  conversation is cut, the context a compaction leaves, and the arithmetic of the context window.
  An index of the source is a \<^typ>\<open>nat\<close>, and its -1 is \<^const>\<open>None\<close>. \<^verbatim>\<open>planCompaction\<close> is only called
  with as many sizes as messages and at most that many stored messages; the lemmas say so.
\<close>

section \<open>Budgets\<close>

definition DefaultReserveTokens :: int where
  "DefaultReserveTokens = 16384"

definition DefaultKeepRecentTokens :: int where
  "DefaultKeepRecentTokens = 20000"

definition scaled :: "int \<Rightarrow> int \<Rightarrow> int \<Rightarrow> int" where
  "scaled setting def window =
    (let setting = (if setting \<le> 0 then def else setting) in
     if window > 0 then min setting (go_div window 4) else setting)"

definition reserveTokens :: "compaction_settings \<Rightarrow> int \<Rightarrow> int" where
  "reserveTokens c window = scaled (cs_reserve_tokens c) DefaultReserveTokens window"

definition keepRecentTokens :: "compaction_settings \<Rightarrow> int \<Rightarrow> int" where
  "keepRecentTokens c window = scaled (cs_keep_recent_tokens c) DefaultKeepRecentTokens window"

definition shouldCompact :: "agent_options \<Rightarrow> int \<Rightarrow> bool" where
  "shouldCompact opts tokens =
    (let window = o_context_window opts; c = o_compaction opts in
     cs_auto c \<and> window > 0 \<and> tokens > window - reserveTokens c window)"

section \<open>Summaries\<close>

record compaction =
  c_summary :: string
  c_kept :: int
  c_tokens_before :: int
  c_tokens_after :: int
  c_reason :: string
  c_usage :: usage

definition summaryPrefix :: string where
  "summaryPrefix =
     ''The conversation history before this point was compacted into the following summary:''
       @ nl @ nl @ ''<summary>'' @ nl"

definition summarySuffix :: string where
  "summarySuffix = nl @ ''</summary>''"

definition SummaryMessage :: "string \<Rightarrow> message" where
  "SummaryMessage summary = (UserMessage (summaryPrefix @ summary @ summarySuffix))\<lparr>m_summary := True\<rparr>"

definition summaryText :: "message \<Rightarrow> string" where
  "summaryText m = trim_suffix summarySuffix (trim_prefix summaryPrefix (m_content m))"

definition Compacted :: "message list \<Rightarrow> compaction \<Rightarrow> message list" where
  "Compacted before c =
    (let kept = nat (min (max (c_kept c) 0) (int (length before))) in
     SummaryMessage (c_summary c)
       # map (\<lambda>m. m\<lparr>m_metrics := None\<rparr>) (drop (length before - kept) before))"

section \<open>Where to cut\<close>

record compaction_plan =
  pl_start :: nat
  pl_first :: nat
  pl_turn_start :: "nat option"
  pl_stored :: nat

definition plan_previous :: "compaction_plan \<Rightarrow> bool" where
  "plan_previous p \<longleftrightarrow> pl_start p = 1"

definition plan_split :: "compaction_plan \<Rightarrow> bool" where
  "plan_split p \<longleftrightarrow> pl_turn_start p \<noteq> None"

definition historyEnd :: "compaction_plan \<Rightarrow> nat" where
  "historyEnd p = (case pl_turn_start p of Some t \<Rightarrow> t | None \<Rightarrow> pl_first p)"

text \<open>
  The two loops that walk back: \<open>reach_back n acc\<close> is the loop over \<open>i = n - 1, ..., start\<close> that
  stops where \<open>acc\<close> reaches \<open>keep\<close>; \<open>turn_back n\<close> looks for the user message among
  \<open>n - 1, ..., start\<close>.
\<close>

fun reach_back :: "int list \<Rightarrow> int \<Rightarrow> nat \<Rightarrow> nat \<Rightarrow> int \<Rightarrow> nat option" where
  "reach_back sizes keep start 0 acc = None"
| "reach_back sizes keep start (Suc i) acc =
    (if i < start then None
     else
       let acc = acc + sizes ! i in
       if acc < keep then reach_back sizes keep start i acc else Some i)"

fun turn_back :: "message list \<Rightarrow> nat \<Rightarrow> nat \<Rightarrow> nat option" where
  "turn_back msgs start 0 = None"
| "turn_back msgs start (Suc i) =
    (if i < start then None
     else if m_role (msgs ! i) = RoleUser then Some i
     else turn_back msgs start i)"

definition plan_cuts :: "message list \<Rightarrow> nat \<Rightarrow> nat \<Rightarrow> nat list" where
  "plan_cuts msgs start stored = filter (\<lambda>i. m_role (msgs ! i) \<noteq> RoleTool) [start..<stored]"

definition planCompaction ::
  "message list \<Rightarrow> int list \<Rightarrow> nat \<Rightarrow> int \<Rightarrow> compaction_plan \<times> bool" where
  "planCompaction msgs sizes stored keep =
    (let start = (if msgs \<noteq> [] \<and> m_summary (hd msgs) then 1 else 0);
         p = \<lparr>pl_start = start, pl_first = 0, pl_turn_start = None, pl_stored = stored\<rparr>;
         cuts = plan_cuts msgs start stored in
     if cuts = [] then (p, False)
     else
       let first =
             (case reach_back sizes keep start stored 0 of
                None \<Rightarrow> hd cuts
              | Some i \<Rightarrow>
                  (case List.find (\<lambda>c. c \<ge> i) cuts of Some c \<Rightarrow> c | None \<Rightarrow> last cuts));
           turnStart =
             (if m_role (msgs ! first) \<noteq> RoleUser then turn_back msgs start (Suc first) else None);
           p = p\<lparr>pl_first := first, pl_turn_start := turnStart\<rparr> in
       (p, plan_split p \<or> first > start))"

definition Compactable :: "encoders \<Rightarrow> agent_options \<Rightarrow> conversation \<Rightarrow> bool" where
  "Compactable enc opts conv =
    (let c = WithMessages enc conv (agent_base enc opts []) in
     snd (planCompaction conv (x_message_sizes c) (length conv)
       (keepRecentTokens (o_compaction opts) (o_context_window opts))))"

section \<open>The size of a context\<close>

definition measured :: "message \<Rightarrow> int" where
  "measured m =
    (case m_metrics m of
       Some k \<Rightarrow>
         if m_role m \<noteq> RoleAssistant then 0
         else if u_total (mm_context k) = 0
              then u_input (mm_context k) + u_output (mm_context k)
              else u_total (mm_context k)
     | None \<Rightarrow> 0)"

fun measured_back :: "message list \<Rightarrow> nat \<Rightarrow> int \<times> nat option" where
  "measured_back msgs 0 = (0, None)"
| "measured_back msgs (Suc i) =
    (let tokens = measured (msgs ! i) in
     if tokens > 0 then (tokens, Some i) else measured_back msgs i)"

definition lastMeasured :: "message list \<Rightarrow> int \<times> nat option" where
  "lastMeasured msgs = measured_back msgs (length msgs)"

definition estimateContext :: "model_context \<Rightarrow> message list \<Rightarrow> int" where
  "estimateContext c msgs =
    (case lastMeasured msgs of
       (tokens, None) \<Rightarrow>
         tokens + sum_list (map s_tokens (x_sections c)) + sum_list (map ts_tokens (x_tools c))
           + sum_list (x_message_sizes c)
     | (tokens, Some i) \<Rightarrow> tokens + sum_list (drop (Suc i) (x_message_sizes c)))"

definition fit :: "model_context \<Rightarrow> int \<Rightarrow> int \<Rightarrow> err + model_context" where
  "fit c tokens window =
    (if window \<le> 0 then Inr c
     else if tokens \<ge> window then
       Inl (ErrText (''call model: the request needs about '' @ itoa tokens
         @ '' tokens, which does not fit the configured window of '' @ itoa window))
     else
       (case MaxOutput (p_sampling (x_parameters c)) of
          Some m \<Rightarrow>
            if tokens + m > window then
              Inr (c\<lparr>x_parameters := (x_parameters c)
                \<lparr>p_sampling := (p_sampling (x_parameters c))\<lparr>MaxOutput := Some (window - tokens)\<rparr>\<rparr>\<rparr>)
            else Inr c
        | None \<Rightarrow> Inr c))"

section \<open>Budgets leave room\<close>

lemma scaled_bounds:
  "0 < d \<Longrightarrow> 0 \<le> scaled s d window"
  "0 < window \<Longrightarrow> 4 * scaled s d window \<le> window"
  by (auto simp: scaled_def Let_def go_div_nonneg min_def)

text \<open>The reserve and the kept messages together never fill more than half of the window.\<close>

lemma reserve_keep_half:
  "0 < window \<Longrightarrow> 2 * (reserveTokens c window + keepRecentTokens c window) \<le> window"
  using scaled_bounds(2) [of window "cs_reserve_tokens c" DefaultReserveTokens]
    scaled_bounds(2) [of window "cs_keep_recent_tokens c" DefaultKeepRecentTokens]
  by (simp add: reserveTokens_def keepRecentTokens_def)

section \<open>Summaries and kept messages\<close>

lemma summaryText_SummaryMessage: "summaryText (SummaryMessage s) = s"
  by (simp add: summaryText_def SummaryMessage_def UserMessage_def)

lemma SummaryMessage_fields [simp]:
  "m_role (SummaryMessage s) = RoleUser" "m_summary (SummaryMessage s)"
  "m_metrics (SummaryMessage s) = None" "m_tool_calls (SummaryMessage s) = []"
  "m_images (SummaryMessage s) = []" "m_tool_call_id (SummaryMessage s) = []"
  "m_content (SummaryMessage s) = summaryPrefix @ s @ summarySuffix"
  "m_reasoning (SummaryMessage s) = []" "m_is_error (SummaryMessage s) = False"
  by (simp_all add: SummaryMessage_def message_defs)

lemma length_Compacted:
  "0 \<le> c_kept c \<Longrightarrow> c_kept c \<le> int (length before) \<Longrightarrow> int (length (Compacted before c)) = c_kept c + 1"
  by (simp add: Compacted_def Let_def min_def)

lemma Compacted_kept:
  assumes "n \<le> length before" "c_kept c = int (length before - n)"
  shows "Compacted before c = SummaryMessage (c_summary c) # map (\<lambda>m. m\<lparr>m_metrics := None\<rparr>) (drop n before)"
proof -
  have "length before - nat (min (max (c_kept c) 0) (int (length before))) = n"
    using assms by simp
  then show ?thesis by (simp add: Compacted_def Let_def)
qed

lemma Compacted_unmeasured: "m \<in> set (Compacted before c) \<Longrightarrow> m_metrics m = None"
  by (auto simp: Compacted_def Let_def)

lemma measured_back_spec:
  "measured_back msgs n = (t, r) \<Longrightarrow>
    (case r of
       None \<Rightarrow> t = 0 \<and> (\<forall>i < n. measured (msgs ! i) \<le> 0)
     | Some i \<Rightarrow> i < n \<and> t = measured (msgs ! i) \<and> t > 0 \<and> (\<forall>j. i < j \<and> j < n \<longrightarrow> measured (msgs ! j) \<le> 0))"
proof (induction n arbitrary: t r)
  case (Suc n)
  then show ?case
    by (cases "measured (msgs ! n) > 0")
      (auto simp: Let_def less_Suc_eq not_less split: option.splits)
qed (simp split: option.splits)

lemma lastMeasured_unmeasured:
  assumes "\<And>m. m \<in> set msgs \<Longrightarrow> m_metrics m = None"
  shows "lastMeasured msgs = (0, None)"
proof -
  have "n \<le> length msgs \<Longrightarrow> measured_back msgs n = (0, None)" for n
    using assms by (induction n) (auto simp: measured_def Let_def)
  then show ?thesis by (simp add: lastMeasured_def)
qed

text \<open>
  After a compaction no message carries a measurement, so the next estimate counts the whole
  request instead of trusting a call made with the larger context.
\<close>

lemma estimate_after_compaction:
  "estimateContext c (Compacted before k) =
    sum_list (map s_tokens (x_sections c)) + sum_list (map ts_tokens (x_tools c))
      + sum_list (x_message_sizes c)"
  using lastMeasured_unmeasured [of "Compacted before k", OF Compacted_unmeasured]
  by (simp add: estimateContext_def)

section \<open>The cut\<close>

lemma reach_back_Some:
  assumes "reach_back sizes keep start n acc = Some i"
    and "n \<le> length sizes" "acc < keep \<or> n = length sizes"
  shows "start \<le> i" "i < n" "acc + sum_list (take (n - i) (drop i sizes)) \<ge> keep"
    and "i < j \<Longrightarrow> j < n \<Longrightarrow> acc + sum_list (take (n - j) (drop j sizes)) < keep"
proof -
  have *: "start \<le> i \<and> i < n \<and> acc + sum_list (take (n - i) (drop i sizes)) \<ge> keep
      \<and> (\<forall>j. i < j \<and> j < n \<longrightarrow> acc + sum_list (take (n - j) (drop j sizes)) < keep)"
    if "reach_back sizes keep start n acc = Some i" "n \<le> length sizes" for n acc
    using that
  proof (induction n arbitrary: acc)
    case (Suc n)
    have step: "sum_list (take (Suc n - j) (drop j sizes)) = sum_list (take (n - j) (drop j sizes)) + sizes ! n"
      if "j \<le> n" for j
      using Suc.prems(2) that by (simp add: Suc_diff_le take_Suc_conv_app_nth)
    show ?case
    proof (cases "acc + sizes ! n < keep")
      case True
      with Suc.prems have r: "reach_back sizes keep start n (acc + sizes ! n) = Some i"
        by (simp add: Let_def split: if_splits)
      from Suc.IH [OF this] Suc.prems(2) have IH: "start \<le> i" "i < n"
        "acc + sizes ! n + sum_list (take (n - i) (drop i sizes)) \<ge> keep"
        "\<forall>j. i < j \<and> j < n \<longrightarrow> acc + sizes ! n + sum_list (take (n - j) (drop j sizes)) < keep"
        by auto
      then show ?thesis using step step [of n] True by (auto simp: less_Suc_eq algebra_simps)
    next
      case False
      with Suc.prems have "i = n" "start \<le> n" by (simp_all add: Let_def split: if_splits)
      with False step [of n] show ?thesis by simp
    qed
  qed simp
  show "start \<le> i" "i < n" "acc + sum_list (take (n - i) (drop i sizes)) \<ge> keep"
    and "i < j \<Longrightarrow> j < n \<Longrightarrow> acc + sum_list (take (n - j) (drop j sizes)) < keep"
    using * [OF assms(1,2)] by auto
qed

lemma turn_back_Some:
  "turn_back msgs start n = Some t \<Longrightarrow>
    start \<le> t \<and> t < n \<and> m_role (msgs ! t) = RoleUser
    \<and> (\<forall>k. t < k \<and> k < n \<longrightarrow> m_role (msgs ! k) \<noteq> RoleUser)"
proof (induction n)
  case (Suc n)
  then show ?case by (auto split: if_splits simp: less_Suc_eq)
qed simp

lemma plan_cuts_iff:
  "c \<in> set (plan_cuts msgs start stored) \<longleftrightarrow> start \<le> c \<and> c < stored \<and> m_role (msgs ! c) \<noteq> RoleTool"
  by (auto simp: plan_cuts_def)

lemma plan_cuts_sorted: "sorted (plan_cuts msgs start stored)"
  by (simp add: plan_cuts_def sorted_wrt_filter)

lemma sorted_le_last: "sorted xs \<Longrightarrow> x \<in> set xs \<Longrightarrow> x \<le> last xs"
  by (induction xs) (auto simp: le_trans)

definition plan_first :: "message list \<Rightarrow> int list \<Rightarrow> nat \<Rightarrow> int \<Rightarrow> nat \<Rightarrow> nat" where
  "plan_first msgs sizes stored keep start =
    (let cuts = plan_cuts msgs start stored in
     case reach_back sizes keep start stored 0 of
       None \<Rightarrow> hd cuts
     | Some i \<Rightarrow> (case List.find (\<lambda>c. c \<ge> i) cuts of Some c \<Rightarrow> c | None \<Rightarrow> last cuts))"

lemma plan_first_in:
  "plan_cuts msgs start stored \<noteq> [] \<Longrightarrow>
    plan_first msgs sizes stored keep start \<in> set (plan_cuts msgs start stored)"
  by (auto simp: plan_first_def Let_def find_Some_iff split: option.splits)

lemma planCompaction_unfold:
  "planCompaction msgs sizes stored keep =
    (let start = (if msgs \<noteq> [] \<and> m_summary (hd msgs) then 1 else 0);
         first = plan_first msgs sizes stored keep start;
         turn = (if m_role (msgs ! first) \<noteq> RoleUser then turn_back msgs start (Suc first) else None) in
     if plan_cuts msgs start stored = []
     then (\<lparr>pl_start = start, pl_first = 0, pl_turn_start = None, pl_stored = stored\<rparr>, False)
     else (\<lparr>pl_start = start, pl_first = first, pl_turn_start = turn, pl_stored = stored\<rparr>,
           turn \<noteq> None \<or> start < first))"
  unfolding planCompaction_def plan_first_def Let_def plan_split_def by simp

lemma planCompaction_eq:
  assumes "planCompaction msgs sizes stored keep = (p, True)"
  shows "plan_cuts msgs (pl_start p) stored \<noteq> []"
    and "pl_start p = (if msgs \<noteq> [] \<and> m_summary (hd msgs) then 1 else 0)"
    and "pl_first p = plan_first msgs sizes stored keep (pl_start p)"
    and "pl_turn_start p = (if m_role (msgs ! pl_first p) \<noteq> RoleUser
           then turn_back msgs (pl_start p) (Suc (pl_first p)) else None)"
    and "pl_stored p = stored"
    and "plan_split p \<or> pl_start p < pl_first p"
  using assms unfolding planCompaction_unfold Let_def plan_split_def
  by (auto split: if_splits simp del: turn_back.simps)

lemma planCompaction_first:
  assumes "planCompaction msgs sizes stored keep = (p, True)"
  shows "pl_start p \<le> pl_first p" "pl_first p < stored" "m_role (msgs ! pl_first p) \<noteq> RoleTool"
  using plan_first_in [OF planCompaction_eq(1) [OF assms], of sizes keep]
  by (simp_all add: planCompaction_eq(3) [OF assms, symmetric] plan_cuts_iff)

lemma planCompaction_turn:
  assumes "planCompaction msgs sizes stored keep = (p, True)" "pl_turn_start p = Some t"
  shows "pl_start p \<le> t" "t < pl_first p" "m_role (msgs ! t) = RoleUser"
    and "t < k \<Longrightarrow> k \<le> pl_first p \<Longrightarrow> m_role (msgs ! k) \<noteq> RoleUser"
proof -
  from planCompaction_eq(4) [OF assms(1)] assms(2)
  have u: "m_role (msgs ! pl_first p) \<noteq> RoleUser"
    and t: "turn_back msgs (pl_start p) (Suc (pl_first p)) = Some t"
    by (auto split: if_splits)
  from turn_back_Some [OF t] show "pl_start p \<le> t" and "m_role (msgs ! t) = RoleUser"
    and "t < k \<Longrightarrow> k \<le> pl_first p \<Longrightarrow> m_role (msgs ! k) \<noteq> RoleUser" by auto
  from turn_back_Some [OF t] u show "t < pl_first p" by (cases "t = pl_first p") auto
qed

lemma planCompaction_progress:
  assumes "planCompaction msgs sizes stored keep = (p, True)"
  shows "pl_start p < pl_first p"
proof (cases "pl_turn_start p")
  case None
  then show ?thesis using planCompaction_eq(6) [OF assms] by (simp add: plan_split_def)
next
  case (Some t)
  then show ?thesis using planCompaction_turn [OF assms Some] by simp
qed

text \<open>How much stays: unless only tool results follow the cut, what follows it is below the budget.\<close>

lemma planCompaction_keep:
  assumes ok: "planCompaction msgs sizes stored keep = (p, True)"
    and len: "stored \<le> length sizes" and nonneg: "\<forall>s \<in> set sizes. 0 \<le> s" and keep: "0 < keep"
  shows "sum_list (take (stored - Suc (pl_first p)) (drop (Suc (pl_first p)) sizes)) < keep
    \<or> (\<forall>k. pl_first p < k \<and> k < stored \<longrightarrow> m_role (msgs ! k) = RoleTool)"
proof -
  let ?s = "pl_start p" and ?f = "pl_first p"
  let ?cuts = "plan_cuts msgs ?s stored"
  have f: "?f = plan_first msgs sizes stored keep ?s" by (rule planCompaction_eq(3) [OF ok])
  show ?thesis
  proof (cases "reach_back sizes keep ?s stored 0")
    case None
    have "n \<le> stored \<Longrightarrow> reach_back sizes keep s n t = None \<Longrightarrow> s < i \<or> s = i \<Longrightarrow> i < n \<Longrightarrow>
        t + sum_list (take (n - i) (drop i sizes)) < keep" for s n t i
    proof (induction n arbitrary: t)
      case (Suc n)
      have step: "sum_list (take (Suc n - i) (drop i sizes)) = sum_list (take (n - i) (drop i sizes)) + sizes ! n"
        using Suc.prems len by (simp add: Suc_diff_le take_Suc_conv_app_nth)
      from Suc.prems have lt: "t + sizes ! n < keep" and r: "reach_back sizes keep s n (t + sizes ! n) = None"
        by (auto simp: Let_def split: if_splits)
      show ?case
      proof (cases "i < n")
        case True
        with Suc.IH [OF _ r] Suc.prems step show ?thesis by (simp add: algebra_simps)
      next
        case False
        with Suc.prems lt step show ?thesis by simp
      qed
    qed simp
    from this [OF order_refl None, of "Suc ?f"] planCompaction_first [OF ok]
    have "Suc ?f < stored \<Longrightarrow> ?thesis" by simp
    moreover have "\<not> Suc ?f < stored \<Longrightarrow> ?thesis" using planCompaction_first(2) [OF ok] by auto
    ultimately show ?thesis by blast
  next
    case (Some i)
    show ?thesis
    proof (cases "List.find (\<lambda>c. c \<ge> i) ?cuts")
      case None
      then have "?f = last ?cuts" using f Some by (simp add: plan_first_def Let_def)
      moreover have "c \<le> last ?cuts" if "c \<in> set ?cuts" for c
        by (rule sorted_le_last [OF plan_cuts_sorted that])
      ultimately have "\<forall>k. ?f < k \<and> k < stored \<longrightarrow> m_role (msgs ! k) = RoleTool"
        using planCompaction_first(1) [OF ok] by (metis le_trans less_imp_le not_le plan_cuts_iff)
      then show ?thesis ..
    next
      case (Some c)
      then have "?f = c" using f \<open>reach_back sizes keep ?s stored 0 = Some i\<close>
        by (simp add: plan_first_def Let_def)
      moreover have "i \<le> c" using Some by (auto simp: find_Some_iff)
      ultimately have "Suc ?f < stored \<Longrightarrow> sum_list (take (stored - Suc ?f) (drop (Suc ?f) sizes)) < keep"
        using reach_back_Some(4) [OF \<open>reach_back sizes keep ?s stored 0 = Some i\<close> len, of "Suc ?f"] keep
        by simp
      moreover have "\<not> Suc ?f < stored \<Longrightarrow> ?thesis" using planCompaction_first(2) [OF ok] by auto
      ultimately show ?thesis by blast
    qed
  qed
qed

section \<open>The window\<close>

lemma fit_spec:
  assumes "fit c tokens window = Inr c'" "0 < window"
  shows "tokens < window"
    and "MaxOutput (p_sampling (x_parameters c')) = Some m \<Longrightarrow> tokens + m \<le> window"
    and "x_messages c' = x_messages c" "x_sections c' = x_sections c" "x_tools c' = x_tools c"
  using assms by (auto simp: fit_def split: if_splits option.splits)

lemma fit_same [simp]:
  assumes "fit c tokens window = Inr c'"
  shows "x_messages c' = x_messages c" "x_sections c' = x_sections c" "x_tools c' = x_tools c"
  using assms by (auto simp: fit_def split: if_splits option.splits)

end
