(* ===== verification/Transcript.thy ===== *)
theory Transcript
  imports Compaction
begin

text \<open>
  The text half of \<^verbatim>\<open>internal/agent/summary.go\<close>: the built-in prompts, the choice between them and
  the user's, and the transcript form of a summary request, in which the conversation is serialized
  as text. \<^verbatim>\<open>callText\<close> reads the arguments of a tool call with Go's streaming JSON decoder; the
  decoder is modelled on the recogniser of \<^verbatim>\<open>json.Valid\<close>.
\<close>

section \<open>Prompts\<close>

definition SummaryPrompt :: string where
  \<open>SummaryPrompt = join_str nl
    [''The messages above are a conversation to summarize. Create a structured context checkpoint summary that another LLM will use to continue the work. Do not continue the conversation, answer questions in it, or call tools: reply with the summary alone, and write it directly rather than deliberating at length.'',
     [],
     ''Use this EXACT format:'',
     [],
     ''## Goal'',
     ''[What is the user trying to accomplish? Can be multiple items if the session covers different tasks.]'',
     [],
     ''## Constraints & Preferences'',
     ''- [Any constraints, preferences, or requirements mentioned by user]'',
     ''- [Or "(none)" if none were mentioned]'',
     [],
     ''## Progress'',
     ''### Done'',
     ''- [x] [Completed tasks/changes]'',
     [],
     ''### In Progress'',
     ''- [ ] [Current work]'',
     [],
     ''### Blocked'',
     ''- [Issues preventing progress, if any]'',
     [],
     ''## Key Decisions'',
     ''- **[Decision]**: [Brief rationale]'',
     [],
     ''## Next Steps'',
     ''1. [Ordered list of what should happen next]'',
     [],
     ''## Critical Context'',
     ''- [Any data, examples, or references needed to continue]'',
     ''- [Or "(none)" if not applicable]'',
     [],
     ''Keep each section concise. Preserve exact file paths, function names, and error messages.'']\<close>

definition UpdatePrompt :: string where
  \<open>UpdatePrompt = join_str nl
    [''The conversation above begins with an existing summary of earlier work, in <summary> tags; the messages after it are NEW. Update the existing summary with the new messages. Do not continue the conversation, answer questions in it, or call tools: reply with the updated summary alone, and write it directly rather than deliberating at length.'',
     [],
     ''RULES:'',
     ''- PRESERVE all existing information from the previous summary'',
     ''- ADD new progress, decisions, and context from the new messages'',
     ''- UPDATE the Progress section: move items from "In Progress" to "Done" when completed'',
     ''- UPDATE "Next Steps" based on what was accomplished'',
     ''- PRESERVE exact file paths, function names, and error messages'',
     ''- If something is no longer relevant, you may remove it'',
     [],
     ''Use this EXACT format:'',
     [],
     ''## Goal'',
     ''[Preserve existing goals, add new ones if the task expanded]'',
     [],
     ''## Constraints & Preferences'',
     ''- [Preserve existing, add new ones discovered]'',
     [],
     ''## Progress'',
     ''### Done'',
     ''- [x] [Include previously done items AND newly completed items]'',
     [],
     ''### In Progress'',
     ''- [ ] [Current work - update based on progress]'',
     [],
     ''### Blocked'',
     ''- [Current blockers - remove if resolved]'',
     [],
     ''## Key Decisions'',
     ''- **[Decision]**: [Brief rationale] (preserve all previous, add new)'',
     [],
     ''## Next Steps'',
     ''1. [Update based on current state]'',
     [],
     ''## Critical Context'',
     ''- [Preserve important context, add new if needed]'',
     [],
     ''Keep each section concise. Preserve exact file paths, function names, and error messages.'']\<close>

definition TurnPrefixPrompt :: string where
  \<open>TurnPrefixPrompt = join_str nl
    [''The most recent user request above began a turn that is too large to keep whole. The rest of that turn (the recent work) is retained; the part above, from that request on, is the PREFIX of the turn. Do not continue the conversation or call tools: reply with a summary of the prefix alone, as context for the retained suffix:'',
     [],
     ''## Original Request'',
     ''[What did the user ask for in this turn?]'',
     [],
     ''## Early Progress'',
     ''- [Key decisions and work done in the prefix]'',
     [],
     ''## Context for Suffix'',
     ''- [Information needed to understand the retained recent work]'',
     [],
     ''Be concise. Focus on what's needed to understand the kept suffix.'']\<close>

definition TranscriptSystemPrompt :: string where
  \<open>TranscriptSystemPrompt = join_str nl
    [''You are a context summarization assistant. Your task is to read a conversation between a user and an AI assistant, then produce a structured summary following the exact format specified.'',
     [],
     ''Do NOT continue the conversation. Do NOT respond to any questions in the conversation. ONLY output the structured summary.'']\<close>

definition splitTurnSeparator :: string where
  "splitTurnSeparator = nl @ nl @ ''---'' @ nl @ nl @ ''**Turn Context (split turn):**'' @ nl @ nl"

definition settings_prompts :: "compaction_settings \<Rightarrow> compaction_prompts" where
  "settings_prompts c =
    (let p = cs_prompts c;
         p = (if trim_space (cp_summary p) = [] then p\<lparr>cp_summary := SummaryPrompt\<rparr> else p);
         p = (if trim_space (cp_update p) = [] then p\<lparr>cp_update := UpdatePrompt\<rparr> else p) in
     if trim_space (cp_turn_prefix p) = [] then p\<lparr>cp_turn_prefix := TurnPrefixPrompt\<rparr> else p)"

section \<open>Tool calls as text\<close>

text \<open>The UTF-8 spelling of a code point, and what a JSON string literal stands for.\<close>

definition utf8_rune :: "nat \<Rightarrow> string" where
  "utf8_rune n =
    (if n < 0x80 then [byte n]
     else if n < 0x800 then [byte (0xC0 + n div 64), byte (0x80 + n mod 64)]
     else if 0xD800 \<le> n \<and> n < 0xE000 \<or> 0x110000 \<le> n then replacement
     else if n < 0x10000 then [byte (0xE0 + n div 4096), byte (0x80 + n div 64 mod 64), byte (0x80 + n mod 64)]
     else [byte (0xF0 + n div 262144), byte (0x80 + n div 4096 mod 64), byte (0x80 + n div 64 mod 64),
           byte (0x80 + n mod 64)])"

definition hex_val :: "char \<Rightarrow> nat" where
  "hex_val c =
    (if is_digit c then of_char c - 48
     else if between 0x61 0x66 c then of_char c - 87 else of_char c - 55)"

definition hex4 :: "string \<Rightarrow> nat option" where
  "hex4 s = (if length s \<ge> 4 \<and> list_all is_hex (take 4 s)
     then Some (foldl (\<lambda>n c. 16 * n + hex_val c) 0 (take 4 s)) else None)"

definition unescape :: "char \<Rightarrow> char" where
  "unescape e =
    (if e = CHR ''b'' then CHR 0x08 else if e = CHR ''f'' then CHR 0x0C
     else if e = CHR ''n'' then CHR 0x0A else if e = CHR ''r'' then CHR 0x0D
     else if e = CHR ''t'' then CHR 0x09 else e)"

function unquote :: "string \<Rightarrow> string" where
  "unquote [] = []"
| "unquote (c # s) =
    (if c = CHR 0x5C then
       (case s of
          [] \<Rightarrow> []
        | e # r \<Rightarrow>
            if e \<noteq> CHR ''u'' then unescape e # unquote r
            else
              (case hex4 r of
                 None \<Rightarrow> []
               | Some n \<Rightarrow>
                   (case (if 0xD800 \<le> n \<and> n < 0xDC00 \<and> take 2 (drop 4 r) = [CHR 0x5C, CHR ''u'']
                          then hex4 (drop 6 r) else None) of
                      Some m \<Rightarrow>
                        if 0xDC00 \<le> m \<and> m < 0xE000
                        then utf8_rune (0x10000 + (n - 0xD800) * 1024 + (m - 0xDC00)) @ unquote (drop 10 r)
                        else replacement @ unquote (drop 4 r)
                    | None \<Rightarrow> utf8_rune n @ unquote (drop 4 r))))
     else
       (case rune_len (c # s) of
          0 \<Rightarrow> replacement @ unquote s
        | Suc n \<Rightarrow> take (Suc n) (c # s) @ unquote (drop n s)))"
  by pat_completeness auto
termination by (relation "measure length") auto

text \<open>\<^verbatim>\<open>json.Compact\<close>: white space outside string literals is dropped.\<close>

fun json_compact :: "bool \<Rightarrow> string \<Rightarrow> string" where
  "json_compact in_str [] = []"
| "json_compact True (c # s) =
    (if c = CHR 0x5C then (case s of [] \<Rightarrow> [c] | e # r \<Rightarrow> c # e # json_compact True r)
     else c # json_compact (c \<noteq> CHR 0x22) s)"
| "json_compact False (c # s) =
    (if json_ws c then json_compact False s else c # json_compact (c = CHR 0x22) s)"

definition literal :: "string \<Rightarrow> string \<Rightarrow> string" where
  "literal before after = take (length before - length after) before"

text \<open>
  The members of an object, from behind its opening brace: \<open>None\<close> is a decoding error. The fuel is
  the length of the text, of which each member takes at least one byte.
\<close>

fun object_members :: "nat \<Rightarrow> string \<Rightarrow> (string \<times> string) list option" where
  "object_members 0 s = None"
| "object_members (Suc n) s =
    (case skip_ws s of
       [] \<Rightarrow> None
     | c # r \<Rightarrow>
         if c = CHR ''}'' then Some []
         else
           (case skip_ws (if c = CHR '','' then r else c # r) of
              [] \<Rightarrow> None
            | d # k \<Rightarrow>
                if d \<noteq> CHR 0x22 then None
                else
                  (case scan_string k of
                     None \<Rightarrow> None
                   | Some r1 \<Rightarrow>
                       (case skip_ws r1 of
                          [] \<Rightarrow> None
                        | e # r2 \<Rightarrow>
                            if e \<noteq> CHR '':'' then None
                            else
                              (case scan_value (Suc (2 * length r2)) 10000 r2 of
                                 None \<Rightarrow> None
                               | Some r3 \<Rightarrow>
                                   map_option (\<lambda>ms. (unquote (butlast (literal k r1)),
                                       json_compact False (literal r2 r3)) # ms)
                                     (object_members n r3))))))"

definition callText :: "tool_call \<Rightarrow> string" where
  "callText c =
    (let raw = (case fst (arguments_JSON (tc_arguments c)) of RawValue t \<Rightarrow> t | RawString t \<Rightarrow> json_quote t) in
     case skip_ws raw of
       [] \<Rightarrow> tc_name c @ ''('' @ raw @ '')''
     | b # r \<Rightarrow>
         if b \<noteq> CHR ''{'' then tc_name c @ ''('' @ raw @ '')''
         else
           (case object_members (Suc (length r)) r of
              None \<Rightarrow> tc_name c @ ''('' @ raw @ '')''
            | Some args \<Rightarrow>
                tc_name c @ ''('' @ join_str '', '' (map (\<lambda>(k, v). k @ ''='' @ v) args) @ '')''))"

section \<open>The transcript\<close>

definition truncateRunes :: "string \<Rightarrow> nat \<Rightarrow> string" where
  "truncateRunes s n =
    (if length (runes s) \<le> n then s
     else concat (take n (runes s)) @ nl @ nl @ ''[... '' @ itoa (int (length (runes s) - n))
       @ '' more characters truncated]'')"

definition transcriptToolResultRunes :: nat where
  "transcriptToolResultRunes = 2000"

definition transcript_parts :: "message \<Rightarrow> string list" where
  "transcript_parts m =
    (case m_role m of
       RoleUser \<Rightarrow>
         (if m_content m \<noteq> [] then [''[User]: '' @ m_content m] else [])
         @ (if length (m_images m) = 1 then [''[User attached an image]'']
            else if length (m_images m) > 1
                 then [''[User attached '' @ itoa (int (length (m_images m))) @ '' images]''] else [])
     | RoleAssistant \<Rightarrow>
         (if m_reasoning m \<noteq> [] then [''[Assistant thinking]: '' @ m_reasoning m] else [])
         @ (if m_content m \<noteq> [] then [''[Assistant]: '' @ m_content m] else [])
         @ (if m_tool_calls m \<noteq> []
            then [''[Assistant tool calls]: '' @ join_str ''; '' (map callText (m_tool_calls m))] else [])
     | RoleTool \<Rightarrow>
         (if m_content m \<noteq> []
          then [''[Tool result]: '' @ truncateRunes (m_content m) transcriptToolResultRunes] else [])
     | RoleOther _ \<Rightarrow> [])"

definition transcript :: "message list \<Rightarrow> string" where
  "transcript msgs = join_str (nl @ nl) (concat (map transcript_parts msgs))"

definition transcriptContext :: "encoders \<Rightarrow> model_context \<Rightarrow> message list \<Rightarrow> string \<Rightarrow> model_context" where
  "transcriptContext enc base msgs prompt =
    (let c = \<lparr>x_sections = [newSection SectionBase TranscriptSystemPrompt], x_tools = [],
              x_messages = [], x_message_tokens = 0, x_message_sizes = [],
              x_parameters = x_parameters base\<rparr>;
         content = ''<conversation>'' @ nl @ transcript msgs @ nl @ ''</conversation>'' @ nl @ nl @ prompt in
     WithMessages enc [UserMessage content] c)"

section \<open>Facts\<close>

lemma settings_prompts_set:
  "trim_space (cp_summary (cs_prompts c)) \<noteq> [] \<Longrightarrow> cp_summary (settings_prompts c) = cp_summary (cs_prompts c)"
  "trim_space (cp_update (cs_prompts c)) \<noteq> [] \<Longrightarrow> cp_update (settings_prompts c) = cp_update (cs_prompts c)"
  "trim_space (cp_turn_prefix (cs_prompts c)) \<noteq> [] \<Longrightarrow>
     cp_turn_prefix (settings_prompts c) = cp_turn_prefix (cs_prompts c)"
  by (simp_all add: settings_prompts_def Let_def)

lemma truncateRunes_short: "length (runes s) \<le> n \<Longrightarrow> truncateRunes s n = s"
  by (simp add: truncateRunes_def)

lemma transcriptContext_fields [simp]:
  "x_tools (transcriptContext enc base msgs prompt) = []"
  "x_parameters (transcriptContext enc base msgs prompt) = x_parameters base"
  "length (x_messages (transcriptContext enc base msgs prompt)) = 1"
  by (simp_all add: transcriptContext_def Let_def WithMessages_eq)

end
