(* ===== verification/Response.thy ===== *)
theory Response
  imports Transcript
begin

text \<open>
  \<^verbatim>\<open>internal/agent/response.go\<close>: what one model response measures, how a stream of events becomes a
  response, and the retry loop. This theory also fixes what the agent acts on: the state of a run
  (\<open>ast\<close>: the conversation, the queues, the world outside, the events emitted so far) and the
  operations of that outside world (the fields of \<open>agent\<close> that take and return a world): the
  provider, the store, the tools, the clock, the context's cancellation, and the messages other
  goroutines queue meanwhile. Nothing is assumed about them here.
\<close>

section \<open>Events an agent emits\<close>

record turn_report =
  tr_usage :: usage
  tr_context :: usage
  tr_generation_ms :: int
  tr_context_window :: int
  tr_timings :: "timings option"

datatype agent_event =
    EvTurnStart string string string string "image list"
  | EvMessageDelta string string
  | EvReasoningDelta string string
  | EvTurnProgress string turn_report
  | EvMessageReset string
  | EvCompactionStart string string int
  | EvCompactionEnd string string int int string int usage string
  | EvToolCall string string string string
  | EvToolResult string string string string bool string int
  | EvTurnEnd string string turn_report
  | EvRunError string string bool

text \<open>An item of a provider's response stream, with the fields its kind sets.\<close>

datatype stream_event =
    TextDelta string
  | ReasoningDelta string
  | ToolCallDelta
  | ToolCallEvent tool_call
  | UsageEvent usage timings
  | DoneEvent string
  | ErrorEvent err

section \<open>The agent and its surroundings\<close>

record 'w ast =
  conv :: conversation
  queues :: agent_queues
  world :: 'w
  events :: "agent_event list"

text \<open>
  \<open>a_stream\<close> gives the events of one response, each with the time it arrived, and the time the
  channel closed; \<open>a_sleep\<close> and \<open>a_ctx_err\<close> give the context's error, if it has one by then;
  \<open>a_append terminal m\<close> stores a message, on a context that no cancellation reaches when
  \<open>terminal\<close> is set; \<open>a_incoming\<close> gives what \<^verbatim>\<open>Steer\<close> and \<^verbatim>\<open>FollowUp\<close> were called with since the
  last time; \<open>a_quote\<close> is the \<^verbatim>\<open>%q\<close> of \<^verbatim>\<open>fmt\<close>, which depends on Unicode's table of printable
  characters; \<open>a_encodes\<close> says whether the payload of an event can be encoded. Times are in
  nanoseconds.
\<close>

record 'w agent =
  a_opts :: agent_options
  a_enc :: encoders
  a_session :: string
  a_workspace :: string
  a_base_prompts :: "string \<times> string"
  a_render :: "found_file list \<Rightarrow> string"
  a_quote :: "string \<Rightarrow> string"
  a_encodes :: "agent_event \<Rightarrow> bool"
  a_discover :: "'w \<Rightarrow> (err + found_file list) \<times> 'w"
  a_ctx_err :: "'w \<Rightarrow> err option \<times> 'w"
  a_stream :: "request \<Rightarrow> 'w \<Rightarrow> (err + (int \<times> stream_event) list \<times> int) \<times> 'w"
  a_sleep :: "int \<Rightarrow> 'w \<Rightarrow> err option \<times> 'w"
  a_append :: "bool \<Rightarrow> message \<Rightarrow> 'w \<Rightarrow> err option \<times> 'w"
  a_append_compaction :: "compaction \<Rightarrow> 'w \<Rightarrow> err option \<times> 'w"
  a_tool :: "string \<Rightarrow> tool \<Rightarrow> tool_call \<Rightarrow> 'w \<Rightarrow> (err + tool_result) \<times> 'w"
  a_record :: "string \<Rightarrow> model_context \<Rightarrow> usage \<Rightarrow> 'w \<Rightarrow> 'w"
  a_run_id :: "'w \<Rightarrow> string \<times> 'w"
  a_now :: "'w \<Rightarrow> int \<times> 'w"
  a_incoming :: "'w \<Rightarrow> incoming list \<times> 'w"

definition lift_world :: "('w \<Rightarrow> 'r \<times> 'w) \<Rightarrow> 'w ast \<Rightarrow> 'r \<times> 'w ast" where
  "lift_world f st = (let (r, w) = f (world st) in (r, st\<lparr>world := w\<rparr>))"

definition emit :: "'w agent \<Rightarrow> agent_event \<Rightarrow> 'w ast \<Rightarrow> 'w ast" where
  "emit a e st = (if \<not> a_encodes a e then st else st\<lparr>events := events st @ [e]\<rparr>)"

lemma lift_worldD:
  "lift_world f st = (r, st') \<Longrightarrow>
    f (world st) = (r, world st') \<and> conv st' = conv st \<and> queues st' = queues st \<and> events st' = events st"
  by (auto simp: lift_world_def Let_def split: prod.splits)

lemma emit_fields [simp]:
  "conv (emit a e st) = conv st" "queues (emit a e st) = queues st" "world (emit a e st) = world st"
  by (simp_all add: emit_def)

section \<open>What a turn measures\<close>

record generation =
  g_usage :: usage
  g_elapsed :: int
  g_context :: usage
  g_timings :: timings

definition no_generation :: generation where
  "no_generation = \<lparr>g_usage = no_usage, g_elapsed = 0, g_context = no_usage, g_timings = no_timings\<rparr>"

definition addUsage :: "usage \<Rightarrow> usage \<Rightarrow> usage" where
  "addUsage a b = \<lparr>u_input = u_input a + u_input b, u_output = u_output a + u_output b,
     u_total = u_total a + u_total b\<rparr>"

definition gen_add :: "usage \<Rightarrow> int \<Rightarrow> timings \<Rightarrow> generation \<Rightarrow> generation" where
  "gen_add u elapsed t g =
    (let g = g\<lparr>g_usage := \<lparr>u_input = u_input (g_usage g) + u_input u,
                           u_output = u_output (g_usage g) + u_output u,
                           u_total = u_total (g_usage g) + u_total u\<rparr>,
               g_elapsed := g_elapsed g + elapsed\<rparr>;
         g = (if u \<noteq> no_usage then g\<lparr>g_context := u\<rparr> else g) in
     if Known t then g\<lparr>g_timings := t\<rparr> else g)"

definition gen_reported :: "generation \<Rightarrow> timings option" where
  "gen_reported g = (if \<not> Known (g_timings g) then None else Some (g_timings g))"

definition withHarnessDecode :: "timings \<Rightarrow> usage \<Rightarrow> int \<Rightarrow> timings" where
  "withHarnessDecode t u elapsed =
    (if HasDecode t \<or> u_output u < 2 \<or> elapsed \<le> 0 then t
     else t\<lparr>t_decode_tokens := u_output u - 1,
            t_decode_ms := rat_of_int (go_div elapsed 1000) / 1000,
            t_source := TimedByHarness\<rparr>)"

definition elapsedSince :: "int option \<Rightarrow> int \<Rightarrow> int" where
  "elapsedSince start now = (case start of None \<Rightarrow> 0 | Some s \<Rightarrow> now - s)"

definition gen_report :: "'w agent \<Rightarrow> generation \<Rightarrow> turn_report" where
  "gen_report a g = \<lparr>tr_usage = g_usage g, tr_context = g_context g,
     tr_generation_ms = go_div (g_elapsed g) 1000000,
     tr_context_window = o_context_window (a_opts a), tr_timings = gen_reported g\<rparr>"

definition emitProgress ::
  "'w agent \<Rightarrow> string \<Rightarrow> generation \<Rightarrow> usage \<Rightarrow> timings \<Rightarrow> int option \<Rightarrow> int \<Rightarrow> 'w ast \<Rightarrow> 'w ast" where
  "emitProgress a runID gen u t started now st =
    (let elapsed = elapsedSince started now;
         tot = gen_add u elapsed (withHarnessDecode t u elapsed) gen in
     emit a (EvTurnProgress runID (gen_report a tot)) st)"

section \<open>One response\<close>

record response =
  rs_message :: message
  rs_stop :: string
  rs_usage :: usage

definition cutOff :: "string \<Rightarrow> bool" where
  "cutOff stop \<longleftrightarrow> stop = ''length'' \<or> stop = ''content_filter''"

definition empty_reply :: "message \<Rightarrow> bool" where
  "empty_reply m \<longleftrightarrow> m_content m = [] \<and> m_reasoning m = [] \<and> m_tool_calls m = []"

text \<open>
  \<^verbatim>\<open>0.99*float64(window)\<close> is compared with an integer; for a window below \<open>2 ^ 40\<close> the rounding of
  the product decides no comparison, so the model compares the integers.
\<close>

definition silentOverflow :: "response \<Rightarrow> int \<Rightarrow> bool" where
  "silentOverflow r window \<longleftrightarrow>
     window > 0 \<and> cutOff (rs_stop r) \<and> u_output (rs_usage r) = 0 \<and> empty_reply (rs_message r)
     \<and> 100 * u_input (rs_usage r) \<ge> 99 * window"

record stream_acc =
  sa_text :: string
  sa_reasoning :: string
  sa_calls :: "tool_call list"
  sa_usage :: usage
  sa_timings :: timings
  sa_stop :: string
  sa_started :: "int option"
  sa_done :: bool

definition stream_start :: stream_acc where
  "stream_start = \<lparr>sa_text = [], sa_reasoning = [], sa_calls = [], sa_usage = no_usage,
     sa_timings = no_timings, sa_stop = [], sa_started = None, sa_done = False\<rparr>"

definition begin_response :: "int \<Rightarrow> stream_acc \<Rightarrow> stream_acc" where
  "begin_response now s = (case sa_started s of None \<Rightarrow> s\<lparr>sa_started := Some now\<rparr> | Some _ \<Rightarrow> s)"

definition stream_one ::
  "'w agent \<Rightarrow> string \<Rightarrow> generation option \<Rightarrow> int \<Rightarrow> stream_event \<Rightarrow> stream_acc \<Rightarrow> 'w ast
    \<Rightarrow> (err + stream_acc) \<times> 'w ast" where
  "stream_one a runID gen now e s st =
    (case e of
       TextDelta t \<Rightarrow>
         (let s = begin_response now s; s = s\<lparr>sa_text := sa_text s @ t\<rparr> in
          (Inr s, if gen = None then st else emit a (EvMessageDelta runID t) st))
     | ReasoningDelta t \<Rightarrow>
         (let s = begin_response now s; s = s\<lparr>sa_reasoning := sa_reasoning s @ t\<rparr> in
          (Inr s, if gen = None then st else emit a (EvReasoningDelta runID t) st))
     | ToolCallDelta \<Rightarrow> (Inr (begin_response now s), st)
     | ToolCallEvent c \<Rightarrow> (Inr (s\<lparr>sa_calls := sa_calls s @ [c]\<rparr>), st)
     | UsageEvent u t \<Rightarrow>
         (let s = (if u \<noteq> no_usage then s\<lparr>sa_usage := u\<rparr> else s);
              s = (if Known t then s\<lparr>sa_timings := t\<rparr> else s) in
          (Inr s,
           case gen of
             None \<Rightarrow> st
           | Some g \<Rightarrow> emitProgress a runID g (sa_usage s) (sa_timings s) (sa_started s) now st))
     | DoneEvent stop \<Rightarrow> (Inr (s\<lparr>sa_stop := stop, sa_done := True\<rparr>), st)
     | ErrorEvent err \<Rightarrow> (Inl (ErrWrap ''call model'' err), st))"

fun stream_loop ::
  "'w agent \<Rightarrow> string \<Rightarrow> generation option \<Rightarrow> (int \<times> stream_event) list \<Rightarrow> stream_acc \<Rightarrow> 'w ast
    \<Rightarrow> (err + stream_acc) \<times> 'w ast" where
  "stream_loop a runID gen [] s st = (Inr s, st)"
| "stream_loop a runID gen ((now, e) # es) s st =
    (if sa_done s then
       (Inl (ErrText ''call model: provider sent an event after completion''), st)
     else
       (case stream_one a runID gen now e s st of
          (Inl err, st) \<Rightarrow> (Inl err, st)
        | (Inr s, st) \<Rightarrow> stream_loop a runID gen es s st))"

definition stream_finish :: "int \<Rightarrow> generation option \<Rightarrow> stream_acc \<Rightarrow> (err + response) \<times> generation option" where
  "stream_finish now gen s =
    (if \<not> sa_done s then
       (Inl (ErrText ''call model: provider stream closed without a completion event''), gen)
     else if sa_stop s = [] then
       (Inl (ErrText ''call model: provider completion has no stop reason''), gen)
     else
       let calls = (if cutOff (sa_stop s) then [] else sa_calls s);
           elapsed = elapsedSince (sa_started s) now;
           gen = map_option
             (gen_add (sa_usage s) elapsed (withHarnessDecode (sa_timings s) (sa_usage s) elapsed)) gen in
       (Inr \<lparr>rs_message = AssistantMessageWithReasoning (sa_text s) (sa_reasoning s) calls,
             rs_stop = sa_stop s, rs_usage = sa_usage s\<rparr>, gen))"

definition stream ::
  "'w agent \<Rightarrow> string \<Rightarrow> request \<Rightarrow> generation option \<Rightarrow> 'w ast
    \<Rightarrow> (err + response) \<times> generation option \<times> 'w ast" where
  "stream a runID req gen st =
    (case lift_world (a_stream a req) st of
       (Inl e, st) \<Rightarrow> (Inl (ErrWrap ''call model'' e), gen, st)
     | (Inr (evs, now), st) \<Rightarrow>
         (case stream_loop a runID gen evs stream_start st of
            (Inl e, st) \<Rightarrow> (Inl e, gen, st)
          | (Inr s, st) \<Rightarrow> (let (r, gen) = stream_finish now gen s in (r, gen, st))))"

section \<open>Retries\<close>

definition maxRetryBackoff :: int where
  "maxRetryBackoff = 30000000000"

definition retry_wait :: "int \<Rightarrow> err \<Rightarrow> int" where
  "retry_wait backoff e =
    (let wait = min backoff maxRetryBackoff in
     if RetryAfter e > wait then min (RetryAfter e) maxRetryBackoff else wait)"

function retrying ::
  "'w agent \<Rightarrow> string \<Rightarrow> bool
    \<Rightarrow> (generation option \<Rightarrow> 'w ast \<Rightarrow> (err + response) \<times> generation option \<times> 'w ast)
    \<Rightarrow> int \<Rightarrow> int \<Rightarrow> generation option \<Rightarrow> 'w ast
    \<Rightarrow> (err + response) \<times> generation option \<times> 'w ast" where
  "retrying a runID reset attempt n backoff gen st =
    (case attempt gen st of
       (Inr r, gen, st) \<Rightarrow> (Inr r, gen, st)
     | (Inl e, gen, st) \<Rightarrow>
         (case lift_world (a_ctx_err a) st of
            (Some ce, st) \<Rightarrow> (Inl (ErrWrap ''call model'' ce), gen, st)
          | (None, st) \<Rightarrow>
              if \<not> Retryable e \<or> ContextOverflow e \<or> n \<ge> o_max_retries (a_opts a) then (Inl e, gen, st)
              else
                let st = (if reset then emit a (EvMessageReset runID) st else st) in
                (case lift_world (a_sleep a (retry_wait backoff e)) st of
                   (Some ce, st) \<Rightarrow> (Inl (ErrWrap ''call model'' ce), gen, st)
                 | (None, st) \<Rightarrow>
                     retrying a runID reset attempt (n + 1) (wrap64 (2 * backoff)) gen st)))"
  by pat_completeness auto
termination
  by (relation "measure (\<lambda>(a, _, _, _, n, _). nat (o_max_retries (a_opts a) - n))") auto

declare retrying.simps [simp del]

section \<open>Streams\<close>

lemma stream_one_fields:
  "stream_one a runID gen now e s st = (r, st') \<Longrightarrow>
    conv st' = conv st \<and> queues st' = queues st \<and> world st' = world st"
  by (auto simp: stream_one_def emitProgress_def Let_def split: stream_event.splits option.splits if_splits)

lemma stream_loop_fields:
  "stream_loop a runID gen es s st = (r, st') \<Longrightarrow>
    conv st' = conv st \<and> queues st' = queues st \<and> world st' = world st"
proof (induction a runID gen es s st rule: stream_loop.induct)
  case (2 a runID gen now e es s st)
  then show ?case
    by (auto split: if_splits prod.splits sum.splits dest!: stream_one_fields)
qed simp

lemma stream_fields:
  assumes "stream a runID req gen st = (r, gen', st')"
  shows "conv st' = conv st" "queues st' = queues st" "world st' = snd (a_stream a req (world st))"
  using assms
  by (auto simp: stream_def Let_def split: prod.splits sum.splits
      dest!: stream_loop_fields lift_worldD)

text \<open>
  A reply is an assistant message with no measurement yet; when the endpoint cut it off it carries
  no tool call, so no half-written call is ever run or stored.
\<close>

lemma stream_reply:
  assumes "stream a runID req gen st = (Inr r, gen', st')"
  shows "m_role (rs_message r) = RoleAssistant" "m_metrics (rs_message r) = None"
    "\<not> m_summary (rs_message r)" "rs_stop r \<noteq> []"
    "cutOff (rs_stop r) \<Longrightarrow> m_tool_calls (rs_message r) = []"
  using assms
  by (auto simp: stream_def stream_finish_def AssistantMessageWithReasoning_def zero_message_def Let_def
      split: prod.splits sum.splits if_splits)

section \<open>Retries end and wait at most half a minute\<close>

lemma retry_wait_max: "retry_wait backoff e \<le> maxRetryBackoff"
  by (simp add: retry_wait_def Let_def)

lemma retry_wait_min: "retry_wait backoff e \<ge> min backoff maxRetryBackoff"
  by (simp add: retry_wait_def Let_def)

text \<open>
  The rule the retry loop is reasoned with. \<open>P m\<close> describes the state after attempt number \<open>m\<close>:
  an attempt advances it, what happens between two attempts keeps it. At most \<^verbatim>\<open>MaxRetries + 1\<close>
  attempts are made, and a response is the response of the last one.
\<close>

lemma retrying_rule:
  assumes "retrying a runID reset attempt n backoff gen st = (r, gen', st')"
    and attempt: "\<And>m gen st r gen' st'. P m gen st \<Longrightarrow> attempt gen st = (r, gen', st') \<Longrightarrow> P (m + 1) gen' st'"
    and ctx: "\<And>m gen st c st'. P m gen st \<Longrightarrow> lift_world (a_ctx_err a) st = (c, st') \<Longrightarrow> P m gen st'"
    and sleep: "\<And>m gen st t c st'. P m gen st \<Longrightarrow> lift_world (a_sleep a t) st = (c, st') \<Longrightarrow> P m gen st'"
    and emit: "\<And>m gen st e. P m gen st \<Longrightarrow> P m gen (emit a e st)"
    and start: "P n gen st"
  shows "\<exists>m. P (m + 1) gen' st' \<and> n \<le> m \<and> m \<le> max n (o_max_retries (a_opts a))
    \<and> (\<forall>x. r = Inr x \<longrightarrow> (\<exists>g s. P m g s \<and> attempt g s = (Inr x, gen', st')))"
  using assms(1) start
proof (induction "nat (o_max_retries (a_opts a) - n)" arbitrary: n backoff gen st rule: less_induct)
  case less
  obtain r1 g1 s1 where att: "attempt gen st = (r1, g1, s1)" by (metis prod_cases3)
  note P1 = attempt [OF less.prems(2) att]
  show ?case
  proof (cases r1)
    case (Inr x)
    then have "r = Inr x" "gen' = g1" "st' = s1" using less.prems(1) att by (simp_all add: retrying.simps)
    then show ?thesis using Inr att P1 less.prems(2) by (intro exI [of _ n]) auto
  next
    case (Inl e)
    obtain c s2 where c: "lift_world (a_ctx_err a) s1 = (c, s2)" by fastforce
    note P2 = ctx [OF P1 c]
    let ?s = "if reset then emit a (EvMessageReset runID) s2 else s2"
    have P3: "P (n + 1) g1 ?s" using P2 emit by simp
    obtain d s4 where d: "lift_world (a_sleep a (retry_wait backoff e)) ?s = (d, s4)" by fastforce
    note P4 = sleep [OF P3 d]
    show ?thesis
    proof (cases "c = None \<and> \<not> (\<not> Retryable e \<or> ContextOverflow e \<or> n \<ge> o_max_retries (a_opts a)) \<and> d = None")
      case True
      with less.prems(1) att Inl c d
      have "retrying a runID reset attempt (n + 1) (wrap64 (2 * backoff)) g1 s4 = (r, gen', st')"
        by (subst (asm) retrying.simps) (simp add: Let_def)
      moreover have "nat (o_max_retries (a_opts a) - (n + 1)) < nat (o_max_retries (a_opts a) - n)"
        using True by simp
      ultimately obtain m where "P (m + 1) gen' st'" "n + 1 \<le> m" "m \<le> max (n + 1) (o_max_retries (a_opts a))"
        "\<forall>x. r = Inr x \<longrightarrow> (\<exists>g s. P m g s \<and> attempt g s = (Inr x, gen', st'))"
        using less.hyps P4 by blast
      then show ?thesis using True by (intro exI [of _ m]) auto
    next
      case False
      with less.prems(1) att Inl c d have "P (n + 1) gen' st'" "\<forall>x. r \<noteq> Inr x"
        using P2 P4 by (subst (asm) retrying.simps, force simp: Let_def split: option.splits if_splits)+
      then show ?thesis by (intro exI [of _ n]) auto
    qed
  qed
qed

lemma retrying_keeps:
  assumes "retrying a runID reset attempt n backoff gen st = (r, gen', st')"
    and "\<And>gen st r gen' st'. P gen st \<Longrightarrow> attempt gen st = (r, gen', st') \<Longrightarrow> P gen' st'"
    and "\<And>gen st c st'. P gen st \<Longrightarrow> lift_world (a_ctx_err a) st = (c, st') \<Longrightarrow> P gen st'"
    and "\<And>gen st t c st'. P gen st \<Longrightarrow> lift_world (a_sleep a t) st = (c, st') \<Longrightarrow> P gen st'"
    and "\<And>gen st e. P gen st \<Longrightarrow> P gen (emit a e st)"
    and "P gen st"
  shows "P gen' st'"
  using retrying_rule [OF assms(1), of "\<lambda>_. P"] assms(2-6) by blast

lemma retrying_result:
  assumes "retrying a runID reset attempt n backoff gen st = (Inr x, gen', st')"
  shows "\<exists>g s. attempt g s = (Inr x, gen', st')"
  using retrying_rule [OF assms, of "\<lambda>_ _ _. True"] by blast

end
