(* ===== verification/Summary.thy ===== *)
theory Summary
  imports Response
begin

text \<open>
  The other half of \<^verbatim>\<open>summary.go\<close> and \<^verbatim>\<open>compaction.go\<close>: asking the model for a summary, in the
  cached form first and in the transcript form when that one cannot work, and replacing the oldest
  part of the conversation by it, in the conversation and in the store. The locale \<open>surroundings\<close> is
  what the loop relies on of the world outside it: a relation between worlds (that the stored
  messages are the same, later) which every operation of the outside but the store's own keeps.
\<close>

section \<open>The interface to the surroundings\<close>

locale surroundings =
  fixes a :: "'w agent"
    and keeps :: "'w \<Rightarrow> 'w \<Rightarrow> bool"
  assumes keeps_refl: "keeps w w"
    and keeps_trans: "keeps w w1 \<Longrightarrow> keeps w1 w2 \<Longrightarrow> keeps w w2"
    and keeps_stream: "keeps w (snd (a_stream a req w))"
    and keeps_ctx: "keeps w (snd (a_ctx_err a w))"
    and keeps_sleep: "keeps w (snd (a_sleep a wait w))"
    and keeps_tool: "keeps w (snd (a_tool a runID t tc w))"
    and keeps_record: "keeps w (a_record a runID cx u w)"
    and keeps_run_id: "keeps w (snd (a_run_id a w))"
    and keeps_now: "keeps w (snd (a_now a w))"
    and keeps_incoming: "keeps w (snd (a_incoming a w))"
    and keeps_discover: "keeps w (snd (a_discover a w))"

section \<open>Failing\<close>

definition agent_fail :: "'w agent \<Rightarrow> string \<Rightarrow> err \<Rightarrow> 'w ast \<Rightarrow> err option \<times> 'w ast" where
  "agent_fail a runID e st = (Some e, emit a (EvRunError runID (err_text e) (Retryable e)) st)"

lemma agent_fail_fields:
  "agent_fail a runID e st = (r, st') \<Longrightarrow>
    conv st' = conv st \<and> queues st' = queues st \<and> world st' = world st \<and> r = Some e"
  by (auto simp: agent_fail_def)

section \<open>Asking for a summary\<close>

record summary_request =
  sr_end :: nat
  sr_from :: nat
  sr_prompt :: string
  sr_budget :: int

definition minSummaryBudget :: int where
  "minSummaryBudget = 2048"

definition with_budget :: "int \<Rightarrow> string option \<Rightarrow> model_context \<Rightarrow> model_context" where
  "with_budget budget effort c =
     c\<lparr>x_parameters := (x_parameters c)
        \<lparr>p_sampling := (p_sampling (x_parameters c))
           \<lparr>MaxOutput := Some budget, ReasoningEffort := effort\<rparr>\<rparr>\<rparr>"

type_synonym ask_result = "string \<times> bool \<times> err option"

fun ask ::
  "'w agent \<Rightarrow> model_context \<Rightarrow> int \<Rightarrow> string option list \<Rightarrow> usage \<Rightarrow> string \<Rightarrow> 'w ast
    \<Rightarrow> ask_result \<times> usage \<times> string \<times> 'w ast" where
  "ask a c budget [] usage partial st = (([], False, None), usage, partial, st)"
| "ask a c budget (effort # efforts) usage partial st =
    (case retrying a [] False (stream a [] (context_Request (with_budget budget effort c)))
            0 (o_retry_backoff (a_opts a)) None st of
       (Inl e, _, st) \<Rightarrow> (([], ContextOverflow e, Some e), usage, partial, st)
     | (Inr resp, _, st) \<Rightarrow>
         let usage = addUsage usage (rs_usage resp);
             text = trim_space (StripReasoning (m_content (rs_message resp))) in
         if text \<noteq> [] \<and> \<not> cutOff (rs_stop resp) then ((text, False, None), usage, partial, st)
         else if text = [] \<and> m_tool_calls (rs_message resp) \<noteq> [] then
           (([], True, Some (ErrText ''the model called a tool instead of summarizing'')), usage, partial, st)
         else ask a c budget efforts usage (if length text > length partial then text else partial) st)"

definition partialSummary :: "string \<Rightarrow> int \<Rightarrow> err + string" where
  "partialSummary partial budget =
    (if partial = []
     then Inl (ErrText (''the model produced no summary within '' @ itoa budget @ '' output tokens''))
     else Inr partial)"

definition summary_budget :: "model_context \<Rightarrow> summary_request \<Rightarrow> int" where
  "summary_budget base r =
    (case MaxOutput (p_sampling (x_parameters base)) of
       Some m \<Rightarrow> min (sr_budget r) m | None \<Rightarrow> sr_budget r)"

definition summary_efforts :: "'w agent \<Rightarrow> model_context \<Rightarrow> string option list" where
  "summary_efforts a base =
    (let e = ReasoningEffort (p_sampling (x_parameters base));
         f = cs_fallback_effort (o_compaction (a_opts a)) in
     if f \<noteq> [] \<and> e \<noteq> Some f then [e, Some f] else [e])"

definition summary_room :: "int \<Rightarrow> int \<Rightarrow> int \<Rightarrow> int" where
  "summary_room budget window tokens = (if window > 0 then min budget (window - tokens) else budget)"

definition summary_transcript ::
  "'w agent \<Rightarrow> model_context \<Rightarrow> message list \<Rightarrow> summary_request \<Rightarrow> usage \<Rightarrow> string \<Rightarrow> 'w ast
    \<Rightarrow> (err + string) \<times> usage \<times> 'w ast" where
  "summary_transcript a base msgs r usage partial st =
    (let window = o_context_window (a_opts a);
         budget = summary_budget base r;
         need = min budget minSummaryBudget;
         c = transcriptContext (a_enc a) base (drop (sr_from r) (take (sr_end r) msgs)) (sr_prompt r);
         room = summary_room budget window (estimateContext c (x_messages c)) in
     if room < need then
       (Inl (ErrText (''the conversation to summarize does not fit the configured window of ''
          @ itoa window @ '' with room for a summary'')), usage, st)
     else
       (case ask a c room (summary_efforts a base) usage partial st of
          ((text, _, e), usage, partial, st) \<Rightarrow>
            (if text \<noteq> [] then Inr text
             else (case e of Some e \<Rightarrow> Inl e | None \<Rightarrow> partialSummary partial budget), usage, st)))"

definition summary ::
  "'w agent \<Rightarrow> model_context \<Rightarrow> message list \<Rightarrow> summary_request \<Rightarrow> 'w ast
    \<Rightarrow> (err + string) \<times> usage \<times> 'w ast" where
  "summary a base msgs r st =
    (let window = o_context_window (a_opts a);
         budget = summary_budget base r;
         need = min budget minSummaryBudget;
         sent = take (sr_end r) msgs @ [UserMessage (sr_prompt r)];
         cached = WithMessages (a_enc a) sent base;
         room = summary_room budget window (estimateContext cached sent) in
     if room \<ge> need then
       (case ask a cached room (summary_efforts a base) no_usage [] st of
          ((text, next, e), usage, partial, st) \<Rightarrow>
            if text \<noteq> [] then (Inr text, usage, st)
            else if e \<noteq> None \<and> \<not> next then (Inl (the e), usage, st)
            else if \<not> next then (partialSummary partial budget, usage, st)
            else summary_transcript a base msgs r usage partial st)
     else summary_transcript a base msgs r no_usage [] st)"

definition summarize_history ::
  "'w agent \<Rightarrow> model_context \<Rightarrow> message list \<Rightarrow> compaction_plan \<Rightarrow> string \<Rightarrow> 'w ast
    \<Rightarrow> (err + string) \<times> usage \<times> 'w ast" where
  "summarize_history a base msgs plan instructions st =
    (let prompts = settings_prompts (o_compaction (a_opts a));
         reserve = reserveTokens (o_compaction (a_opts a)) (o_context_window (a_opts a)) in
     if historyEnd plan > pl_start plan then
       let prompt = (if plan_previous plan then cp_update prompts else cp_summary prompts);
           instructions = trim_space instructions;
           prompt = (if instructions \<noteq> []
                     then prompt @ nl @ nl @ ''Additional focus: '' @ instructions else prompt) in
       summary a base msgs
         \<lparr>sr_end = historyEnd plan, sr_from = 0, sr_prompt = prompt, sr_budget = go_div (reserve * 8) 10\<rparr> st
     else if plan_previous plan then (Inr (summaryText (msgs ! 0)), no_usage, st)
     else (Inr [], no_usage, st))"

definition summarize ::
  "'w agent \<Rightarrow> model_context \<Rightarrow> message list \<Rightarrow> compaction_plan \<Rightarrow> string \<Rightarrow> 'w ast
    \<Rightarrow> (err + string) \<times> usage \<times> 'w ast" where
  "summarize a base msgs plan instructions st =
    (case summarize_history a base msgs plan instructions st of
       (Inl e, usage, st) \<Rightarrow> (Inl e, usage, st)
     | (Inr history, usage, st) \<Rightarrow>
         (case pl_turn_start plan of
            None \<Rightarrow> (Inr history, usage, st)
          | Some turnStart \<Rightarrow>
              let reserve = reserveTokens (o_compaction (a_opts a)) (o_context_window (a_opts a)) in
              (case summary a base msgs
                      \<lparr>sr_end = pl_first plan, sr_from = turnStart,
                       sr_prompt = cp_turn_prefix (settings_prompts (o_compaction (a_opts a))),
                       sr_budget = go_div reserve 2\<rparr> st of
                 (Inl e, u, st) \<Rightarrow> (Inl e, addUsage usage u, st)
               | (Inr pre, u, st) \<Rightarrow>
                   (Inr ((if history = [] then ''No prior history.'' else history)
                      @ splitTurnSeparator @ pre), addUsage usage u, st))))"

section \<open>Compacting\<close>

definition CompactManual :: string where "CompactManual = ''manual''"
definition CompactThreshold :: string where "CompactThreshold = ''threshold''"
definition CompactOverflow :: string where "CompactOverflow = ''overflow''"

definition compact_failed ::
  "'w agent \<Rightarrow> string \<Rightarrow> string \<Rightarrow> int \<Rightarrow> usage \<Rightarrow> nat \<Rightarrow> err \<Rightarrow> 'w ast \<Rightarrow> (nat \<times> err option) \<times> 'w ast" where
  "compact_failed a runID reason before usage stored e st =
    (let e = ErrWrap ''compact conversation'' e in
     ((stored, Some e),
      emit a (EvCompactionEnd runID reason before 0 [] 0 usage (err_text e)) st))"

definition compaction_of ::
  "'w agent \<Rightarrow> model_context \<Rightarrow> message list \<Rightarrow> nat \<Rightarrow> compaction_plan \<Rightarrow> string \<Rightarrow> int \<Rightarrow> string \<Rightarrow> usage
    \<Rightarrow> compaction \<times> message list" where
  "compaction_of a base msgs stored plan reason before text usage =
    (let record = \<lparr>c_summary = text, c_kept = int stored - int (pl_first plan),
                   c_tokens_before = before, c_tokens_after = 0, c_reason = reason, c_usage = usage\<rparr>;
         next = Compacted (take stored msgs) record @ drop stored msgs in
     (record\<lparr>c_tokens_after := estimateContext (WithMessages (a_enc a) next base) next\<rparr>, next))"

definition compact ::
  "'w agent \<Rightarrow> string \<Rightarrow> prompt_section list \<Rightarrow> nat \<Rightarrow> string \<Rightarrow> string \<Rightarrow> 'w ast
    \<Rightarrow> (nat \<times> err option) \<times> 'w ast" where
  "compact a runID prompt stored reason instructions st =
    (let msgs = conv st;
         base = agent_base (a_enc a) (a_opts a) prompt;
         sent = WithMessages (a_enc a) msgs base;
         (plan, ok) = planCompaction msgs (x_message_sizes sent) stored
           (keepRecentTokens (o_compaction (a_opts a)) (o_context_window (a_opts a))) in
     if \<not> ok then ((stored, Some ErrNothingToCompact), st)
     else
       let before = estimateContext sent msgs;
           st = emit a (EvCompactionStart runID reason before) st in
       (case summarize a base msgs plan instructions st of
          (Inl e, usage, st) \<Rightarrow> compact_failed a runID reason before usage stored e st
        | (Inr text, usage, st) \<Rightarrow>
            let (record, next) = compaction_of a base msgs stored plan reason before text usage;
                (r, st) = (if o_has_store (a_opts a) then lift_world (a_append_compaction a record) st
                           else (None, st)) in
            (case r of
               Some e \<Rightarrow> compact_failed a runID reason before usage stored (ErrWrap ''store compaction'' e) st
             | None \<Rightarrow>
                 ((nat (c_kept record + 1), None),
                  emit a (EvCompactionEnd runID reason before (c_tokens_after record)
                    (c_summary record) (c_kept record) usage [])
                    (st\<lparr>conv := conv_Replace next (conv st)\<rparr>)))))"

definition run_prompt :: "'w agent \<Rightarrow> 'w ast \<Rightarrow> (err + prompt_section list) \<times> 'w ast" where
  "run_prompt a st =
    (let (d, st) = (if o_has_executor (a_opts a) \<and> \<not> o_skip_context_files (a_opts a)
                    then lift_world (a_discover a) st else (Inr [], st)) in
     (agent_prompt (fst (a_base_prompts a)) (snd (a_base_prompts a)) (a_render a) (a_opts a) d, st))"

definition Compact :: "'w agent \<Rightarrow> string \<Rightarrow> 'w ast \<Rightarrow> err option \<times> 'w ast" where
  "Compact a instructions st =
    (let (runID, st) = lift_world (a_run_id a) st in
     case run_prompt a st of
       (Inl e, st) \<Rightarrow> agent_fail a runID (ErrWrap ''compact'' e) st
     | (Inr prompt, st) \<Rightarrow>
         let ((_, e), st) = compact a runID prompt (length (conv st)) CompactManual instructions st in
         (e, st))"

section \<open>Asking changes neither the conversation nor what is stored\<close>

context surroundings
begin

text \<open>What every operation of the loop but the store's keeps.\<close>

definition same :: "'w ast \<Rightarrow> 'w ast \<Rightarrow> bool" where
  "same st st' \<longleftrightarrow> conv st' = conv st \<and> queues st' = queues st \<and> keeps (world st) (world st')"

lemma same_refl [simp]: "same st st"
  by (simp add: same_def keeps_refl)

lemma same_trans: "same s t \<Longrightarrow> same t u \<Longrightarrow> same s u"
  by (auto simp: same_def intro: keeps_trans)

lemma same_emit [simp]: "same st (emit a e st') = same st st'" "same (emit a e st) st' = same st st'"
  by (simp_all add: same_def)

lemma same_lift:
  assumes "lift_world f st = (r, st')" "\<And>w. keeps w (snd (f w))"
  shows "same st st'"
  using lift_worldD [OF assms(1)] assms(2) [of "world st"] by (simp add: same_def)

lemmas same_ops =
  same_lift [where f = "a_stream a req" for req, OF _ keeps_stream] same_lift [OF _ keeps_ctx]
  same_lift [where f = "a_sleep a t" for t, OF _ keeps_sleep]
  same_lift [where f = "a_tool a runID t c" for runID t c, OF _ keeps_tool] same_lift [OF _ keeps_run_id] same_lift [OF _ keeps_now]
  same_lift [OF _ keeps_incoming] same_lift [OF _ keeps_discover]

lemma same_stream: "stream a runID req gen st = (r, gen', st') \<Longrightarrow> same st st'"
  using keeps_stream by (simp add: same_def stream_fields)

lemma same_retrying:
  assumes "retrying a runID reset (stream a i req) n backoff gen st = (r, gen', st')"
  shows "same st st'"
  by (rule retrying_keeps [OF assms, where P = "\<lambda>_. same st"])
    (auto intro: same_trans same_stream same_ops)

lemma same_ask: "ask a c budget es u partial st = (r, u', p', st') \<Longrightarrow> same st st'"
proof (induction es arbitrary: u partial st)
  case (Cons effort es)
  then show ?case
    by (auto simp: Let_def split: prod.splits sum.splits if_splits dest!: same_retrying intro: same_trans)
qed auto

lemma same_summary_transcript:
  "summary_transcript a base msgs r u p st = (x, u', st') \<Longrightarrow> same st st'"
  by (auto simp: summary_transcript_def Let_def split: prod.splits if_splits dest!: same_ask)

lemma same_summary: "summary a base msgs r st = (x, u, st') \<Longrightarrow> same st st'"
  by (auto simp: summary_def Let_def split: prod.splits if_splits
      dest!: same_ask same_summary_transcript intro: same_trans)

lemma same_summarize: "summarize a base msgs plan i st = (x, u, st') \<Longrightarrow> same st st'"
  by (auto simp: summarize_def summarize_history_def Let_def
      split: prod.splits sum.splits option.splits if_splits dest!: same_summary intro: same_trans)

lemma same_run_prompt: "run_prompt a st = (x, st') \<Longrightarrow> same st st'"
  by (auto simp: run_prompt_def Let_def split: prod.splits if_splits intro: same_ops)

end

end
