(* ===== verification/Agent_Loop.thy ===== *)
theory Agent_Loop
  imports Summary
begin

text \<open>
  \<^verbatim>\<open>internal/agent/agent.go\<close> and \<^verbatim>\<open>Agent.call\<close> of \<^verbatim>\<open>response.go\<close>: one model call with automatic
  compaction, the tool calls of a reply, a turn and a run. The variables a turn closes over are the
  record \<open>turn_state\<close>; its index \<^verbatim>\<open>pendingMark\<close> is an optional \<^typ>\<open>nat\<close>. A turn may ask for tools
  for ever and a run may be sent messages for ever, so both loops take fuel and answer \<^const>\<open>None\<close>
  when it runs out; \<open>turn_fuel_mono\<close> and \<open>run_fuel_mono\<close> show that more fuel changes no answer.
\<close>

section \<open>The model call\<close>

definition autoCompact ::
  "'w agent \<Rightarrow> string \<Rightarrow> prompt_section list \<Rightarrow> nat option \<Rightarrow> string \<Rightarrow> 'w ast
    \<Rightarrow> err option \<times> nat option \<times> 'w ast" where
  "autoCompact a runID prompt pendingMark reason st =
    (let stored = (case pendingMark of Some n \<Rightarrow> n | None \<Rightarrow> length (conv st)) in
     case compact a runID prompt stored reason [] st of
       ((_, Some e), st) \<Rightarrow> (Some e, pendingMark, st)
     | ((n, None), st) \<Rightarrow> (None, map_option (\<lambda>_. n) pendingMark, st))"

type_synonym call_result = "err + response \<times> model_context"

function call ::
  "'w agent \<Rightarrow> string \<Rightarrow> prompt_section list \<Rightarrow> bool \<Rightarrow> bool \<Rightarrow> generation \<Rightarrow> nat option \<Rightarrow> 'w ast
    \<Rightarrow> call_result \<times> generation \<times> nat option \<times> 'w ast" where
  "call a runID prompt compacted recovered gen mark st =
    (let msgs = conv st;
         sent = WithMessages (a_enc a) msgs (agent_base (a_enc a) (a_opts a) prompt);
         tokens = estimateContext sent msgs;
         window = o_context_window (a_opts a) in
     if \<not> compacted \<and> shouldCompact (a_opts a) tokens then
       (case autoCompact a runID prompt mark CompactThreshold st of
          (None, mark, st) \<Rightarrow> call a runID prompt True recovered gen mark st
        | (Some e, mark, st) \<Rightarrow>
            (case lift_world (a_ctx_err a) st of
               (Some ce, st) \<Rightarrow> (Inl (ErrWrap ''call model'' ce), gen, mark, st)
             | (None, st) \<Rightarrow> call a runID prompt True recovered gen mark st))
     else
       (case fit sent tokens window of
          Inl e \<Rightarrow> (Inl e, gen, mark, st)
        | Inr sent \<Rightarrow>
            (case retrying a runID True (stream a runID (context_Request sent)) 0
                    (o_retry_backoff (a_opts a)) (Some gen) st of
               (r, g, st) \<Rightarrow>
                 let gen = (case g of Some g \<Rightarrow> g | None \<Rightarrow> gen);
                     auto = (cs_auto (o_compaction (a_opts a)) \<and> \<not> recovered);
                     r = (case r of
                            Inr resp \<Rightarrow> if auto \<and> silentOverflow resp window then Inl ErrSilentOverflow else Inr resp
                          | Inl e \<Rightarrow> Inl e) in
                 (case r of
                    Inr resp \<Rightarrow> (Inr (resp, sent), gen, mark, st)
                  | Inl e \<Rightarrow>
                      if \<not> auto then (Inl e, gen, mark, st)
                      else
                        (case lift_world (a_ctx_err a) st of
                           (Some _, st) \<Rightarrow> (Inl e, gen, mark, st)
                         | (None, st) \<Rightarrow>
                             if \<not> (ContextOverflow e \<or> err_is ErrSilentOverflow e) then (Inl e, gen, mark, st)
                             else
                               (case autoCompact a runID prompt mark CompactOverflow
                                       (emit a (EvMessageReset runID) st) of
                                  (Some ce, mark, st) \<Rightarrow> (Inl (ErrJoin e ce), gen, mark, st)
                                | (None, mark, st) \<Rightarrow> call a runID prompt True True gen mark st))))))"
  by pat_completeness auto
termination
  by (relation "measure (\<lambda>(_, _, _, compacted, recovered, _).
        (if compacted then 0 else 1) + (if recovered then 0 else 1))") auto

declare call.simps [simp del]

section \<open>Storing\<close>

definition agent_store :: "'w agent \<Rightarrow> bool \<Rightarrow> message \<Rightarrow> 'w ast \<Rightarrow> err option \<times> 'w ast" where
  "agent_store a terminal m st =
    (if \<not> o_has_store (a_opts a) then (None, st)
     else
       (case lift_world (a_append a terminal m) st of
          (Some e, st) \<Rightarrow> (Some (ErrWrap ''store message'' e), st)
        | (None, st) \<Rightarrow> (None, st)))"

definition agent_append :: "'w agent \<Rightarrow> bool \<Rightarrow> message \<Rightarrow> 'w ast \<Rightarrow> err option \<times> 'w ast" where
  "agent_append a terminal m st =
    (case agent_store a terminal m st of
       (Some e, st) \<Rightarrow> (Some e, st)
     | (None, st) \<Rightarrow> (None, st\<lparr>conv := conv_Append m (conv st)\<rparr>))"

definition appendTerminal :: "'w agent \<Rightarrow> message \<Rightarrow> 'w ast \<Rightarrow> err option \<times> 'w ast" where
  "appendTerminal a m st = agent_append a True m st"

section \<open>Tool calls\<close>

definition dispatch :: "'w agent \<Rightarrow> string \<Rightarrow> tool_call \<Rightarrow> 'w ast \<Rightarrow> (err + tool_result) \<times> 'w ast" where
  "dispatch a runID c st =
    (case o_tools (a_opts a) of
       None \<Rightarrow> (Inr (tool_Errorf ''no tools are available in this session''), st)
     | Some tools \<Rightarrow>
         (case registry_Get (tc_name c) tools of
            None \<Rightarrow> (Inr (tool_Errorf (''unknown tool '' @ a_quote a (tc_name c))), st)
          | Some t \<Rightarrow>
              if \<not> o_has_executor (a_opts a) \<and> NeedsWorkspace t then
                (Inr (tool_Errorf (''this session has no workspace, so '' @ tc_name c @ '' cannot run'')), st)
              else lift_world (a_tool a runID t c) st))"

definition callTool :: "'w agent \<Rightarrow> string \<Rightarrow> tool_call \<Rightarrow> 'w ast \<Rightarrow> (err + message) \<times> 'w ast" where
  "callTool a runID c st =
    (let st = emit a (EvToolCall runID (tc_id c) (tc_name c) (tc_arguments c)) st;
         (start, st) = lift_world (a_now a) st in
     case dispatch a runID c st of
       (Inl e, st) \<Rightarrow> (Inl (ErrWrap (''run tool '' @ tc_name c) e), st)
     | (Inr result, st) \<Rightarrow>
         let (now, st) = lift_world (a_now a) st in
         (Inr (ToolResultMessage (tc_id c) (tr_content result) (tr_is_error result)),
          emit a (EvToolResult runID (tc_id c) (tc_name c) (tr_content result) (tr_is_error result)
            (tr_details result) (go_div (now - start) 1000000)) st))"

definition join_errors :: "err option \<Rightarrow> err option \<Rightarrow> err option" where
  "join_errors x y =
    (case (x, y) of
       (Some e, Some f) \<Rightarrow> Some (ErrJoin e f) | (Some e, None) \<Rightarrow> Some e | (None, _) \<Rightarrow> y)"

definition abandoned :: "tool_call \<Rightarrow> err \<Rightarrow> message" where
  "abandoned c cause =
    ToolResultMessage (tc_id c) (''the run stopped before this tool call finished: '' @ err_text cause) True"

fun abandonToolCalls ::
  "'w agent \<Rightarrow> string \<Rightarrow> tool_call list \<Rightarrow> err \<Rightarrow> err option \<Rightarrow> 'w ast \<Rightarrow> err option \<times> 'w ast" where
  "abandonToolCalls a runID [] cause joined st = (joined, st)"
| "abandonToolCalls a runID (c # cs) cause joined st =
    (let m = abandoned c cause;
         st = emit a (EvToolResult runID (tc_id c) (tc_name c) (m_content m) True [] 0) st;
         (e, st) = agent_append a True m st in
     abandonToolCalls a runID cs cause (join_errors joined e) st)"

definition give_up :: "'w agent \<Rightarrow> string \<Rightarrow> tool_call list \<Rightarrow> err \<Rightarrow> 'w ast \<Rightarrow> err option \<times> 'w ast" where
  "give_up a runID calls e st =
    (let (f, st) = abandonToolCalls a runID calls e None st in
     agent_fail a runID (the (join_errors (Some e) f)) st)"

fun run_calls :: "'w agent \<Rightarrow> string \<Rightarrow> tool_call list \<Rightarrow> 'w ast \<Rightarrow> err option \<times> 'w ast" where
  "run_calls a runID [] st = (None, st)"
| "run_calls a runID (c # cs) st =
    (case lift_world (a_ctx_err a) st of
       (Some e, st) \<Rightarrow> give_up a runID (c # cs) (ErrWrap ''run turn'' e) st
     | (None, st) \<Rightarrow>
         (case callTool a runID c st of
            (Inl e, st) \<Rightarrow> give_up a runID (c # cs) e st
          | (Inr result, st) \<Rightarrow>
              (case appendTerminal a result st of
                 (Some e, st) \<Rightarrow> give_up a runID (c # cs) e st
               | (None, st) \<Rightarrow> run_calls a runID cs st)))"

section \<open>A turn\<close>

record turn_state =
  tu_mark :: "nat option"
  tu_pending :: "message list"
  tu_msgs :: "message list"
  tu_steered :: "message list"
  tu_origin :: "origin option"
  tu_gen :: generation

text \<open>What other goroutines queued up to a point where the loop looks at its queues.\<close>

definition poll :: "'w agent \<Rightarrow> 'w ast \<Rightarrow> 'w ast" where
  "poll a st =
    (let (xs, st) = lift_world (a_incoming a) st in st\<lparr>queues := accept_all xs (queues st)\<rparr>)"

definition addPending :: "message \<Rightarrow> turn_state \<times> 'w ast \<Rightarrow> turn_state \<times> 'w ast" where
  "addPending m x =
    (let (tu, st) = x;
         tu = (case tu_mark tu of None \<Rightarrow> tu\<lparr>tu_mark := Some (length (conv st))\<rparr> | Some _ \<Rightarrow> tu) in
     (tu\<lparr>tu_pending := tu_pending tu @ [m]\<rparr>, st\<lparr>conv := conv_Append m (conv st)\<rparr>))"

definition restoreFrom :: "'w agent \<Rightarrow> nat \<Rightarrow> turn_state \<Rightarrow> 'w ast \<Rightarrow> 'w ast" where
  "restoreFrom a stored tu st =
    (let st = poll a st;
         st = (case tu_mark tu of
                 Some mark \<Rightarrow> st\<lparr>conv := conv_Truncate (int (mark + stored)) (conv st)\<rparr> | None \<Rightarrow> st);
         originStored = min stored (length (tu_msgs tu));
         st = (if tu_origin tu \<noteq> None \<and> originStored < length (tu_msgs tu)
               then st\<lparr>queues := unshift_to (tu_origin tu) (drop originStored (tu_msgs tu)) (queues st)\<rparr>
               else st);
         steeringStored = stored - length (tu_msgs tu) in
     if steeringStored < length (tu_steered tu)
     then st\<lparr>queues := unshift_to (Some FromSteering) (drop steeringStored (tu_steered tu)) (queues st)\<rparr>
     else st)"

fun store_pending :: "'w agent \<Rightarrow> message list \<Rightarrow> nat \<Rightarrow> 'w ast \<Rightarrow> (nat \<times> err) option \<times> 'w ast" where
  "store_pending a [] i st = (None, st)"
| "store_pending a (m # ms) i st =
    (case agent_store a False m st of
       (Some e, st) \<Rightarrow> (Some (i, e), st)
     | (None, st) \<Rightarrow> store_pending a ms (Suc i) st)"

definition with_metrics :: "'w agent \<Rightarrow> string \<Rightarrow> generation \<Rightarrow> message \<Rightarrow> message" where
  "with_metrics a runID gen reply =
    (if g_context gen \<noteq> no_usage
     then reply\<lparr>m_metrics := Some \<lparr>mm_run_id = runID, mm_usage = g_usage gen, mm_context = g_context gen,
        mm_generation_ms = go_div (g_elapsed gen) 1000000,
        mm_context_window = o_context_window (a_opts a), mm_timings = gen_reported gen\<rparr>\<rparr>
     else reply)"

text \<open>What is done with a reply: stored, and its tool calls run. \<open>Inl\<close> ends the turn.\<close>

definition turn_reply ::
  "'w agent \<Rightarrow> string \<Rightarrow> response \<Rightarrow> generation \<Rightarrow> 'w ast \<Rightarrow> (err option + unit) \<times> 'w ast" where
  "turn_reply a runID resp gen st =
    (let reply = with_metrics a runID gen (rs_message resp);
         (e, st) =
           (if empty_reply reply then (None, st)
            else agent_append a (m_tool_calls reply \<noteq> []) reply st) in
     case e of
       Some e \<Rightarrow> (Inl (Some e), st)
     | None \<Rightarrow>
         if m_tool_calls reply = [] then
           (Inl None, emit a (EvTurnEnd runID (rs_stop resp) (gen_report a gen)) st)
         else
           (case run_calls a runID (m_tool_calls reply) st of
              (Some e, st) \<Rightarrow> (Inl (Some e), st)
            | (None, st) \<Rightarrow> (Inr (), st)))"

definition turn_failed ::
  "'w agent \<Rightarrow> string \<Rightarrow> nat \<Rightarrow> turn_state \<Rightarrow> err \<Rightarrow> 'w ast \<Rightarrow> (err option + turn_state) \<times> 'w ast" where
  "turn_failed a runID stored tu e st =
    (let (r, st) = agent_fail a runID e (restoreFrom a stored tu st) in (Inl r, st))"

text \<open>Steering that arrived becomes part of what the next call sends.\<close>

definition deliver_steering :: "'w agent \<Rightarrow> turn_state \<Rightarrow> 'w ast \<Rightarrow> turn_state \<times> 'w ast" where
  "deliver_steering a tu st =
    (let st = poll a st;
         (ms, q) = drainSteering (queues st);
         (tu, st) = fold addPending ms (tu, st\<lparr>queues := q\<rparr>) in
     (tu\<lparr>tu_steered := tu_steered tu @ ms\<rparr>, st))"

text \<open>The model has seen the pending messages: they are stored for good, then the reply is.\<close>

definition turn_answered ::
  "'w agent \<Rightarrow> string \<Rightarrow> response \<Rightarrow> model_context \<Rightarrow> turn_state \<Rightarrow> 'w ast
    \<Rightarrow> (err option + turn_state) \<times> 'w ast" where
  "turn_answered a runID resp sent tu st =
    (case store_pending a (tu_pending tu) 0 st of
       (Some (i, e), st) \<Rightarrow> turn_failed a runID i tu e st
     | (None, st) \<Rightarrow>
         let tu = tu\<lparr>tu_pending := [], tu_mark := None, tu_msgs := [], tu_steered := [],
                     tu_origin := None\<rparr>;
             st = (if o_has_recorder (a_opts a)
                   then st\<lparr>world := a_record a runID sent (rs_usage resp) (world st)\<rparr> else st) in
         (case turn_reply a runID resp (tu_gen tu) st of
            (Inl r, st) \<Rightarrow> (Inl r, st)
          | (Inr (), st) \<Rightarrow> (Inr tu, st)))"

definition turn_step ::
  "'w agent \<Rightarrow> string \<Rightarrow> prompt_section list \<Rightarrow> turn_state \<Rightarrow> 'w ast \<Rightarrow> (err option + turn_state) \<times> 'w ast" where
  "turn_step a runID prompt tu st =
    (let (tu, st) = deliver_steering a tu st in
     case lift_world (a_ctx_err a) st of
       (Some e, st) \<Rightarrow> turn_failed a runID 0 tu (ErrWrap ''run turn'' e) st
     | (None, st) \<Rightarrow>
         (case call a runID prompt False False (tu_gen tu) (tu_mark tu) st of
            (Inl e, gen, mark, st) \<Rightarrow> turn_failed a runID 0 (tu\<lparr>tu_gen := gen, tu_mark := mark\<rparr>) e st
          | (Inr (resp, sent), gen, mark, st) \<Rightarrow>
              turn_answered a runID resp sent (tu\<lparr>tu_gen := gen, tu_mark := mark\<rparr>) st))"

fun turn_loop ::
  "nat \<Rightarrow> 'w agent \<Rightarrow> string \<Rightarrow> prompt_section list \<Rightarrow> turn_state \<Rightarrow> 'w ast \<Rightarrow> (err option \<times> 'w ast) option" where
  "turn_loop 0 a runID prompt tu st = None"
| "turn_loop (Suc fuel) a runID prompt tu st =
    (case turn_step a runID prompt tu st of
       (Inl r, st) \<Rightarrow> Some (r, st)
     | (Inr tu, st) \<Rightarrow> turn_loop fuel a runID prompt tu st)"

definition turn_start :: "'w agent \<Rightarrow> message list \<Rightarrow> origin option \<Rightarrow> 'w ast \<Rightarrow> string \<times> turn_state \<times> 'w ast" where
  "turn_start a msgs orig st =
    (let (runID, st) = lift_world (a_run_id a) st;
         tu = \<lparr>tu_mark = None, tu_pending = [], tu_msgs = msgs, tu_steered = [], tu_origin = orig,
               tu_gen = no_generation\<rparr>;
         (tu, st) = fold addPending msgs (tu, st);
         texts = filter (\<lambda>t. t \<noteq> []) (map m_content msgs) in
     (runID, tu, emit a (EvTurnStart runID (a_session a) (a_workspace a) (join_str (nl @ nl) texts)
        (concat (map m_images msgs))) st))"

definition turn ::
  "nat \<Rightarrow> 'w agent \<Rightarrow> prompt_section list \<Rightarrow> message list \<Rightarrow> origin option \<Rightarrow> 'w ast
    \<Rightarrow> (err option \<times> 'w ast) option" where
  "turn fuel a prompt msgs orig st =
    (let (runID, tu, st) = turn_start a msgs orig st in turn_loop fuel a runID prompt tu st)"

section \<open>A run\<close>

definition close_run :: "'w agent \<Rightarrow> 'w ast \<Rightarrow> 'w ast" where
  "close_run a st = (let st = poll a st in st\<lparr>queues := closeQueues (queues st)\<rparr>)"

fun run_loop ::
  "nat \<Rightarrow> 'w agent \<Rightarrow> prompt_section list \<Rightarrow> message list \<Rightarrow> origin option \<Rightarrow> 'w ast
    \<Rightarrow> (err option \<times> 'w ast) option" where
  "run_loop 0 a prompt msgs orig st = None"
| "run_loop (Suc fuel) a prompt msgs orig st =
    (case turn (Suc fuel) a prompt msgs orig st of
       None \<Rightarrow> None
     | Some (Some e, st) \<Rightarrow> Some (Some e, close_run a st)
     | Some (None, st) \<Rightarrow>
         let st = poll a st;
             mode = (case o_queue (a_opts a) of Some m \<Rightarrow> m | None \<Rightarrow> QueueOneAtATime);
             ((msgs, orig), q) = nextQueued mode (queues st);
             st = st\<lparr>queues := q\<rparr> in
         if msgs = [] then Some (None, close_run a st)
         else run_loop fuel a prompt msgs orig st)"

definition Run :: "nat \<Rightarrow> 'w agent \<Rightarrow> message \<Rightarrow> 'w ast \<Rightarrow> (err option \<times> 'w ast) option" where
  "Run fuel a userMessage st =
    (case run_prompt a st of
       (Inl e, st) \<Rightarrow> Some (Some (ErrWrap ''run agent'' e), st)
     | (Inr prompt, st) \<Rightarrow>
         let st = st\<lparr>queues := (queues st)\<lparr>accepting := True\<rparr>\<rparr> in
         run_loop fuel a prompt (if Empty userMessage then [] else [userMessage]) None st)"

section \<open>Fuel\<close>

lemma turn_fuel_mono:
  "turn_loop f a runID prompt tu st = Some x \<Longrightarrow> f \<le> g \<Longrightarrow> turn_loop g a runID prompt tu st = Some x"
proof (induction f arbitrary: g tu st)
  case (Suc f)
  then obtain g' where "g = Suc g'" "f \<le> g'" by (cases g) auto
  with Suc show ?case by (auto split: prod.splits sum.splits)
qed simp

lemma turn_mono:
  "turn f a prompt msgs orig st = Some x \<Longrightarrow> f \<le> g \<Longrightarrow> turn g a prompt msgs orig st = Some x"
  by (auto simp: turn_def Let_def split: prod.splits intro: turn_fuel_mono)

lemma run_fuel_mono:
  "run_loop f a prompt msgs orig st = Some x \<Longrightarrow> f \<le> g \<Longrightarrow> run_loop g a prompt msgs orig st = Some x"
proof (induction f arbitrary: g msgs orig st)
  case (Suc f)
  then obtain g' where g: "g = Suc g'" "f \<le> g'" by (cases g) auto
  from Suc.prems(1) obtain y where "turn (Suc f) a prompt msgs orig st = Some y"
    by (auto split: option.splits)
  moreover from turn_mono [OF this] g have "turn (Suc g') a prompt msgs orig st = Some y" by simp
  ultimately show ?case
    using Suc.prems(1) Suc.IH [OF _ g(2)] g(1)
    by (auto simp: Let_def split: prod.splits option.splits if_splits)
qed simp

end
