(* ===== verification/Agent_Sync.thy ===== *)
theory Agent_Sync
  imports Agent_Loop
begin

text \<open>
  The conversation in memory and the messages in the store. The locale \<open>message_store\<close> is the
  contract of \<^verbatim>\<open>agent.Store\<close>: what the next \<^verbatim>\<open>Load\<close> reads (\<open>load\<close>) after an append or a compaction
  succeeded, and that a failed one changes nothing. Storing a message spells it anew (\<open>canon\<close>).
  Inside the locale every operation of the loop is shown to keep the two in step: what is stored is
  exactly the delivered part of the conversation, and the rest is the pending messages of the turn.
\<close>

section \<open>Operations that leave the conversation alone\<close>

context surroundings
begin

lemma same_dispatch: "dispatch a runID c st = (r, st') \<Longrightarrow> same st st'"
  by (auto simp: dispatch_def split: option.splits if_splits intro: same_ops)

lemma same_callTool: "callTool a runID c st = (r, st') \<Longrightarrow> same st st'"
  by (auto simp: callTool_def Let_def split: prod.splits sum.splits
      dest!: same_dispatch same_ops(6)) (blast intro: same_trans)+

end

interpretation quiet: surroundings a "\<lambda>_ _. True" for a :: "'w agent"
  by unfold_locales simp_all

lemma quiet_fields: "quiet.same st st' \<Longrightarrow> conv st' = conv st \<and> queues st' = queues st"
  by (simp add: quiet.same_def)

lemmas summarize_fields = quiet.same_summarize [THEN quiet_fields]
lemmas retrying_fields = quiet.same_retrying [THEN quiet_fields]

section \<open>What a compaction does to the conversation\<close>

text \<open>The cut: at least one message before it, at a message that is no tool result.\<close>

definition cut_at :: "message list \<Rightarrow> nat \<Rightarrow> nat \<Rightarrow> compaction \<Rightarrow> bool" where
  "cut_at msgs stored n c \<longleftrightarrow>
     (\<exists>first. 0 < first \<and> first < stored \<and> m_role (msgs ! first) \<noteq> RoleTool
        \<and> c_kept c = int (stored - first) \<and> n = Suc (stored - first))"

lemma compaction_of_cut:
  assumes "planCompaction msgs sizes stored keep = (plan, True)"
    and "compaction_of a base msgs stored plan reason before t u = (c, next)"
  shows "cut_at msgs stored (nat (c_kept c + 1)) c"
    and "next = Compacted (take stored msgs) c @ drop stored msgs"
proof -
  have f: "0 < pl_first plan" "pl_first plan < stored" "m_role (msgs ! pl_first plan) \<noteq> RoleTool"
    using planCompaction_progress [OF assms(1)] planCompaction_first [OF assms(1)] by simp_all
  have k: "c_kept c = int (stored - pl_first plan)"
    using assms(2) f(2) by (auto simp: compaction_of_def Let_def of_nat_diff)
  have "nat (c_kept c + 1) = Suc (stored - pl_first plan)" by (simp add: k)
  with f k show "cut_at msgs stored (nat (c_kept c + 1)) c" unfolding cut_at_def by blast
  show "next = Compacted (take stored msgs) c @ drop stored msgs"
    using assms(2) by (auto simp: compaction_of_def Let_def Compacted_def)
qed

text \<open>
  Every way \<^verbatim>\<open>compact\<close> can end: an error, with the conversation as it was, before or after the
  store was asked; or a cut, which the store has recorded when there is one.
\<close>

lemma compact_cases:
  assumes "compact a runID prompt stored reason i st = ((n, e), st')"
  obtains (unneeded) "e = Some ErrNothingToCompact" "n = stored" "st' = st"
  | (no_summary) r u sm m ev where "summarize a (agent_base (a_enc a) (a_opts a) prompt) (conv st) m i
        (emit a ev st) = (Inl r, u, sm)" "e \<noteq> None" "n = stored" "conv st' = conv sm" "queues st' = queues sm"
        "world st' = world sm"
  | (not_stored) t u sm m ev c f where "summarize a (agent_base (a_enc a) (a_opts a) prompt) (conv st) m i
        (emit a ev st) = (Inr t, u, sm)" "o_has_store (a_opts a)"
        "a_append_compaction a c (world sm) = (Some f, world st')" "e \<noteq> None" "n = stored"
        "conv st' = conv sm" "queues st' = queues sm"
  | (compacted) t u sm m ev c where "summarize a (agent_base (a_enc a) (a_opts a) prompt) (conv st) m i
        (emit a ev st) = (Inr t, u, sm)" "e = None" "cut_at (conv st) stored n c"
        "conv st' = Compacted (take stored (conv st)) c @ drop stored (conv st)"
        "if o_has_store (a_opts a) then a_append_compaction a c (world sm) = (None, world st')
         else world st' = world sm" "queues st' = queues sm"
proof -
  let ?base = "agent_base (a_enc a) (a_opts a) prompt"
  let ?sent = "WithMessages (a_enc a) (conv st) ?base"
  let ?before = "estimateContext ?sent (conv st)"
  let ?st = "emit a (EvCompactionStart runID reason ?before) st"
  obtain plan ok where p: "planCompaction (conv st) (x_message_sizes ?sent) stored
      (keepRecentTokens (o_compaction (a_opts a)) (o_context_window (a_opts a))) = (plan, ok)" by fastforce
  show ?thesis
  proof (cases ok)
    case False
    with assms p have "e = Some ErrNothingToCompact \<and> n = stored \<and> st' = st"
      by (auto simp: compact_def Let_def)
    then show ?thesis using unneeded by blast
  next
    case True
    obtain r u sm where s: "summarize a ?base (conv st) plan i ?st = (r, u, sm)" by (metis prod_cases3)
    show ?thesis
    proof (cases r)
      case (Inl x)
      then show ?thesis using assms p s True no_summary
        by (auto simp: compact_def compact_failed_def Let_def)
    next
      case (Inr t)
      obtain c nxt where c: "compaction_of a ?base (conv st) stored plan reason ?before t u = (c, nxt)"
        by fastforce
      note cut = compaction_of_cut [OF p [unfolded True [THEN eqTrueI]] c]
      obtain d sd where d: "(if o_has_store (a_opts a) then lift_world (a_append_compaction a c) sm
          else (None, sm)) = (d, sd)" by fastforce
      show ?thesis
      proof (cases d)
        case (Some f)
        then have "o_has_store (a_opts a)" "lift_world (a_append_compaction a c) sm = (Some f, sd)"
          using d by (simp_all split: if_splits)
        then show ?thesis using assms p s c d Inr True Some lift_worldD not_stored
          by (fastforce simp: compact_def compact_failed_def Let_def)
      next
        case None
        then have st': "n = nat (c_kept c + 1)" "e = None" "conv st' = nxt" "queues st' = queues sd"
          "world st' = world sd"
          using assms p s c d Inr True by (auto simp: compact_def conv_Replace_def Let_def)
        have "if o_has_store (a_opts a) then a_append_compaction a c (world sm) = (None, world sd)
            else world sd = world sm" "queues sd = queues sm"
          using d None by (auto split: if_splits dest: lift_worldD)
        then show ?thesis using compacted [OF s [unfolded Inr]] st' cut by simp
      qed
    qed
  qed
qed

lemma compact_conv:
  assumes "compact a runID prompt stored reason i st = ((n, e), st')"
  shows "queues st' = queues st"
    and "e \<noteq> None \<Longrightarrow> n = stored \<and> conv st' = conv st"
    and "e = None \<Longrightarrow> \<exists>c. cut_at (conv st) stored n c
          \<and> conv st' = Compacted (take stored (conv st)) c @ drop stored (conv st)"
proof -
  have "queues st' = queues st \<and> (e \<noteq> None \<longrightarrow> n = stored \<and> conv st' = conv st)
    \<and> (e = None \<longrightarrow> (\<exists>c. cut_at (conv st) stored n c
          \<and> conv st' = Compacted (take stored (conv st)) c @ drop stored (conv st)))"
    by (rule compact_cases [OF assms]) (auto dest: summarize_fields)
  then show "queues st' = queues st" "e \<noteq> None \<Longrightarrow> n = stored \<and> conv st' = conv st"
    "e = None \<Longrightarrow> \<exists>c. cut_at (conv st) stored n c
          \<and> conv st' = Compacted (take stored (conv st)) c @ drop stored (conv st)" by auto
qed

lemma cut_at_split:
  assumes "cut_at msgs stored n c" "stored \<le> length msgs"
  shows "length (Compacted (take stored msgs) c) = n" "n \<le> stored"
    and "take n (Compacted (take stored msgs) c @ drop stored msgs) = Compacted (take stored msgs) c"
    and "drop n (Compacted (take stored msgs) c @ drop stored msgs) = drop stored msgs"
proof -
  show l: "length (Compacted (take stored msgs) c) = n"
    using assms by (auto simp: cut_at_def Compacted_def Let_def)
  show "n \<le> stored" using assms by (auto simp: cut_at_def)
  show "take n (Compacted (take stored msgs) c @ drop stored msgs) = Compacted (take stored msgs) c"
    and "drop n (Compacted (take stored msgs) c @ drop stored msgs) = drop stored msgs"
    using l by simp_all
qed

section \<open>The rule of the model call\<close>

text \<open>
  What automatic compaction, the retries and the events between them keep, the call keeps; and a
  response answers the conversation as it is then, in a request that fits the window.
\<close>

definition answers ::
  "'w agent \<Rightarrow> string \<Rightarrow> prompt_section list \<Rightarrow> ('w ast \<Rightarrow> bool) \<Rightarrow> call_result \<Rightarrow> 'w ast \<Rightarrow> bool" where
  "answers a runID prompt Q r st \<longleftrightarrow>
    (\<forall>resp sent. r = Inr (resp, sent) \<longrightarrow>
      (let c = WithMessages (a_enc a) (conv st) (agent_base (a_enc a) (a_opts a) prompt) in
       fit c (estimateContext c (conv st)) (o_context_window (a_opts a)) = Inr sent)
      \<and> (\<exists>g s g'. Q s \<and> stream a runID (context_Request sent) g s = (Inr resp, g', st)))"

lemma answers_Inl [simp]: "answers a runID prompt Q (Inl e) st"
  by (simp add: answers_def)

lemma call_rule:
  assumes "call a runID prompt compacted recovered gen mark st = (r, gen', mark', st')"
    and compact: "\<And>mark st reason e mark' st'. P mark st \<Longrightarrow>
          autoCompact a runID prompt mark reason st = (e, mark', st') \<Longrightarrow> P mark' st'"
    and stream: "\<And>mark st req g x g' st'. P mark st \<Longrightarrow> stream a runID req g st = (x, g', st') \<Longrightarrow> P mark st'"
    and sleep: "\<And>mark st t c st'. P mark st \<Longrightarrow> lift_world (a_sleep a t) st = (c, st') \<Longrightarrow> P mark st'"
    and ctx: "\<And>mark st c st'. P mark st \<Longrightarrow> lift_world (a_ctx_err a) st = (c, st') \<Longrightarrow> P mark st'"
    and emit: "\<And>mark st e. P mark st \<Longrightarrow> P mark (emit a e st)"
    and start: "P mark st"
  shows "P mark' st' \<and> answers a runID prompt (\<lambda>s. \<exists>m. P m s) r st'"
  using assms(1) start
proof (induction "(if compacted then 0 else 1) + (if recovered then 0 else (1 :: nat))"
    arbitrary: compacted recovered gen mark st rule: less_induct)
  case less
  let ?sent = "WithMessages (a_enc a) (conv st) (agent_base (a_enc a) (a_opts a) prompt)"
  let ?tokens = "estimateContext ?sent (conv st)"
  show ?case
  proof (cases "\<not> compacted \<and> shouldCompact (a_opts a) ?tokens")
    case True
    obtain e m1 s1 where ac: "autoCompact a runID prompt mark CompactThreshold st = (e, m1, s1)"
      by (metis prod_cases3)
    note P1 = compact [OF less.prems(2) ac]
    obtain c s2 where c: "lift_world (a_ctx_err a) s1 = (c, s2)" by fastforce
    note P2 = ctx [OF P1 c]
    show ?thesis
    proof (cases "e = None \<or> c = None")
      case False
      then show ?thesis using less.prems(1) True ac c P2 by (subst (asm) call.simps) (auto simp: Let_def)
    next
      case goon: True
      then obtain s3 where "call a runID prompt True recovered gen m1 s3 = (r, gen', mark', st')" "P m1 s3"
        using less.prems(1) True ac c P1 P2
        by (subst (asm) call.simps) (auto simp: Let_def split: option.splits)
      then show ?thesis using less.hyps [of True recovered] True by (cases recovered) auto
    qed
  next
    case False
    show ?thesis
    proof (cases "fit ?sent ?tokens (o_context_window (a_opts a))")
      case (Inl e)
      then show ?thesis using less.prems False by (subst (asm) call.simps) (auto simp: Let_def)
    next
      case (Inr sent)
      obtain x g s1 where re: "retrying a runID True (stream a runID (context_Request sent)) 0
          (o_retry_backoff (a_opts a)) (Some gen) st = (x, g, s1)" by (metis prod_cases3)
      have "\<exists>m. P mark s1 \<and> 0 \<le> m \<and> m \<le> max 0 (o_max_retries (a_opts a))
          \<and> (\<forall>z. x = Inr z \<longrightarrow> (\<exists>g' s. P mark s \<and> stream a runID (context_Request sent) g' s = (Inr z, g, s1)))"
        by (rule retrying_rule [OF re, where P = "\<lambda>_ _. P mark"])
          (blast intro: stream ctx sleep emit less.prems(2))+
      then have P1: "P mark s1" and last: "x = Inr z \<Longrightarrow>
          \<exists>g' s. P mark s \<and> stream a runID (context_Request sent) g' s = (Inr z, g, s1)" for z by blast+
      obtain c s2 where c: "lift_world (a_ctx_err a) s1 = (c, s2)" by fastforce
      note P2 = ctx [OF P1 c]
      obtain e m3 s3 where ac: "autoCompact a runID prompt mark CompactOverflow
          (emit a (EvMessageReset runID) s2) = (e, m3, s3)" by (metis prod_cases3)
      note P3 = compact [OF emit [OF P2] ac]
      have st1: "answers a runID prompt (\<lambda>s. \<exists>m. P m s) (Inr (resp, sent)) s1" if "x = Inr resp" for resp
        using last [OF that] retrying_fields [OF re] Inr
        by (auto simp: answers_def Let_def)
      from less.prems(1) False Inr re c ac st1
      have "(mark' = mark \<and> (st' = s1 \<or> st' = s2) \<and> answers a runID prompt (\<lambda>s. \<exists>m. P m s) r st')
          \<or> (mark' = m3 \<and> st' = s3 \<and> answers a runID prompt (\<lambda>s. \<exists>m. P m s) r st')
          \<or> (\<not> recovered \<and> (\<exists>gen. call a runID prompt True True gen m3 s3 = (r, gen', mark', st')))"
        by (subst (asm) call.simps)
          (auto simp: Let_def split: option.splits sum.splits if_splits)
      then show ?thesis using P1 P2 P3 less.hyps [of True True] by auto
    qed
  qed
qed

lemmas call_keeps = call_rule [THEN conjunct1]

lemma call_answers:
  "call a runID prompt compacted recovered gen mark st = (r, gen', mark', st') \<Longrightarrow>
    answers a runID prompt (\<lambda>_. True) r st'"
  using call_rule [where P = "\<lambda>_ _. True", THEN conjunct2] by simp

lemma conv_Truncate_nat: "conv_Truncate (int n) c = take n c"
  by (simp add: conv_Truncate_take)

text \<open>Where the pending messages of a turn begin.\<close>

definition mark_at :: "nat option \<Rightarrow> 'w ast \<Rightarrow> nat" where
  "mark_at mark st = (case mark of Some k \<Rightarrow> k | None \<Rightarrow> length (conv st))"

lemma mark_at_simps [simp]:
  "mark_at (Some k) st = k" "mark_at None st = length (conv st)"
  by (simp_all add: mark_at_def)

lemma mark_at_cong: "conv st' = conv st \<Longrightarrow> mark_at mark st' = mark_at mark st"
  by (cases mark) simp_all

lemma mark_at_update [simp]:
  "mark_at mark (st\<lparr>queues := q\<rparr>) = mark_at mark st" "mark_at mark (st\<lparr>world := w\<rparr>) = mark_at mark st"
  "mark_at mark (emit a e st) = mark_at mark st"
  by (cases mark; simp)+

lemma autoCompact_compact:
  assumes "autoCompact a runID prompt mark reason st = (e, mark', st')"
  obtains n where "compact a runID prompt (mark_at mark st) reason [] st = ((n, e), st')"
    "mark' = (if e = None then map_option (\<lambda>_. n) mark else mark)"
  using assms by (auto simp: autoCompact_def mark_at_def split: prod.splits option.splits)

lemma agent_store_cases:
  assumes "agent_store a t m st = (e, st')"
  obtains (no_store) "\<not> o_has_store (a_opts a)" "e = None" "st' = st"
  | (stored) "o_has_store (a_opts a)" "e = None" "a_append a t m (world st) = (None, world st')"
      "conv st' = conv st" "queues st' = queues st"
  | (refused) f where "o_has_store (a_opts a)" "e \<noteq> None" "a_append a t m (world st) = (Some f, world st')"
      "conv st' = conv st" "queues st' = queues st"
proof (cases "o_has_store (a_opts a)")
  case False
  then show ?thesis using assms no_store by (simp add: agent_store_def)
next
  case True
  obtain r s1 where l: "lift_world (a_append a t m) st = (r, s1)" by fastforce
  then show ?thesis using assms True stored refused lift_worldD [OF l]
    by (cases r) (auto simp: agent_store_def)
qed

section \<open>The contract of the store\<close>

locale message_store = surroundings a "\<lambda>w w'. ok w \<longrightarrow> ok w' \<and> load w' = load w"
  for a :: "'w agent" and ok :: "'w \<Rightarrow> bool" and load :: "'w \<Rightarrow> message list" +
  fixes canon :: "message \<Rightarrow> message"
    and canon_text :: "string \<Rightarrow> string"
  assumes append_ok: "ok w \<Longrightarrow> a_append a terminal m w = (None, w') \<Longrightarrow>
          ok w' \<and> load w' = load w @ [canon m]"
    and append_failed: "ok w \<Longrightarrow> a_append a terminal m w = (Some e, w') \<Longrightarrow> ok w' \<and> load w' = load w"
    and compaction_ok: "ok w \<Longrightarrow> a_append_compaction a c w = (None, w') \<Longrightarrow>
          ok w' \<and> load w' = Compacted (load w) (c\<lparr>c_summary := canon_text (c_summary c)\<rparr>)"
    and compaction_failed: "ok w \<Longrightarrow> a_append_compaction a c w = (Some e, w') \<Longrightarrow>
          ok w' \<and> load w' = load w"
    and canon_summary: "canon (SummaryMessage s) = SummaryMessage (canon_text s)"
    and canon_unmeasured: "canon (m\<lparr>m_metrics := None\<rparr>) = (canon m)\<lparr>m_metrics := None\<rparr>"
begin

text \<open>The store holds the first \<open>n\<close> messages of the conversation.\<close>

definition synced :: "nat \<Rightarrow> 'w ast \<Rightarrow> bool" where
  "synced n st \<longleftrightarrow> ok (world st)
     \<and> (o_has_store (a_opts a) \<longrightarrow> load (world st) = map canon (take n (conv st)))"

lemma synced_same: "same st st' \<Longrightarrow> synced n st \<Longrightarrow> synced n st'"
  by (simp add: synced_def same_def)

lemma Compacted_canon:
  "Compacted (map canon ms) (c\<lparr>c_summary := canon_text (c_summary c)\<rparr>) = map canon (Compacted ms c)"
  by (simp add: Compacted_def Let_def canon_summary canon_unmeasured drop_map)

lemma compact_synced:
  assumes "compact a runID prompt stored reason i st = ((n, e), st')"
    and len: "stored \<le> length (conv st)" and sync: "synced stored st"
  shows "synced n st'"
  using assms(1)
proof (cases rule: compact_cases)
  case unneeded
  then show ?thesis using sync by simp
next
  case (no_summary r u sm m ev)
  then show ?thesis using sync same_summarize [OF no_summary(1)] by (simp add: synced_def same_def)
next
  case (not_stored t u sm m ev c f)
  then show ?thesis
    using sync same_summarize [OF not_stored(1)] compaction_failed [OF _ not_stored(3)]
    by (simp add: synced_def same_def)
next
  case (compacted t u sm m ev c)
  have "ok (world sm)" "load (world sm) = load (world st)"
    using same_summarize [OF compacted(1)] sync by (simp_all add: same_def synced_def)
  then show ?thesis
    using sync compacted compaction_ok [of "world sm" c "world st'"] cut_at_split(3) [OF compacted(3) len]
    by (auto simp: synced_def Compacted_canon split: if_splits)
qed

text \<open>The turn's view: \<open>k\<close> messages are stored, the rest of the conversation is \<open>pend\<close>.\<close>

definition held :: "message list \<Rightarrow> agent_queues \<Rightarrow> bool \<Rightarrow> nat option \<Rightarrow> 'w ast \<Rightarrow> bool" where
  "held pend q b mark st \<longleftrightarrow>
     mark_at mark st \<le> length (conv st) \<and> drop (mark_at mark st) (conv st) = pend
     \<and> synced (mark_at mark st) st \<and> queues st = q \<and> (mark = None) = b"

lemma held_same: "same st st' \<Longrightarrow> held pend q b mark st \<Longrightarrow> held pend q b mark st'"
  using mark_at_cong [of st' st mark] synced_same [of st st'] by (simp add: held_def) (simp add: same_def)

lemma held_emit [simp]: "held pend q b mark (emit a e st) = held pend q b mark st"
  by (simp add: held_def synced_def)

lemma held_autoCompact:
  assumes h: "held pend q b mark st" and "autoCompact a runID prompt mark reason st = (e, mark', st')"
  shows "held pend q b mark' st'"
proof -
  obtain n where c: "compact a runID prompt (mark_at mark st) reason [] st = ((n, e), st')"
    and m: "mark' = (if e = None then map_option (\<lambda>_. n) mark else mark)"
    using autoCompact_compact [OF assms(2)] .
  have len: "mark_at mark st \<le> length (conv st)" and sync: "synced (mark_at mark st) st"
    using h by (simp_all add: held_def)
  note s = compact_synced [OF c len sync]
  show ?thesis
  proof (cases e)
    case (Some x)
    then show ?thesis using compact_conv(1,2) [OF c] mark_at_cong [of st' st mark] m h s
      by (simp add: held_def)
  next
    case None
    then obtain k where cut: "cut_at (conv st) (mark_at mark st) n k"
      and cv: "conv st' = Compacted (take (mark_at mark st) (conv st)) k @ drop (mark_at mark st) (conv st)"
      using compact_conv(3) [OF c] by auto
    have "n \<le> length (conv st')" "drop n (conv st') = pend"
      using cut_at_split [OF cut len] cv h by (simp_all add: held_def)
    moreover have "mark_at mark' st' = n"
      using m None cut_at_split(1) [OF cut len] cv by (cases mark) auto
    ultimately show ?thesis using compact_conv(1) [OF c] h s m None by (auto simp: held_def)
  qed
qed

lemma held_call:
  assumes "call a runID prompt c r gen mark st = (x, gen', mark', st')" "held pend q b mark st"
  shows "held pend q b mark' st'"
proof (rule call_keeps [OF assms(1), where P = "held pend q b"])
  show "held pend q b mark st" by (rule assms(2))
qed (blast intro: held_autoCompact, rule held_same [OF same_stream], assumption+,
    rule held_same [OF same_ops(3)], assumption+, rule held_same [OF same_ops(2)], assumption+, simp)

text \<open>Between two model calls the whole conversation is stored.\<close>

abbreviation insync :: "'w ast \<Rightarrow> bool" where
  "insync st \<equiv> synced (length (conv st)) st"

lemma insync_same: "same st st' \<Longrightarrow> insync st \<Longrightarrow> insync st'"
  using synced_same [of st st' "length (conv st)"] by (simp add: same_def)

lemma synced_emit [simp]: "synced n (emit a e st) = synced n st"
  by (simp add: synced_def)

lemma insync_fail: "agent_fail a runID e st = (r, st') \<Longrightarrow> insync st \<Longrightarrow> insync st'"
  by (auto simp: agent_fail_def)

lemma store_synced:
  assumes "agent_store a t m st = (e, st')" "synced k st" "k < length (conv st)" "conv st ! k = m"
  shows "synced (if e = None then Suc k else k) st'"
  using assms(1)
proof (cases rule: agent_store_cases)
  case stored
  then show ?thesis using assms(2-4) append_ok [OF _ stored(3)] by (simp add: synced_def take_Suc_conv_app_nth)
next
  case (refused f)
  then show ?thesis using assms(2) append_failed [OF _ refused(3)] by (auto simp: synced_def)
qed (use assms(2) in \<open>simp add: synced_def\<close>)

lemma store_fields:
  "agent_store a t m st = (e, st') \<Longrightarrow> conv st' = conv st \<and> queues st' = queues st"
  by (erule agent_store_cases) auto

lemma append_insync:
  assumes "agent_append a t m st = (e, st')" "insync st"
  shows "insync st'"
proof -
  obtain f s1 where s: "agent_store a t m st = (f, s1)" by fastforce
  then have st': "st' = (if f = None then s1\<lparr>conv := conv s1 @ [m]\<rparr> else s1)"
    using assms(1) by (auto simp: agent_append_def conv_Append_def split: option.splits)
  show ?thesis using s
  proof (cases rule: agent_store_cases)
    case stored
    then show ?thesis using assms(2) st' append_ok [OF _ stored(3)] by (simp add: synced_def)
  next
    case (refused g)
    then show ?thesis using assms(2) st' append_failed [OF _ refused(3)] by (auto simp: synced_def)
  qed (use assms(2) st' in \<open>simp add: synced_def\<close>)
qed

lemma store_pending_synced:
  "store_pending a ms i st = (x, st') \<Longrightarrow> synced k st \<Longrightarrow> drop k (conv st) = ms \<Longrightarrow>
    k + length ms = length (conv st) \<Longrightarrow>
    conv st' = conv st \<and> queues st' = queues st \<and>
    (case x of None \<Rightarrow> insync st' | Some (j, e) \<Rightarrow> i \<le> j \<and> j < i + length ms \<and> synced (k + (j - i)) st')"
proof (induction ms arbitrary: i k st)
  case (Cons m ms)
  have k: "k < length (conv st)" "conv st ! k = m" "drop (Suc k) (conv st) = ms"
    using Cons.prems(3,4) by (auto simp: nth_via_drop drop_Suc simp flip: tl_drop)
  obtain e s1 where s: "agent_store a False m st = (e, s1)" by fastforce
  note sync = store_synced [OF s Cons.prems(2) k(1,2)] and f = store_fields [OF s]
  show ?case
  proof (cases e)
    case (Some x)
    then show ?thesis using Cons.prems(1) s sync f by auto
  next
    case None
    then have "store_pending a ms (Suc i) s1 = (x, st')" using Cons.prems(1) s by simp
    moreover have "synced (Suc k) s1" using sync None by simp
    moreover have "j < i + length (m # ms)" "synced (k + (j - i)) s"
      if "Suc i \<le> j" "j < Suc i + length ms" "synced (Suc k + (j - Suc i)) s" for j s
    proof -
      have eq: "Suc k + (j - Suc i) = k + (j - i)" using that(1) by simp
      show "synced (k + (j - i)) s" using that(3) by (simp only: eq)
    qed (use that in simp)
    ultimately show ?thesis using Cons.IH [of "Suc i" s1 "Suc k"] f k Cons.prems(4)
      by (fastforce split: option.splits)
  qed
qed (simp add: synced_def)

lemma abandon_insync:
  "abandonToolCalls a runID cs e j st = (r, st') \<Longrightarrow> insync st \<Longrightarrow> insync st'"
proof (induction cs arbitrary: j st)
  case (Cons c cs)
  then show ?case
    by (auto simp: Let_def split: prod.splits dest!: append_insync)
qed simp

lemma give_up_insync: "give_up a runID cs e st = (r, st') \<Longrightarrow> insync st \<Longrightarrow> insync st'"
  by (auto simp: give_up_def Let_def split: prod.splits dest!: abandon_insync insync_fail)

lemma run_calls_insync: "run_calls a runID cs st = (r, st') \<Longrightarrow> insync st \<Longrightarrow> insync st'"
proof (induction cs arbitrary: st)
  case (Cons c cs)
  then show ?case
    by (auto simp: appendTerminal_def split: prod.splits sum.splits option.splits
        dest!: give_up_insync append_insync same_callTool [THEN insync_same] same_ops(2) [THEN insync_same])
qed simp

lemma turn_reply_insync: "turn_reply a runID resp gen st = (r, st') \<Longrightarrow> insync st \<Longrightarrow> insync st'"
  by (auto simp: turn_reply_def Let_def split: prod.splits if_splits option.splits
      dest!: run_calls_insync append_insync)

text \<open>A turn in progress: the pending messages are the part of the conversation not yet stored.\<close>

definition turn_held :: "turn_state \<Rightarrow> 'w ast \<Rightarrow> bool" where
  "turn_held tu st \<longleftrightarrow>
     mark_at (tu_mark tu) st \<le> length (conv st)
     \<and> drop (mark_at (tu_mark tu) st) (conv st) = tu_pending tu
     \<and> synced (mark_at (tu_mark tu) st) st"

lemma turn_held_iff: "turn_held tu st = held (tu_pending tu) (queues st) (tu_mark tu = None) (tu_mark tu) st"
  by (simp add: turn_held_def held_def)

lemma turn_held_same: "same st st' \<Longrightarrow> turn_held tu st \<Longrightarrow> turn_held tu st'"
  using held_same [of st st'] by (simp add: turn_held_iff) (simp add: same_def)

lemma poll_conv: "conv (poll a st) = conv st"
  by (auto simp: poll_def Let_def split: prod.splits dest!: lift_worldD)

lemma synced_poll: "synced n st \<Longrightarrow> synced n (poll a st)"
  using keeps_incoming [of "world st"]
  by (auto simp: poll_def synced_def Let_def split: prod.splits dest!: lift_worldD)

lemma turn_held_poll: "turn_held tu st \<Longrightarrow> turn_held tu (poll a st)"
  using mark_at_cong [OF poll_conv, of "tu_mark tu" st] synced_poll [of _ st]
  by (simp add: turn_held_def poll_conv)

lemma addPending_held:
  assumes "turn_held tu st" "addPending m (tu, st) = (tu', st')"
  shows "turn_held tu' st'"
  using assms by (auto simp: addPending_def turn_held_def synced_def conv_Append_def Let_def split: option.splits)

lemma fold_addPending_held:
  "turn_held tu st \<Longrightarrow> fold addPending ms (tu, st) = (tu', st') \<Longrightarrow> turn_held tu' st'"
proof (induction ms arbitrary: tu st)
  case (Cons m ms)
  obtain tu1 st1 where ap: "addPending m (tu, st) = (tu1, st1)" by fastforce
  show ?case using Cons.IH [OF addPending_held [OF Cons.prems(1) ap]] Cons.prems(2) ap by simp
qed simp

lemma deliver_steering_held:
  assumes "turn_held tu st" "deliver_steering a tu st = (tu', st')"
  shows "turn_held tu' st'"
proof -
  obtain ms q tu1 where d: "drainSteering (queues (poll a st)) = (ms, q)"
    and f: "fold addPending ms (tu, (poll a st)\<lparr>queues := q\<rparr>) = (tu1, st')"
    and tu': "tu' = tu1\<lparr>tu_steered := tu_steered tu1 @ ms\<rparr>"
    using assms(2) by (auto simp: deliver_steering_def Let_def split: prod.splits)
  have "turn_held tu ((poll a st)\<lparr>queues := q\<rparr>)"
    using assms(1) turn_held_poll [of tu st] by (simp add: turn_held_def synced_def)
  from fold_addPending_held [OF this f] tu' show ?thesis by (simp add: turn_held_def)
qed

lemma restoreFrom_insync:
  assumes "synced (mark_at (tu_mark tu) st + stored) st"
    and "tu_mark tu = None \<Longrightarrow> stored = 0" "mark_at (tu_mark tu) st + stored \<le> length (conv st)"
  shows "insync (restoreFrom a stored tu st)"
proof -
  have "synced (mark_at (tu_mark tu) st + stored) (poll a st)"
    using assms(1) by (rule synced_poll)
  then show ?thesis
    using assms(2,3) poll_conv [of st]
    by (cases "tu_mark tu") (auto simp: restoreFrom_def synced_def conv_Truncate_nat Let_def simp del: of_nat_add)
qed

lemma turn_failed_insync:
  assumes "turn_failed a runID stored tu e st = (r, st')"
    and "synced (mark_at (tu_mark tu) st + stored) st"
    and "tu_mark tu = None \<Longrightarrow> stored = 0" "mark_at (tu_mark tu) st + stored \<le> length (conv st)"
  shows "insync st'"
  using assms(1) restoreFrom_insync [OF assms(2-4)]
  by (auto simp: turn_failed_def Let_def split: prod.splits dest!: insync_fail)

lemma turn_failed_result: "turn_failed a runID n tu e st = (r, st') \<Longrightarrow> r = Inl (Some e)"
  by (auto simp: turn_failed_def agent_fail_def Let_def)

lemma turn_answered_insync:
  assumes h: "turn_held tu st" and s: "turn_answered a runID resp sent tu st = (r, st')"
  shows "case r of Inl _ \<Rightarrow> insync st' | Inr tu' \<Rightarrow> turn_held tu' st'"
proof -
  obtain z s4 where sp: "store_pending a (tu_pending tu) 0 st = (z, s4)" by fastforce
  have k: "mark_at (tu_mark tu) st + length (tu_pending tu) = length (conv st)"
    using h length_drop [of "mark_at (tu_mark tu) st" "conv st"] by (simp add: turn_held_def)
  note p = store_pending_synced [OF sp _ _ k]
  show ?thesis
  proof (cases z)
    case (Some w)
    obtain i e where w: "w = (i, e)" by fastforce
    have "synced (mark_at (tu_mark tu) s4 + i) s4" "mark_at (tu_mark tu) s4 + i \<le> length (conv s4)"
      "i < length (tu_pending tu)"
      using p h Some w k mark_at_cong [of s4 st "tu_mark tu"] by (auto simp: turn_held_def)
    moreover have t: "turn_failed a runID i tu e s4 = (r, st')"
      using s sp Some w by (simp add: turn_answered_def)
    moreover have "tu_mark tu \<noteq> None" using h \<open>i < length (tu_pending tu)\<close>
      by (cases "tu_mark tu") (auto simp: turn_held_def)
    ultimately show ?thesis using turn_failed_insync [OF t] turn_failed_result [OF t] by auto
  next
    case None
    define s5 where "s5 = (if o_has_recorder (a_opts a)
        then s4\<lparr>world := a_record a runID sent (rs_usage resp) (world s4)\<rparr> else s4)"
    have "insync s4" using p h None by (auto simp: turn_held_def)
    then have i5: "insync s5" using keeps_record [of "world s4"] by (simp add: s5_def synced_def)
    obtain q s6 where tr: "turn_reply a runID resp (tu_gen tu) s5 = (q, s6)" by fastforce
    have "insync s6" by (rule turn_reply_insync [OF tr i5])
    moreover have "st' = s6 \<and> (\<forall>t. r = Inr t \<longrightarrow> tu_mark t = None \<and> tu_pending t = [])"
    proof -
      have "(case q of Inl x \<Rightarrow> (Inl x, s6) | Inr () \<Rightarrow> (Inr (tu\<lparr>tu_pending := [], tu_mark := None,
            tu_msgs := [], tu_steered := [], tu_origin := None\<rparr>), s6)) = (r, st')"
        using s tr by (simp add: turn_answered_def sp None Let_def s5_def [symmetric])
      then show ?thesis by (auto split: sum.splits unit.splits)
    qed
    ultimately show ?thesis by (cases r) (simp_all add: turn_held_def)
  qed
qed

lemma turn_step_insync:
  assumes h: "turn_held tu st" and s: "turn_step a runID prompt tu st = (r, st')"
  shows "case r of Inl _ \<Rightarrow> insync st' | Inr tu' \<Rightarrow> turn_held tu' st'"
proof -
  obtain tu1 s1 where d: "deliver_steering a tu st = (tu1, s1)" by fastforce
  obtain c s2 where c: "lift_world (a_ctx_err a) s1 = (c, s2)" by fastforce
  have h1: "turn_held tu1 s2"
    using deliver_steering_held [OF h d] turn_held_same [OF same_ops(2) [OF c]] by blast
  show ?thesis
  proof (cases c)
    case (Some e)
    then have t: "turn_failed a runID 0 tu1 (ErrWrap ''run turn'' e) s2 = (r, st')"
      using s d c by (simp add: turn_step_def)
    show ?thesis using turn_failed_result [OF t] turn_failed_insync [OF t] h1 by (auto simp: turn_held_def)
  next
    case None
    obtain x gen mark s3 where ca: "call a runID prompt False False (tu_gen tu1) (tu_mark tu1) s2
        = (x, gen, mark, s3)" by (metis prod_cases4)
    let ?tu = "tu1\<lparr>tu_gen := gen, tu_mark := mark\<rparr>"
    have "held (tu_pending tu1) (queues s2) (tu_mark tu1 = None) mark s3"
      using held_call [OF ca] h1 by (simp add: turn_held_iff)
    then have h3: "turn_held ?tu s3" by (simp add: turn_held_def held_def)
    show ?thesis
    proof (cases x)
      case (Inl e)
      then have t: "turn_failed a runID 0 ?tu e s3 = (r, st')"
        using s d c None ca by (simp add: turn_step_def Let_def)
      show ?thesis using turn_failed_result [OF t] turn_failed_insync [OF t] h3 by (simp add: turn_held_def)
    next
      case (Inr y)
      then show ?thesis using turn_answered_insync [OF h3] s d c None ca
        by (cases y) (simp add: turn_step_def Let_def)
    qed
  qed
qed

lemma turn_loop_insync:
  "turn_loop fuel a runID prompt tu st = Some (e, st') \<Longrightarrow> turn_held tu st \<Longrightarrow> insync st'"
proof (induction fuel arbitrary: tu st)
  case (Suc fuel)
  obtain r s1 where t: "turn_step a runID prompt tu st = (r, s1)" by fastforce
  from turn_step_insync [OF Suc.prems(2) t] Suc.prems(1) Suc.IH t show ?case
    by (auto split: sum.splits)
qed simp

lemma turn_insync:
  assumes "turn fuel a prompt msgs orig st = Some (e, st')" "insync st"
  shows "insync st'"
proof -
  obtain runID s1 tu s2 where r: "lift_world (a_run_id a) st = (runID, s1)"
    and f: "fold addPending msgs (\<lparr>tu_mark = None, tu_pending = [], tu_msgs = msgs, tu_steered = [],
        tu_origin = orig, tu_gen = no_generation\<rparr>, s1) = (tu, s2)" by (metis surj_pair)
  have "insync s1" using insync_same [OF same_ops(5) [OF r] assms(2)] .
  then have "turn_held tu s2" using fold_addPending_held [OF _ f] by (simp add: turn_held_def)
  then have "turn_held tu (emit a ev s2)" for ev by (simp add: turn_held_def)
  then show ?thesis
    using assms(1) r f turn_loop_insync by (auto simp: turn_def turn_start_def Let_def)
qed

lemma close_run_insync: "insync st \<Longrightarrow> insync (close_run a st)"
  using synced_poll [of "length (conv st)" st] by (simp add: close_run_def synced_def poll_conv Let_def)

lemma run_loop_insync:
  "run_loop fuel a prompt msgs orig st = Some (e, st') \<Longrightarrow> insync st \<Longrightarrow> insync st'"
proof (induction fuel arbitrary: msgs orig st)
  case (Suc fuel)
  obtain x where t: "turn (Suc fuel) a prompt msgs orig st = Some x"
    using Suc.prems(1) by (auto split: option.splits)
  obtain f s1 where x: "x = (f, s1)" by fastforce
  have i: "insync s1" using turn_insync t x Suc.prems(2) by blast
  have "insync ((poll a s1)\<lparr>queues := q\<rparr>)" for q using synced_poll [OF i] by (simp add: synced_def poll_conv)
  then show ?case using Suc.prems(1) t x i close_run_insync Suc.IH
    by (auto simp: Let_def split: option.splits prod.splits if_splits)
qed simp

lemma Run_insync:
  assumes "Run fuel a m st = Some (e, st')" "insync st"
  shows "insync st'"
proof -
  obtain r s1 where p: "run_prompt a st = (r, s1)" by fastforce
  have "insync s1" by (rule insync_same [OF same_run_prompt [OF p] assms(2)])
  moreover from this have "insync (s1\<lparr>queues := q\<rparr>)" for q by (simp add: synced_def)
  ultimately show ?thesis using assms(1) p run_loop_insync
    by (auto simp: Run_def Let_def split: sum.splits)
qed

lemma Compact_insync:
  assumes "Compact a i st = (e, st')" "insync st"
  shows "insync st'"
proof -
  obtain runID s1 where r: "lift_world (a_run_id a) st = (runID, s1)" by fastforce
  obtain p s2 where p: "run_prompt a s1 = (p, s2)" by fastforce
  have i2: "insync s2"
    by (rule insync_same [OF same_run_prompt [OF p] insync_same [OF same_ops(5) [OF r] assms(2)]])
  show ?thesis
  proof (cases p)
    case (Inl f)
    then show ?thesis using assms(1) r p i2 by (auto simp: Compact_def Let_def dest: insync_fail)
  next
    case (Inr prompt)
    obtain n f s3 where c: "compact a runID prompt (length (conv s2)) CompactManual i s2 = ((n, f), s3)"
      by (metis surj_pair)
    have "insync s3"
      using compact_synced [OF c order_refl i2] compact_conv [OF c] cut_at_split
      by (cases f) fastforce+
    then show ?thesis using assms(1) r p Inr c by (simp add: Compact_def Let_def)
  qed
qed

end

end
