(* ===== verification/Agent_Shape.thy ===== *)
theory Agent_Shape
  imports Agent_Sync
begin

text \<open>
  The shape of a conversation an endpoint accepts: every tool call is answered, by results that
  directly follow it, before anything else is said. \<open>answered\<close> checks it. The locale
  \<open>terminal_store\<close> states what the loop relies on to keep the shape whatever goes wrong: the store
  takes the results written for abandoned tool calls, on the context that no cancellation reaches,
  and the queues hold user messages. Everything else may fail at any point. \<open>debt\<close> is what the
  stored path leaves unanswered, so the same induction shows that a run leaves the path resumable.
\<close>

section \<open>Answered conversations\<close>

fun scan_calls :: "string list \<Rightarrow> message list \<Rightarrow> string list option" where
  "scan_calls pend [] = Some pend"
| "scan_calls pend (m # ms) =
    (if m_role m = RoleTool then
       (if m_tool_call_id m \<in> set pend then scan_calls (remove1 (m_tool_call_id m) pend) ms else None)
     else if pend = [] then scan_calls (map tc_id (m_tool_calls m)) ms
     else None)"

definition answered :: "message list \<Rightarrow> bool" where
  "answered ms \<longleftrightarrow> scan_calls [] ms = Some []"

definition plain :: "message \<Rightarrow> bool" where
  "plain m \<longleftrightarrow> m_role m = RoleUser \<and> m_tool_calls m = []"

lemma answered_Nil [simp]: "answered []"
  by (simp add: answered_def)

lemma scan_append: "scan_calls p (xs @ ys) = Option.bind (scan_calls p xs) (\<lambda>q. scan_calls q ys)"
  by (induction p xs rule: scan_calls.induct) auto

lemma scan_plain: "list_all plain ys \<Longrightarrow> scan_calls [] ys = Some []"
  by (induction ys) (auto simp: plain_def)

lemma answered_append_plain: "answered xs \<Longrightarrow> list_all plain ys \<Longrightarrow> answered (xs @ ys)"
  by (simp add: answered_def scan_append scan_plain)

lemma answered_snoc: "answered xs \<Longrightarrow> plain m \<Longrightarrow> answered (xs @ [m])"
  by (rule answered_append_plain) simp_all

lemma scan_unmeasured: "scan_calls p (map (\<lambda>m. m\<lparr>m_metrics := None\<rparr>) ms) = scan_calls p ms"
  by (induction p ms rule: scan_calls.induct) auto

lemma scan_prepare: "scan_calls p (map (prepare q) ms) = scan_calls p ms"
  by (induction p ms rule: scan_calls.induct) auto

text \<open>At a message that is no tool result nothing is pending, so a conversation can be cut there.\<close>

lemma answered_cut:
  assumes "answered ms" "n < length ms" "m_role (ms ! n) \<noteq> RoleTool"
  shows "answered (take n ms)" "answered (drop n ms)"
proof -
  have ms: "ms = take n ms @ ms ! n # drop (Suc n) ms" by (rule id_take_nth_drop [OF assms(2)])
  obtain q where q: "scan_calls [] (take n ms) = Some q"
      and r: "scan_calls q (ms ! n # drop (Suc n) ms) = Some []"
    using assms(1) unfolding answered_def by (subst (asm) ms) (auto simp: scan_append bind_eq_Some_conv)
  from r assms(3) have "q = []" by (auto split: if_splits)
  with q r show "answered (take n ms)" "answered (drop n ms)"
    by (simp_all add: answered_def Cons_nth_drop_Suc [OF assms(2), symmetric] del: scan_calls.simps)
qed

lemma answered_Compacted:
  assumes "answered (take stored msgs)" "cut_at msgs stored n c" "stored \<le> length msgs"
  shows "answered (Compacted (take stored msgs) c)"
proof -
  obtain first where f: "first < stored" "m_role (msgs ! first) \<noteq> RoleTool"
      "c_kept c = int (stored - first)"
    using assms(2) by (auto simp: cut_at_def)
  then have "answered (drop first (take stored msgs))"
    using answered_cut(2) [OF assms(1), of first] assms(3) by simp
  moreover have "Compacted (take stored msgs) c = SummaryMessage (c_summary c)
      # map (\<lambda>m. m\<lparr>m_metrics := None\<rparr>) (drop first (take stored msgs))"
    by (rule Compacted_kept) (use f assms(3) in simp_all)
  ultimately show ?thesis by (simp add: answered_def scan_unmeasured)
qed

text \<open>What a compaction asks the model about is a whole number of answered calls, too.\<close>

lemma answered_summary_prefix:
  assumes "answered msgs" "planCompaction msgs sizes (length msgs) keep = (p, True)"
  shows "answered (take (historyEnd p) msgs)" "answered (take (pl_first p) msgs)"
proof -
  note f = planCompaction_first [OF assms(2)]
  show "answered (take (pl_first p) msgs)" by (rule answered_cut(1) [OF assms(1) f(2,3)])
  show "answered (take (historyEnd p) msgs)"
  proof (cases "pl_turn_start p")
    case None
    then show ?thesis using answered_cut(1) [OF assms(1) f(2,3)] by (simp add: historyEnd_def)
  next
    case (Some t)
    then show ?thesis using answered_cut(1) [OF assms(1), of t] planCompaction_turn [OF assms(2) Some] f(2)
      by (simp add: historyEnd_def)
  qed
qed

section \<open>The contract\<close>

definition plain_queues :: "agent_queues \<Rightarrow> bool" where
  "plain_queues q \<longleftrightarrow> list_all plain (q_messages (steering q)) \<and> list_all plain (q_messages (followUps q))"

lemma plain_unshift_to:
  "plain_queues q \<Longrightarrow> list_all plain ms \<Longrightarrow> plain_queues (unshift_to orig ms q)"
  by (auto simp: plain_queues_def queue_defs split: option.splits origin.splits)

fun incoming_message :: "incoming \<Rightarrow> message" where
  "incoming_message (InSteer m) = m"
| "incoming_message (InFollowUp m) = m"

lemma plain_accept_all:
  "plain_queues q \<Longrightarrow> list_all (plain \<circ> incoming_message) xs \<Longrightarrow> plain_queues (accept_all xs q)"
proof (induction xs arbitrary: q)
  case (Cons x xs)
  then have "plain_queues (accept x q)" by (cases x) (auto simp: plain_queues_def queue_defs)
  with Cons show ?case by (simp add: accept_all_def)
qed (simp add: accept_all_def)

lemma plain_nextQueued:
  assumes "plain_queues q" "nextQueued mode q = ((ms, orig), q')"
  shows "list_all plain ms \<and> plain_queues q'"
proof -
  have "list_all plain (ms @ q_messages (followUps q')) \<or> ms = q_messages (steering q) \<and> followUps q' = followUps q"
    "q_messages (steering q') = []"
    using assms(1) nextQueued_cases [OF assms(2)] by (auto simp: plain_queues_def simp del: list_all_append)
  then show ?thesis using assms(1) by (auto simp: plain_queues_def)
qed

text \<open>What a stored message does to the tool calls the stored path leaves unanswered.\<close>

definition owe :: "(string \<Rightarrow> string) \<Rightarrow> message \<Rightarrow> string list \<Rightarrow> string list" where
  "owe spell m p =
    (if m_tool_calls m \<noteq> [] then p @ map (spell \<circ> tc_id) (m_tool_calls m)
     else if m_role m \<noteq> RoleTool then p
     else remove1 (spell (m_tool_call_id m)) p)"

lemma owe_plain [simp]: "plain m \<Longrightarrow> owe spell m p = p"
  by (simp add: plain_def owe_def)

locale terminal_store = surroundings a "\<lambda>w w'. ok w \<longrightarrow> ok w' \<and> debt w' = debt w"
  for a :: "'w agent" and ok :: "'w \<Rightarrow> bool" and debt :: "'w \<Rightarrow> string list" +
  fixes spell :: "string \<Rightarrow> string"
  assumes append_debt: "ok w \<Longrightarrow> a_append a terminal m w = (None, w') \<Longrightarrow> ok w' \<and> debt w' = owe spell m (debt w)"
    and append_failed: "ok w \<Longrightarrow> a_append a terminal m w = (Some e, w') \<Longrightarrow> ok w' \<and> debt w' = debt w"
    and compaction_debt: "ok w \<Longrightarrow> a_append_compaction a c w = (r, w') \<Longrightarrow> ok w' \<and> debt w' = debt w"
    and abandoned_stored: "ok w \<Longrightarrow> fst (a_append a True (abandoned tc cause) w) = None"
    and incoming_plain: "ok w \<Longrightarrow> list_all (plain \<circ> incoming_message) (fst (a_incoming a w))"
begin

text \<open>A usable store whose path owes the results of the calls \<open>cs\<close>.\<close>

definition owes :: "string list \<Rightarrow> 'w \<Rightarrow> bool" where
  "owes ids w \<longleftrightarrow> ok w \<and> (o_has_store (a_opts a) \<longrightarrow> debt w = map spell ids)"

lemma owes_same: "same st st' \<Longrightarrow> owes ids (world st) \<Longrightarrow> owes ids (world st')"
  by (simp add: owes_def same_def)

lemma owes_compaction_entry:
  "a_append_compaction a c w = (r, w') \<Longrightarrow> owes ids w \<Longrightarrow> owes ids w'"
  using compaction_debt [of w c r w'] by (simp add: owes_def)

lemma owes_summarize:
  "summarize a base msgs m i (emit a ev st) = (r, u, sm) \<Longrightarrow> owes ids (world st) \<Longrightarrow> owes ids (world sm)"
  using owes_same [OF same_summarize] by simp

lemma owes_compact:
  assumes "compact a runID prompt stored reason i st = ((n, e), st')" "owes ids (world st)"
  shows "owes ids (world st')"
  using assms(1)
proof (cases rule: compact_cases)
  case (compacted t u sm m ev c)
  show ?thesis
    using compacted(5) owes_summarize [OF compacted(1) assms(2)] owes_compaction_entry
    by (cases "o_has_store (a_opts a)") simp_all
next
  case (not_stored t u sm m ev c f)
  show ?thesis by (rule owes_compaction_entry [OF not_stored(3) owes_summarize [OF not_stored(1) assms(2)]])
next
  case (no_summary r u sm m ev)
  then show ?thesis using owes_summarize [OF no_summary(1) assms(2)] by simp
qed (use assms(2) in simp)

lemma owes_store:
  assumes "agent_store a t m st = (e, st')" "owes ids (world st)"
    and "e = None \<Longrightarrow> map spell ids' = owe spell m (map spell ids)" "e \<noteq> None \<Longrightarrow> ids' = ids"
  shows "owes ids' (world st')"
  using assms(1)
proof (cases rule: agent_store_cases)
  case stored
  then show ?thesis using assms(2,3) append_debt [OF _ stored(3)] by (simp add: owes_def)
next
  case (refused f)
  then have "ids' = ids" using assms(4) by simp
  then show ?thesis using refused(1) assms(2) append_failed [OF _ refused(3)] by (simp add: owes_def)
qed (use assms(2) in \<open>simp add: owes_def\<close>)

section \<open>A turn keeps the shape\<close>

text \<open>While tool calls are run, exactly the calls not yet run are unanswered.\<close>

definition owing :: "tool_call list \<Rightarrow> 'w ast \<Rightarrow> bool" where
  "owing cs st \<longleftrightarrow> scan_calls [] (conv st) = Some (map tc_id cs) \<and> owes (map tc_id cs) (world st)"

lemma owing_Nil: "owing [] st = (answered (conv st) \<and> owes [] (world st))"
  by (simp add: owing_def answered_def)

lemma owing_same: "same st st' \<Longrightarrow> owing cs st \<Longrightarrow> owing cs st'"
  using owes_same [of st st'] by (simp add: owing_def same_def)

lemma owing_emit [simp]: "owing cs (emit a e st) = owing cs st"
  by (simp add: owing_def)

lemma append_store:
  assumes "agent_append a t m st = (e, st')"
  obtains s1 where "agent_store a t m st = (e, s1)" "conv st' = (if e = None then conv st @ [m] else conv st)"
    "queues st' = queues st" "world st' = world s1"
proof -
  obtain f s1 where s: "agent_store a t m st = (f, s1)" by fastforce
  then have "e = f" "st' = (if f = None then s1\<lparr>conv := conv s1 @ [m]\<rparr> else s1)"
    using assms by (auto simp: agent_append_def conv_Append_def split: option.splits)
  moreover have "conv s1 = conv st" "queues s1 = queues st" using s by (auto elim: agent_store_cases)
  ultimately show ?thesis using that s by simp
qed

lemma owing_answer:
  assumes "owing (c # cs) st" "agent_append a t (ToolResultMessage (tc_id c) text b) st = (e, st')"
  shows "if e = None then owing cs st' else owing (c # cs) st'" "queues st' = queues st"
proof -
  obtain s1 where s: "agent_store a t (ToolResultMessage (tc_id c) text b) st = (e, s1)"
    "conv st' = (if e = None then conv st @ [ToolResultMessage (tc_id c) text b] else conv st)"
    "queues st' = queues st" "world st' = world s1"
    using append_store [OF assms(2)] .
  show "queues st' = queues st" by (rule s(3))
  have "owes (map tc_id (if e = None then cs else c # cs)) (world s1)"
    using assms(1) by (intro owes_store [OF s(1), where ids = "map tc_id (c # cs)"])
      (auto simp: owing_def owe_def message_defs)
  then show "if e = None then owing cs st' else owing (c # cs) st'"
    using assms(1) s by (auto simp: owing_def scan_append message_defs)
qed

lemma append_abandoned:
  assumes "agent_append a True (abandoned c cause) st = (e, st')" "ok (world st)"
  shows "e = None"
proof (rule append_store [OF assms(1)])
  fix s1 assume "agent_store a True (abandoned c cause) st = (e, s1)"
  then show "e = None" using abandoned_stored [OF assms(2), of c cause] by (auto elim: agent_store_cases)
qed

lemma abandon_answered:
  "abandonToolCalls a runID cs e j st = (r, st') \<Longrightarrow> owing cs st \<Longrightarrow>
    owing [] st' \<and> queues st' = queues st"
proof (induction cs arbitrary: j st)
  case (Cons c cs)
  obtain x s1 where a1: "agent_append a True (abandoned c e)
      (emit a (EvToolResult runID (tc_id c) (tc_name c) (m_content (abandoned c e)) True [] 0) st) = (x, s1)"
    by fastforce
  have "ok (world st)" using Cons.prems(2) by (simp add: owing_def owes_def)
  then have "x = None" using append_abandoned [OF a1] by simp
  then have o1: "owing cs s1" "queues s1 = queues st"
    using owing_answer [OF _ a1 [unfolded abandoned_def]] Cons.prems(2) by simp_all
  from Cons.IH [OF _ o1(1)] Cons.prems(1) a1 o1(2) show ?case by (simp add: Let_def)
qed simp

lemma give_up_answered:
  "give_up a runID cs e st = (r, st') \<Longrightarrow> owing cs st \<Longrightarrow> owing [] st' \<and> queues st' = queues st"
  by (auto simp: give_up_def agent_fail_def Let_def split: prod.splits dest!: abandon_answered)

lemma callTool_result:
  "callTool a runID c st = (Inr m, st') \<Longrightarrow> \<exists>text b. m = ToolResultMessage (tc_id c) text b"
  by (auto simp: callTool_def Let_def split: prod.splits sum.splits)

lemma run_calls_answered:
  "run_calls a runID cs st = (r, st') \<Longrightarrow> owing cs st \<Longrightarrow> owing [] st' \<and> queues st' = queues st"
proof (induction cs arbitrary: st)
  case (Cons c cs)
  obtain x s1 where c1: "lift_world (a_ctx_err a) st = (x, s1)" by fastforce
  have s1: "owing (c # cs) s1" "queues s1 = queues st"
    using owing_same [OF same_ops(2) [OF c1] Cons.prems(2)] same_ops(2) [OF c1] by (auto simp: same_def)
  show ?case
  proof (cases x)
    case (Some e)
    then show ?thesis using Cons.prems(1) c1 s1 give_up_answered by fastforce
  next
    case None
    obtain y s2 where c2: "callTool a runID c s1 = (y, s2)" by fastforce
    have s2: "owing (c # cs) s2" "queues s2 = queues st"
      using owing_same [OF same_callTool [OF c2] s1(1)] same_callTool [OF c2] s1(2) by (auto simp: same_def)
    show ?thesis
    proof (cases y)
      case (Inl e)
      then show ?thesis using Cons.prems(1) c1 None c2 s2 give_up_answered by fastforce
    next
      case (Inr m)
      then obtain s b where m: "m = ToolResultMessage (tc_id c) s b" using callTool_result c2 by blast
      obtain z s3 where c3: "agent_append a True m s2 = (z, s3)" by fastforce
      note o3 = owing_answer(1) [OF s2(1) c3 [unfolded m]] and q3 = owing_answer(2) [OF s2(1) c3 [unfolded m]]
      show ?thesis
      proof (cases z)
        case None2: None
        then have "run_calls a runID cs s3 = (r, st')"
          using Cons.prems(1) c1 None c2 Inr c3 by (simp add: appendTerminal_def)
        then show ?thesis using Cons.IH o3 q3 s2(2) None2 by simp
      next
        case (Some e)
        then have "give_up a runID (c # cs) e s3 = (r, st')"
          using Cons.prems(1) c1 None c2 Inr c3 by (simp add: appendTerminal_def)
        then show ?thesis using give_up_answered o3 q3 s2(2) Some by fastforce
      qed
    qed
  qed
qed simp

lemma turn_reply_answered:
  assumes "turn_reply a runID resp gen st = (r, st')" "owing [] st" "m_role (rs_message resp) = RoleAssistant"
  shows "owing [] st' \<and> queues st' = queues st"
proof -
  let ?m = "with_metrics a runID gen (rs_message resp)"
  have m: "m_role ?m = RoleAssistant" using assms(3) by (simp add: with_metrics_def)
  obtain e s1 where e: "(if empty_reply ?m then (None, st)
      else agent_append a (m_tool_calls ?m \<noteq> []) ?m st) = (e, s1)" by fastforce
  have s1: "queues s1 = queues st" "e \<noteq> None \<Longrightarrow> owing [] s1" "e = None \<Longrightarrow> owing (m_tool_calls ?m) s1"
  proof -
    have "queues s1 = queues st \<and> (if e = None then owing (m_tool_calls ?m) s1 else owing [] s1)"
    proof (cases "empty_reply ?m")
      case True
      then show ?thesis using e assms(2) by (auto simp: empty_reply_def)
    next
      case False
      then have ap: "agent_append a (m_tool_calls ?m \<noteq> []) ?m st = (e, s1)" using e by simp
      obtain s2 where s: "agent_store a (m_tool_calls ?m \<noteq> []) ?m st = (e, s2)"
        "conv s1 = (if e = None then conv st @ [?m] else conv st)" "queues s1 = queues st" "world s1 = world s2"
        using append_store [OF ap] .
      have "owes (map tc_id (if e = None then m_tool_calls ?m else [])) (world s2)"
        using assms(2) m by (intro owes_store [OF s(1), where ids = "[]"]) (auto simp: owing_def owe_def)
      then show ?thesis using assms(2) m s by (auto simp: owing_def scan_append)
    qed
    then show "queues s1 = queues st" "e \<noteq> None \<Longrightarrow> owing [] s1" "e = None \<Longrightarrow> owing (m_tool_calls ?m) s1"
      by auto
  qed
  show ?thesis
  proof (cases e)
    case (Some f)
    then show ?thesis using assms(1) e s1 by (simp add: turn_reply_def Let_def)
  next
    case None
    show ?thesis
    proof (cases "m_tool_calls ?m = []")
      case True
      then show ?thesis using assms(1) e s1 None by (auto simp: turn_reply_def Let_def)
    next
      case False
      obtain f s2 where f: "run_calls a runID (m_tool_calls ?m) s1 = (f, s2)" by fastforce
      have "st' = s2" using assms(1) e None False f
        by (auto simp: turn_reply_def Let_def split: option.splits)
      then show ?thesis using run_calls_answered [OF f] s1 None by simp
    qed
  qed
qed

text \<open>A turn in progress: what is stored is answered, what is pending is user messages.\<close>

definition settled :: "message list \<Rightarrow> agent_queues \<Rightarrow> bool \<Rightarrow> nat option \<Rightarrow> 'w ast \<Rightarrow> bool" where
  "settled pend q b mark st \<longleftrightarrow>
     mark_at mark st \<le> length (conv st) \<and> drop (mark_at mark st) (conv st) = pend
     \<and> answered (take (mark_at mark st) (conv st)) \<and> owes [] (world st) \<and> queues st = q \<and> (mark = None) = b"

lemma settled_same: "same st st' \<Longrightarrow> settled pend q b mark st \<Longrightarrow> settled pend q b mark st'"
  using mark_at_cong [of st' st mark] owes_same [of st st'] by (simp add: settled_def same_def)

lemma settled_emit [simp]: "settled pend q b mark (emit a e st) = settled pend q b mark st"
  by (simp add: settled_def)

lemma settled_autoCompact:
  assumes h: "settled pend q b mark st" and "autoCompact a runID prompt mark reason st = (e, mark', st')"
  shows "settled pend q b mark' st'"
proof -
  obtain n where c: "compact a runID prompt (mark_at mark st) reason [] st = ((n, e), st')"
    and m: "mark' = (if e = None then map_option (\<lambda>_. n) mark else mark)"
    using autoCompact_compact [OF assms(2)] .
  have len: "mark_at mark st \<le> length (conv st)" and an: "answered (take (mark_at mark st) (conv st))"
    and k: "owes [] (world st')"
    using h owes_compact [OF c] by (simp_all add: settled_def)
  show ?thesis
  proof (cases e)
    case (Some x)
    then show ?thesis using compact_conv(1,2) [OF c] mark_at_cong [of st' st mark] m h k
      by (simp add: settled_def)
  next
    case None
    then obtain z where cut: "cut_at (conv st) (mark_at mark st) n z"
      and cv: "conv st' = Compacted (take (mark_at mark st) (conv st)) z @ drop (mark_at mark st) (conv st)"
      using compact_conv(3) [OF c] by auto
    have "n \<le> length (conv st')" "drop n (conv st') = pend" "answered (take n (conv st'))"
      using cut_at_split [OF cut len] cv h answered_Compacted [OF an cut len] by (simp_all add: settled_def)
    moreover have "mark_at mark' st' = n"
      using m None cut_at_split(1) [OF cut len] cv by (cases mark) auto
    ultimately show ?thesis using compact_conv(1) [OF c] h k m None by (auto simp: settled_def)
  qed
qed

lemma settled_call:
  assumes "call a runID prompt c r gen mark st = (x, gen', mark', st')" "settled pend q b mark st"
  shows "settled pend q b mark' st'"
proof (rule call_keeps [OF assms(1), where P = "settled pend q b"])
  show "settled pend q b mark st" by (rule assms(2))
qed (blast intro: settled_autoCompact, rule settled_same [OF same_stream], assumption+,
    rule settled_same [OF same_ops(3)], assumption+, rule settled_same [OF same_ops(2)], assumption+, simp)

definition turn_shaped :: "turn_state \<Rightarrow> 'w ast \<Rightarrow> bool" where
  "turn_shaped tu st \<longleftrightarrow>
     settled (tu_pending tu) (queues st) (tu_mark tu = None) (tu_mark tu) st
     \<and> list_all plain (tu_pending tu) \<and> list_all plain (tu_msgs tu) \<and> list_all plain (tu_steered tu)
     \<and> plain_queues (queues st)"

lemma turn_shaped_same: "same st st' \<Longrightarrow> turn_shaped tu st \<Longrightarrow> turn_shaped tu st'"
  using settled_same [of st st'] by (auto simp: turn_shaped_def same_def)

text \<open>Between two turns.\<close>

definition resting :: "'w ast \<Rightarrow> bool" where
  "resting st \<longleftrightarrow> owing [] st \<and> plain_queues (queues st)"

lemma poll_shape:
  "conv (poll a st) = conv st" "owes ids (world st) \<Longrightarrow> owes ids (world (poll a st))"
  "owes ids (world st) \<Longrightarrow> plain_queues (queues st) \<Longrightarrow> plain_queues (queues (poll a st))"
  using keeps_incoming [of "world st"] incoming_plain [of "world st"]
  by (auto simp: poll_def owes_def Let_def plain_accept_all split: prod.splits dest!: lift_worldD)

lemma turn_shaped_poll: "turn_shaped tu st \<Longrightarrow> turn_shaped tu (poll a st)"
  using mark_at_cong [of "poll a st" st "tu_mark tu"]
    poll_shape [where st = st]
  by (simp add: turn_shaped_def settled_def) blast

lemma addPending_shaped:
  assumes "turn_shaped tu st" "addPending m (tu, st) = (tu', st')" "plain m"
  shows "turn_shaped tu' st'" "tu_steered tu' = tu_steered tu" "tu_msgs tu' = tu_msgs tu"
    "tu_origin tu' = tu_origin tu"
  using assms by (auto simp: addPending_def turn_shaped_def settled_def conv_Append_def Let_def split: option.splits)

lemma fold_addPending_shaped:
  "turn_shaped tu st \<Longrightarrow> fold addPending ms (tu, st) = (tu', st') \<Longrightarrow> list_all plain ms \<Longrightarrow>
    turn_shaped tu' st' \<and> tu_steered tu' = tu_steered tu"
proof (induction ms arbitrary: tu st)
  case (Cons m ms)
  obtain tu1 st1 where ap: "addPending m (tu, st) = (tu1, st1)" by fastforce
  show ?case using Cons.IH [OF addPending_shaped(1) [OF Cons.prems(1) ap]] Cons.prems(2,3) ap
      addPending_shaped(2) [OF Cons.prems(1) ap] by simp
qed simp

lemma deliver_steering_shaped:
  assumes "turn_shaped tu st" "deliver_steering a tu st = (tu', st')"
  shows "turn_shaped tu' st'"
proof -
  obtain ms q tu1 where d: "drainSteering (queues (poll a st)) = (ms, q)"
    and f: "fold addPending ms (tu, (poll a st)\<lparr>queues := q\<rparr>) = (tu1, st')"
    and tu': "tu' = tu1\<lparr>tu_steered := tu_steered tu1 @ ms\<rparr>"
    using assms(2) by (auto simp: deliver_steering_def Let_def split: prod.splits)
  have p: "turn_shaped tu (poll a st)" by (rule turn_shaped_poll [OF assms(1)])
  then have ms: "list_all plain ms" "plain_queues q"
    using d by (auto simp: turn_shaped_def plain_queues_def queue_defs)
  then have "turn_shaped tu ((poll a st)\<lparr>queues := q\<rparr>)"
    using p by (simp add: turn_shaped_def settled_def)
  from fold_addPending_shaped [OF this f ms(1)] tu' ms show ?thesis
    by (auto simp: turn_shaped_def)
qed

lemma list_all_drop: "list_all P xs \<Longrightarrow> list_all P (drop n xs)"
  by (auto simp: list_all_iff dest: in_set_dropD)

lemma list_all_take: "list_all P xs \<Longrightarrow> list_all P (take n xs)"
  by (auto simp: list_all_iff dest: in_set_takeD)

lemma restoreFrom_resting:
  assumes "turn_shaped tu st" "stored \<le> length (tu_pending tu)"
  shows "resting (restoreFrom a stored tu st)"
proof -
  let ?k = "mark_at (tu_mark tu) st" and ?p = "poll a st"
  have p: "turn_shaped tu ?p" by (rule turn_shaped_poll [OF assms(1)])
  have "conv st = take ?k (conv st) @ tu_pending tu"
    using assms(1) append_take_drop_id [of ?k "conv st"] by (simp add: turn_shaped_def settled_def)
  then have t: "take (?k + stored) (conv st) = take ?k (conv st) @ take stored (tu_pending tu)"
    using assms(1) by (simp add: turn_shaped_def settled_def take_add)
  have "answered (take (?k + stored) (conv st))"
    using assms(1) unfolding t by (auto simp: turn_shaped_def settled_def intro!: answered_append_plain list_all_take)
  then have "answered (conv (restoreFrom a stored tu st))"
    using assms poll_shape(1) [of st]
    by (cases "tu_mark tu") (auto simp: restoreFrom_def turn_shaped_def settled_def conv_Truncate_nat Let_def
        simp del: of_nat_add)
  moreover have "owes [] (world (restoreFrom a stored tu st))"
    using p by (auto simp: restoreFrom_def turn_shaped_def settled_def Let_def split: option.splits)
  moreover have "plain_queues (queues (restoreFrom a stored tu st))"
    using p by (auto simp: restoreFrom_def turn_shaped_def Let_def intro!: plain_unshift_to list_all_drop
        split: option.splits)
  ultimately show ?thesis by (simp add: resting_def owing_Nil)
qed

lemma turn_failed_resting:
  assumes "turn_failed a runID stored tu e st = (r, st')" "turn_shaped tu st" "stored \<le> length (tu_pending tu)"
  shows "resting st'"
  using assms(1) restoreFrom_resting [OF assms(2,3)]
  by (auto simp: turn_failed_def agent_fail_def resting_def Let_def)

lemma store_pending_shape:
  "store_pending a ms i st = (x, st') \<Longrightarrow> owes [] (world st) \<Longrightarrow> list_all plain ms \<Longrightarrow>
    conv st' = conv st \<and> queues st' = queues st \<and> owes [] (world st')
    \<and> (\<forall>j e. x = Some (j, e) \<longrightarrow> j < i + length ms)"
proof (induction ms arbitrary: i st)
  case (Cons m ms)
  obtain e s1 where s: "agent_store a False m st = (e, s1)" by fastforce
  have f: "conv s1 = conv st" "queues s1 = queues st" using s by (auto elim: agent_store_cases)
  have w: "owes [] (world s1)" using Cons.prems(2,3) by (intro owes_store [OF s, where ids = "[]"]) auto
  show ?case
  proof (cases e)
    case None
    then show ?thesis using Cons.IH [of "Suc i" s1] Cons.prems(1,3) s f w by auto
  qed (use Cons.prems(1) s f w in auto)
qed auto

lemma turn_answered_shaped:
  assumes h: "turn_shaped tu st" and s: "turn_answered a runID resp sent tu st = (r, st')"
    and m: "m_role (rs_message resp) = RoleAssistant"
  shows "case r of Inl _ \<Rightarrow> resting st' | Inr tu' \<Rightarrow> turn_shaped tu' st'"
proof -
  obtain z s4 where sp: "store_pending a (tu_pending tu) 0 st = (z, s4)" by fastforce
  have "owes [] (world st)" "list_all plain (tu_pending tu)" using h by (simp_all add: turn_shaped_def settled_def)
  note p = store_pending_shape [OF sp this]
  have h4: "turn_shaped tu s4"
    using h p mark_at_cong [of s4 st "tu_mark tu"] by (simp add: turn_shaped_def settled_def)
  show ?thesis
  proof (cases z)
    case (Some w)
    obtain i e where w: "w = (i, e)" by fastforce
    have t: "turn_failed a runID i tu e s4 = (r, st')" using s sp Some w by (simp add: turn_answered_def)
    then have "r = Inl (Some e)" by (auto simp: turn_failed_def agent_fail_def Let_def)
    then show ?thesis using turn_failed_resting [OF t h4] p Some w by simp
  next
    case None
    define s5 where "s5 = (if o_has_recorder (a_opts a)
        then s4\<lparr>world := a_record a runID sent (rs_usage resp) (world s4)\<rparr> else s4)"
    have f5: "conv s5 = conv s4" "queues s5 = queues s4" "owes [] (world s5)"
      using p keeps_record [of "world s4"] by (simp_all add: s5_def owes_def)
    have "conv s4 = take (mark_at (tu_mark tu) s4) (conv s4) @ tu_pending tu"
      using h4 append_take_drop_id [of "mark_at (tu_mark tu) s4" "conv s4"]
      by (simp add: turn_shaped_def settled_def)
    moreover have "answered (take (mark_at (tu_mark tu) s4) (conv s4) @ tu_pending tu)"
      using h4 by (simp add: turn_shaped_def settled_def answered_append_plain)
    ultimately have "owing [] s5" using f5 by (simp add: owing_Nil)
    moreover obtain q s6 where tr: "turn_reply a runID resp (tu_gen tu) s5 = (q, s6)" by fastforce
    ultimately have r6: "owing [] s6" "queues s6 = queues st"
      using turn_reply_answered [OF tr _ m] f5 p by simp_all
    have "(case q of Inl x \<Rightarrow> (Inl x, s6) | Inr () \<Rightarrow> (Inr (tu\<lparr>tu_pending := [], tu_mark := None,
          tu_msgs := [], tu_steered := [], tu_origin := None\<rparr>), s6)) = (r, st')"
      using s tr by (simp add: turn_answered_def sp None Let_def s5_def [symmetric])
    then show ?thesis using r6 h
      by (auto simp: turn_shaped_def settled_def resting_def owing_Nil split: sum.splits unit.splits)
  qed
qed

lemma turn_step_shaped:
  assumes h: "turn_shaped tu st" and s: "turn_step a runID prompt tu st = (r, st')"
  shows "case r of Inl _ \<Rightarrow> resting st' | Inr tu' \<Rightarrow> turn_shaped tu' st'"
proof -
  obtain tu1 s1 where d: "deliver_steering a tu st = (tu1, s1)" by fastforce
  obtain c s2 where c: "lift_world (a_ctx_err a) s1 = (c, s2)" by fastforce
  have h1: "turn_shaped tu1 s2"
    using turn_shaped_same [OF same_ops(2) [OF c] deliver_steering_shaped [OF h d]] .
  have failed: "case r of Inl _ \<Rightarrow> resting st' | Inr tu' \<Rightarrow> turn_shaped tu' st'"
    if t: "turn_failed a runID 0 tu e s = (r, st')" and "turn_shaped tu s" for tu e s
  proof -
    have "r = Inl (Some e)" using t by (auto simp: turn_failed_def agent_fail_def Let_def)
    then show ?thesis using turn_failed_resting [OF that] by simp
  qed
  show ?thesis
  proof (cases c)
    case (Some e)
    then have "turn_failed a runID 0 tu1 (ErrWrap ''run turn'' e) s2 = (r, st')"
      using s d c by (simp add: turn_step_def)
    then show ?thesis using failed h1 by blast
  next
    case None
    obtain x gen mark s3 where ca: "call a runID prompt False False (tu_gen tu1) (tu_mark tu1) s2
        = (x, gen, mark, s3)" by (metis prod_cases4)
    let ?tu = "tu1\<lparr>tu_gen := gen, tu_mark := mark\<rparr>"
    have "settled (tu_pending tu1) (queues s2) (tu_mark tu1 = None) mark s3"
      using settled_call [OF ca] h1 by (simp add: turn_shaped_def)
    then have h3: "turn_shaped ?tu s3" using h1 by (simp add: turn_shaped_def settled_def)
    show ?thesis
    proof (cases x)
      case (Inl e)
      then have "turn_failed a runID 0 ?tu e s3 = (r, st')"
        using s d c None ca by (simp add: turn_step_def Let_def)
      then show ?thesis using failed h3 by blast
    next
      case (Inr y)
      then obtain resp sent where y: "y = (resp, sent)" by (cases y)
      have "m_role (rs_message resp) = RoleAssistant"
        using call_answers [OF ca] Inr y stream_reply(1) by (fastforce simp: answers_def)
      then show ?thesis using turn_answered_shaped [OF h3] s d c None ca Inr y
        by (simp add: turn_step_def Let_def)
    qed
  qed
qed

lemma turn_loop_shaped:
  "turn_loop fuel a runID prompt tu st = Some (e, st') \<Longrightarrow> turn_shaped tu st \<Longrightarrow> resting st'"
proof (induction fuel arbitrary: tu st)
  case (Suc fuel)
  obtain r s1 where t: "turn_step a runID prompt tu st = (r, s1)" by fastforce
  from turn_step_shaped [OF Suc.prems(2) t] Suc.prems(1) Suc.IH t show ?case
    by (auto split: sum.splits)
qed simp

lemma turn_resting:
  assumes "turn fuel a prompt msgs orig st = Some (e, st')" "resting st" "list_all plain msgs"
  shows "resting st'"
proof -
  obtain runID s1 tu s2 where r: "lift_world (a_run_id a) st = (runID, s1)"
    and f: "fold addPending msgs (\<lparr>tu_mark = None, tu_pending = [], tu_msgs = msgs, tu_steered = [],
        tu_origin = orig, tu_gen = no_generation\<rparr>, s1) = (tu, s2)" by (metis surj_pair)
  have "resting s1" using same_ops(5) [OF r] owing_same assms(2) by (auto simp: resting_def same_def)
  then have "turn_shaped tu s2"
    using fold_addPending_shaped [OF _ f assms(3)] assms(3)
    by (simp add: turn_shaped_def settled_def resting_def owing_Nil)
  then have "turn_shaped tu (emit a ev s2)" for ev by (simp add: turn_shaped_def)
  then show ?thesis
    using assms(1) r f turn_loop_shaped by (auto simp: turn_def turn_start_def Let_def)
qed

lemma close_run_resting: "resting st \<Longrightarrow> resting (close_run a st)"
  using poll_shape(1) [of st] poll_shape(2,3) [where st = st and ids = "[]"]
  by (simp add: close_run_def resting_def owing_def plain_queues_def queue_defs Let_def)

lemma run_loop_resting:
  "run_loop fuel a prompt msgs orig st = Some (e, st') \<Longrightarrow> resting st \<Longrightarrow> list_all plain msgs \<Longrightarrow> resting st'"
proof (induction fuel arbitrary: msgs orig st)
  case (Suc fuel)
  obtain f s1 where t: "turn (Suc fuel) a prompt msgs orig st = Some (f, s1)"
    using Suc.prems(1) by (auto split: option.splits)
  have i: "resting s1" using turn_resting [OF t Suc.prems(2,3)] .
  show ?case
  proof (cases f)
    case (Some e)
    then show ?thesis using Suc.prems(1) t i close_run_resting by auto
  next
    case None
    obtain ms o1 q where n: "nextQueued (case o_queue (a_opts a) of Some m \<Rightarrow> m | None \<Rightarrow> QueueOneAtATime)
        (queues (poll a s1)) = ((ms, o1), q)" by (metis prod_cases3 surj_pair)
    have p: "plain_queues (queues (poll a s1))" "owing [] (poll a s1)"
      using i poll_shape [where st = s1] by (auto simp: resting_def owing_def)
    have "resting ((poll a s1)\<lparr>queues := q\<rparr>)" "list_all plain ms"
      using plain_nextQueued [OF p(1) n] p(2) by (simp_all add: resting_def owing_def)
    then show ?thesis using Suc.prems(1) t None n close_run_resting Suc.IH
      by (auto simp: Let_def split: if_splits)
  qed
qed simp

lemma Run_resting:
  assumes "Run fuel a m st = Some (e, st')" "resting st" "plain m"
  shows "resting st'"
proof -
  obtain r s1 where p: "run_prompt a st = (r, s1)" by fastforce
  have "resting s1"
    using same_run_prompt [OF p] owing_same [OF same_run_prompt [OF p]] assms(2) by (auto simp: resting_def same_def)
  moreover from this have "resting (s1\<lparr>queues := (queues s1)\<lparr>accepting := True\<rparr>\<rparr>)"
    by (simp add: resting_def owing_def plain_queues_def)
  ultimately show ?thesis using assms(1,3) p run_loop_resting
    by (auto simp: Run_def Let_def split: sum.splits if_splits)
qed

end

end
