(* ===== verification/Session_Store.thy ===== *)
theory Session_Store
  imports Compaction "HOL-Library.Product_Lexorder"
begin

text \<open>
  \<^verbatim>\<open>internal/store/entries.go\<close> and \<^verbatim>\<open>sessions.go\<close>: sessions, the tree of entries each holds, the
  operations on them and the queries. The two tables are lists of rows, newest first; the SQL is
  written out as what it selects, inserts and updates, with the constraints of the schema (primary
  keys, foreign keys, the order of \<open>seq\<close>) as the failing branches. The record \<open>pg\<close> holds what the
  database does to a document it stores: the respelling of \<^verbatim>\<open>jsonb\<close>, the documents it refuses, and
  whether the workspace and the profile a session names exist. Fresh ids and times are arguments.
\<close>

section \<open>Rows\<close>

datatype entry_kind =
  KindUser | KindAssistant | KindToolCall | KindToolResult | KindSystem | KindEvent | KindCompaction

text \<open>
  A payload by the document it is: a message, a compaction, an object with none of their fields
  (its \<^verbatim>\<open>text\<close> member and its spelling), another JSON value, or no bytes at all.
\<close>

record wire_message =
  wm_message :: message
  wm_calls :: "wire_call list"

datatype payload =
    PMessage wire_message
  | PCompaction compaction
  | PObject string string
  | PValue string
  | PNone

record entry =
  e_id :: string
  e_session :: string
  e_parent :: string
  e_seq :: int
  e_kind :: entry_kind
  e_payload :: payload
  e_commit :: string
  e_created :: int

datatype session_kind = SessionUser | SessionFork | SessionAgent

record session =
  s_id :: string
  s_workspace :: string
  s_title :: string
  s_untitled :: bool
  s_session_kind :: "session_kind option"
  s_head :: string
  s_parent :: string
  s_tools :: "string list option"
  s_profile :: string
  s_overrides :: string
  s_pinned :: bool
  s_archived :: bool
  s_created :: int
  s_updated :: int

definition Chat :: "session \<Rightarrow> bool" where
  "Chat s \<longleftrightarrow> s_workspace s = []"

record db =
  d_sessions :: "session list"
  d_entries :: "entry list"

record pg =
  pg_jsonb :: "string \<Rightarrow> string"
  pg_refuses :: "payload \<Rightarrow> err option"
  pg_refs :: "session \<Rightarrow> bool"

definition respell_payload :: "pg \<Rightarrow> payload \<Rightarrow> payload" where
  "respell_payload p d =
    (case d of
       PMessage w \<Rightarrow>
         PMessage (w\<lparr>wm_calls := map (\<lambda>c. c\<lparr>wc_arguments := respell (pg_jsonb p) (wc_arguments c)\<rparr>) (wm_calls w)\<rparr>)
     | PCompaction c \<Rightarrow> PCompaction c
     | PObject t raw \<Rightarrow> PObject t (pg_jsonb p raw)
     | PValue raw \<Rightarrow> PValue (pg_jsonb p raw)
     | PNone \<Rightarrow> PNone)"

definition ForeignKeyViolation :: err where
  "ForeignKeyViolation = ErrText ''insert or update on table violates foreign key constraint''"

definition wrap_err :: "string \<Rightarrow> err \<Rightarrow> err" where
  "wrap_err op e = ErrWrap op e"

definition wrapMissing :: "string \<Rightarrow> err \<Rightarrow> err" where
  "wrapMissing op e = (if e = ForeignKeyViolation then ErrWrap op (ErrWrap ''missing'' ErrNotFound) else wrap_err op e)"

section \<open>Lookups\<close>

definition find_session :: "string \<Rightarrow> db \<Rightarrow> session option" where
  "find_session sid d = List.find (\<lambda>s. s_id s = sid) (d_sessions d)"

definition find_entry :: "string \<Rightarrow> entry list \<Rightarrow> entry option" where
  "find_entry eid es = List.find (\<lambda>e. e_id e = eid) es"

definition Session :: "string \<Rightarrow> db \<Rightarrow> err + session" where
  "Session sid d =
    (case find_session sid d of None \<Rightarrow> Inl (wrap_err (''read session '' @ sid) ErrNotFound) | Some s \<Rightarrow> Inr s)"

definition Entry :: "string \<Rightarrow> db \<Rightarrow> err + entry" where
  "Entry eid d =
    (case find_entry eid (d_entries d) of
       None \<Rightarrow> Inl (wrap_err (''read entry '' @ eid) ErrNotFound) | Some e \<Rightarrow> Inr e)"

definition entryOfSession :: "string \<Rightarrow> string \<Rightarrow> db \<Rightarrow> err + entry" where
  "entryOfSession sid eid d =
    (case find_entry eid (d_entries d) of
       Some e \<Rightarrow> if e_session e = sid then Inr e
                 else Inl (wrap_err (''read entry '' @ eid @ '' of session '' @ sid) ErrNotFound)
     | None \<Rightarrow> Inl (wrap_err (''read entry '' @ eid @ '' of session '' @ sid) ErrNotFound))"

definition Entries :: "string \<Rightarrow> db \<Rightarrow> entry list" where
  "Entries sid d = sort_key e_seq (filter (\<lambda>e. e_session e = sid) (d_entries d))"

definition ChildEntries :: "string \<Rightarrow> string \<Rightarrow> db \<Rightarrow> entry list" where
  "ChildEntries sid eid d =
     sort_key e_seq (filter (\<lambda>e. e_session e = sid \<and> e_parent e = eid) (d_entries d))"

text \<open>
  \<^verbatim>\<open>pathQuery\<close>: the recursive part joins the row whose id is the parent of the last one found. The
  recursion ends at a root; as many steps as there are rows are enough, since no row is met twice.
\<close>

fun walk_up :: "nat \<Rightarrow> entry list \<Rightarrow> string \<Rightarrow> entry list" where
  "walk_up 0 es eid = []"
| "walk_up (Suc n) es eid =
    (case find_entry eid es of
       None \<Rightarrow> []
     | Some e \<Rightarrow> e # (if e_parent e = [] then [] else walk_up n es (e_parent e)))"

definition pathQuery :: "string \<Rightarrow> entry list \<Rightarrow> entry list" where
  "pathQuery eid es = sort_key e_seq (walk_up (length es) es eid)"

definition EntryPath :: "string \<Rightarrow> string \<Rightarrow> db \<Rightarrow> err + entry list" where
  "EntryPath sid eid d =
    (case entryOfSession sid eid d of
       Inl e \<Rightarrow> Inl e
     | Inr _ \<Rightarrow> Inr (pathQuery eid (d_entries d)))"

definition SessionPath :: "string \<Rightarrow> db \<Rightarrow> err + entry list" where
  "SessionPath sid d =
    (case Session sid d of
       Inl e \<Rightarrow> Inl e
     | Inr s \<Rightarrow> if s_head s = [] then Inr [] else Inr (pathQuery (s_head s) (d_entries d)))"

section \<open>Writing\<close>

definition update_session :: "string \<Rightarrow> (session \<Rightarrow> session) \<Rightarrow> db \<Rightarrow> db" where
  "update_session sid f d = d\<lparr>d_sessions := map (\<lambda>s. if s_id s = sid then f s else s) (d_sessions d)\<rparr>"

definition next_seq :: "string \<Rightarrow> entry list \<Rightarrow> int" where
  "next_seq sid es =
    (case map e_seq (filter (\<lambda>e. e_session e = sid) es) of
       [] \<Rightarrow> 0 | x # xs \<Rightarrow> fold max xs x) + 1"

definition insertEntry ::
  "pg \<Rightarrow> string \<Rightarrow> int \<Rightarrow> string \<Rightarrow> string \<Rightarrow> entry \<Rightarrow> db \<Rightarrow> err + entry \<times> db" where
  "insertEntry p newID now sid parentID e d =
    (let payload = (if e_payload e = PNone then PObject [] ''{}'' else e_payload e) in
     case pg_refuses p payload of
       Some f \<Rightarrow> Inl f
     | None \<Rightarrow>
         if find_entry newID (d_entries d) \<noteq> None then Inl ErrConflict
         else if find_session sid d = None
             \<or> (parentID \<noteq> [] \<and> find_entry parentID (d_entries d) = None) then Inl ForeignKeyViolation
         else
           let row = \<lparr>e_id = newID, e_session = sid, e_parent = parentID,
                      e_seq = next_seq sid (d_entries d), e_kind = e_kind e,
                      e_payload = respell_payload p payload, e_commit = e_commit e, e_created = now\<rparr> in
           Inr (row, d\<lparr>d_entries := row # d_entries d\<rparr>))"

definition lockSessionHead :: "string \<Rightarrow> db \<Rightarrow> err + string" where
  "lockSessionHead sid d =
    (case find_session sid d of None \<Rightarrow> Inl ErrNotFound | Some s \<Rightarrow> Inr (s_head s))"

definition setHead :: "int \<Rightarrow> string \<Rightarrow> string \<Rightarrow> db \<Rightarrow> err + db" where
  "setHead now sid eid d =
    (if find_session sid d = None then Inl ErrNotFound
     else Inr (update_session sid (\<lambda>s. s\<lparr>s_head := eid, s_updated := now\<rparr>) d))"

definition AppendEntry :: "pg \<Rightarrow> string \<Rightarrow> int \<Rightarrow> string \<Rightarrow> entry \<Rightarrow> db \<Rightarrow> err + entry \<times> db" where
  "AppendEntry p newID now sid e d =
    (let op = ''append entry to session '' @ sid in
     case lockSessionHead sid d of
       Inl f \<Rightarrow> Inl (wrap_err op f)
     | Inr head \<Rightarrow>
         (case insertEntry p newID now sid head e d of
            Inl f \<Rightarrow> Inl (wrap_err op f)
          | Inr (out, d) \<Rightarrow>
              (case setHead now sid (e_id out) d of
                 Inl f \<Rightarrow> Inl (wrap_err op f)
               | Inr d \<Rightarrow> Inr (out, d))))"

definition SetSessionHead :: "int \<Rightarrow> string \<Rightarrow> string \<Rightarrow> db \<Rightarrow> err + db" where
  "SetSessionHead now sid eid d =
    (if find_session sid d \<noteq> None
        \<and> (eid = [] \<or> list_ex (\<lambda>e. e_id e = eid \<and> e_session e = sid) (d_entries d))
     then Inr (update_session sid (\<lambda>s. s\<lparr>s_head := eid, s_updated := now\<rparr>) d)
     else Inl (wrap_err (''set head of session '' @ sid) ErrNotFound))"

definition createSession :: "pg \<Rightarrow> string \<Rightarrow> int \<Rightarrow> session \<Rightarrow> db \<Rightarrow> err + session \<times> db" where
  "createSession p newID now sess d =
    (let sess = (if s_id sess = [] then sess\<lparr>s_id := newID\<rparr> else sess);
         sess = (if s_session_kind sess = None then sess\<lparr>s_session_kind := Some SessionUser\<rparr> else sess);
         row = sess\<lparr>s_created := now, s_updated := now\<rparr> in
     if find_session (s_id row) d \<noteq> None then Inl ErrConflict
     else if \<not> pg_refs p row \<or> (s_parent row \<noteq> [] \<and> find_session (s_parent row) d = None)
       then Inl ForeignKeyViolation
     else Inr (row, d\<lparr>d_sessions := row # d_sessions d\<rparr>))"

definition CreateSession :: "pg \<Rightarrow> string \<Rightarrow> int \<Rightarrow> session \<Rightarrow> db \<Rightarrow> err + session \<times> db" where
  "CreateSession p newID now sess d =
    (case createSession p newID now sess d of
       Inl e \<Rightarrow> Inl (wrapMissing ''create session'' e) | Inr r \<Rightarrow> Inr r)"

record fork_options =
  fo_title :: string
  fo_workspace :: string

definition cmp_or :: "string \<Rightarrow> string \<Rightarrow> string" where
  "cmp_or x y = (if x \<noteq> [] then x else y)"

text \<open>The copying loop: each copy hangs off the one before. The ids are the fresh ids in order.\<close>

fun copy_path ::
  "pg \<Rightarrow> string list \<Rightarrow> int \<Rightarrow> string \<Rightarrow> string \<Rightarrow> entry list \<Rightarrow> db \<Rightarrow> err + string \<times> db" where
  "copy_path p ids now sid parent [] d = Inr (parent, d)"
| "copy_path p [] now sid parent (e # es) d = Inl ErrConflict"
| "copy_path p (i # ids) now sid parent (e # es) d =
    (case insertEntry p i now sid parent e d of
       Inl f \<Rightarrow> Inl f
     | Inr (copied, d) \<Rightarrow> copy_path p ids now sid (e_id copied) es d)"

definition fork_row :: "string \<Rightarrow> fork_options \<Rightarrow> session \<Rightarrow> session" where
  "fork_row sid opts src =
    \<lparr>s_id = [], s_workspace = cmp_or (fo_workspace opts) (s_workspace src),
     s_title = cmp_or (fo_title opts) (s_title src),
     s_untitled = (fo_title opts = [] \<and> s_untitled src), s_session_kind = Some SessionFork,
     s_head = [], s_parent = sid, s_tools = s_tools src, s_profile = s_profile src,
     s_overrides = s_overrides src, s_pinned = False, s_archived = False, s_created = 0, s_updated = 0\<rparr>"

definition ForkSession ::
  "pg \<Rightarrow> string \<Rightarrow> string list \<Rightarrow> int \<Rightarrow> string \<Rightarrow> string \<Rightarrow> fork_options \<Rightarrow> db \<Rightarrow> err + session \<times> db" where
  "ForkSession p newID ids now sid eid opts d =
    (let op = ''fork session '' @ sid in
     case find_session sid d of
       None \<Rightarrow> Inl (wrap_err op ErrNotFound)
     | Some src \<Rightarrow>
         let path = pathQuery eid (d_entries d) in
         if path = [] \<or> e_session (last path) \<noteq> sid
         then Inl (ErrWrap (op @ '' at entry '' @ eid) ErrNotFound)
         else
           (case createSession p newID now (fork_row sid opts src) d of
              Inl f \<Rightarrow> Inl (wrap_err op f)
            | Inr (fork, d) \<Rightarrow>
                (case copy_path p ids now (s_id fork) [] path d of
                   Inl f \<Rightarrow> Inl (wrap_err op f)
                 | Inr (parent, d) \<Rightarrow>
                     (case setHead now (s_id fork) parent d of
                        Inl f \<Rightarrow> Inl (wrap_err op f)
                      | Inr d \<Rightarrow> Inr (fork\<lparr>s_head := parent\<rparr>, d)))))"

record session_changes =
  ch_title :: "string option"
  ch_pinned :: "bool option"
  ch_archived :: "bool option"

definition UpdateSession :: "int \<Rightarrow> string \<Rightarrow> session_changes \<Rightarrow> db \<Rightarrow> err + session \<times> db" where
  "UpdateSession now sid ch d =
    (case find_session sid d of
       None \<Rightarrow> Inl (wrap_err (''update session '' @ sid) ErrNotFound)
     | Some s \<Rightarrow>
         let f = (\<lambda>s. s\<lparr>s_title := case_option (s_title s) id (ch_title ch),
                        s_untitled := s_untitled s \<and> ch_title ch = None,
                        s_pinned := case_option (s_pinned s) id (ch_pinned ch),
                        s_archived := case_option (s_archived s) id (ch_archived ch),
                        s_updated := now\<rparr>) in
         Inr (f s, update_session sid f d))"

definition TitleUntitledSession :: "int \<Rightarrow> string \<Rightarrow> string \<Rightarrow> db \<Rightarrow> bool \<times> db" where
  "TitleUntitledSession now sid title d =
    (case find_session sid d of
       Some s \<Rightarrow>
         if s_untitled s
         then (True, update_session sid (\<lambda>s. s\<lparr>s_title := title, s_untitled := False, s_updated := now\<rparr>) d)
         else (False, d)
     | None \<Rightarrow> (False, d))"

definition SetSessionTools :: "int \<Rightarrow> string \<Rightarrow> string list option \<Rightarrow> db \<Rightarrow> err + db" where
  "SetSessionTools now sid tools d =
    (if find_session sid d = None then Inl (wrap_err (''set session tools '' @ sid) ErrNotFound)
     else Inr (update_session sid (\<lambda>s. s\<lparr>s_tools := tools, s_updated := now\<rparr>) d))"

text \<open>\<^verbatim>\<open>ON DELETE CASCADE\<close> takes the entries, \<^verbatim>\<open>ON DELETE SET NULL\<close> unties the forks.\<close>

definition DeleteSession :: "string \<Rightarrow> db \<Rightarrow> err + db" where
  "DeleteSession sid d =
    (if find_session sid d = None then Inl (wrap_err (''delete session '' @ sid) ErrNotFound)
     else
       Inr (d\<lparr>d_sessions := map (\<lambda>s. if s_parent s = sid then s\<lparr>s_parent := []\<rparr> else s)
                (filter (\<lambda>s. s_id s \<noteq> sid) (d_sessions d)),
              d_entries := filter (\<lambda>e. e_session e \<noteq> sid) (d_entries d)\<rparr>))"

definition in_order :: "session list \<Rightarrow> session list" where
  "in_order ss = sort_key (\<lambda>s. (s_created s, s_id s)) ss"

definition Chats :: "db \<Rightarrow> session list" where
  "Chats d = in_order (filter Chat (d_sessions d))"

text \<open>
  The recursive query of \<^verbatim>\<open>Sessions\<close>: each round joins the sessions whose parent was found, and a
  round that finds nothing new ends it; there are at most as many rounds as rows.
\<close>

fun descend :: "nat \<Rightarrow> session list \<Rightarrow> session list \<Rightarrow> session list" where
  "descend 0 ss found = found"
| "descend (Suc n) ss found =
    (let new = filter (\<lambda>s. \<not> List.member found s \<and> list_ex (\<lambda>f. s_parent s = s_id f) found) ss in
     if new = [] then found else descend n ss (found @ new))"

definition Sessions :: "string \<Rightarrow> bool \<Rightarrow> db \<Rightarrow> session list" where
  "Sessions workspaceID withDescendants d =
    (if workspaceID = [] then in_order (d_sessions d)
     else
       let one = filter (\<lambda>s. s_workspace s = workspaceID) (d_sessions d) in
       if withDescendants then in_order (descend (length (d_sessions d)) (d_sessions d) one)
       else in_order one)"

section \<open>The invariant\<close>

text \<open>
  Rows are listed newest first: the parent of an entry is an older entry of its session, and the
  sequence numbers of a session grow with every insertion.
\<close>

fun entries_ok :: "entry list \<Rightarrow> bool" where
  "entries_ok [] = True"
| "entries_ok (e # es) =
    (e_id e \<noteq> [] \<and> find_entry (e_id e) es = None
     \<and> (e_parent e = [] \<or> (\<exists>x. find_entry (e_parent e) es = Some x \<and> e_session x = e_session e))
     \<and> 0 < e_seq e \<and> list_all (\<lambda>x. e_session x = e_session e \<longrightarrow> e_seq x < e_seq e) es
     \<and> entries_ok es)"

definition db_ok :: "db \<Rightarrow> bool" where
  "db_ok d \<longleftrightarrow>
     entries_ok (d_entries d) \<and> distinct (map s_id (d_sessions d))
     \<and> list_all (\<lambda>s. s_id s \<noteq> [] \<and> (s_head s = []
          \<or> (\<exists>e. find_entry (s_head s) (d_entries d) = Some e \<and> e_session e = s_id s))) (d_sessions d)
     \<and> list_all (\<lambda>e. find_session (e_session e) d \<noteq> None) (d_entries d)"

definition empty_db :: db where
  "empty_db = \<lparr>d_sessions = [], d_entries = []\<rparr>"

lemma empty_db_ok: "db_ok empty_db"
  by (simp add: db_ok_def empty_db_def)

section \<open>Finding rows\<close>

lemma find_entry_Some: "find_entry i es = Some e \<Longrightarrow> e \<in> set es \<and> e_id e = i"
  by (auto simp: find_entry_def find_Some_iff)

lemma find_entry_None: "find_entry i es = None \<longleftrightarrow> (\<forall>e \<in> set es. e_id e \<noteq> i)"
  by (auto simp: find_entry_def find_None_iff)

lemma find_entry_Cons [simp]: "find_entry i (e # es) = (if e_id e = i then Some e else find_entry i es)"
  by (simp add: find_entry_def)

lemma find_entry_Nil [simp]: "find_entry i [] = None"
  by (simp add: find_entry_def)

lemma find_entry_member: "entries_ok es \<Longrightarrow> e \<in> set es \<Longrightarrow> find_entry (e_id e) es = Some e"
  by (induction es) (auto simp: find_entry_None)

lemma find_map_update:
  "(\<And>s. s_id (f s) = s_id s) \<Longrightarrow>
    List.find (\<lambda>s. s_id s = i) (map (\<lambda>s. if s_id s = j then f s else s) ss)
      = (if i = j then map_option f (List.find (\<lambda>s. s_id s = i) ss) else List.find (\<lambda>s. s_id s = i) ss)"
  by (induction ss) auto

lemma find_session_update [simp]:
  "(\<And>s. s_id (f s) = s_id s) \<Longrightarrow>
    find_session i (update_session j f d) = (if i = j then map_option f (find_session i d) else find_session i d)"
  by (simp add: find_session_def update_session_def find_map_update)

lemma update_session_entries [simp]: "d_entries (update_session i f d) = d_entries d"
  by (simp add: update_session_def)

lemma find_session_Some: "find_session i d = Some s \<Longrightarrow> s \<in> set (d_sessions d) \<and> s_id s = i"
  by (auto simp: find_session_def find_Some_iff)

lemma find_session_entries [simp]: "find_session i (d\<lparr>d_entries := es\<rparr>) = find_session i d"
  by (simp add: find_session_def)

section \<open>Paths\<close>

text \<open>The path by recursion on the rows: what \<^verbatim>\<open>pathQuery\<close> finds, newest entry first.\<close>

fun path_of :: "entry list \<Rightarrow> string \<Rightarrow> entry list" where
  "path_of [] i = []"
| "path_of (e # es) i =
    (if e_id e = i then e # (if e_parent e = [] then [] else path_of es (e_parent e)) else path_of es i)"

lemma entries_ok_parent:
  "entries_ok es \<Longrightarrow> e \<in> set es \<Longrightarrow> e_parent e \<noteq> [] \<Longrightarrow>
    \<exists>x. find_entry (e_parent e) es = Some x \<and> e_session x = e_session e \<and> e_seq x < e_seq e"
proof (induction es)
  case (Cons y es)
  then show ?case
    by (fastforce simp: list_all_iff find_entry_None dest: find_entry_Some)
qed simp

lemma walk_up_older:
  assumes "entries_ok (e # es)" "i \<noteq> e_id e"
  shows "walk_up n (e # es) i = walk_up n es i"
  using assms(2)
proof (induction n arbitrary: i)
  case (Suc n)
  show ?case
  proof (cases "find_entry i es")
    case (Some x)
    then have "e_parent x = [] \<or> e_parent x \<noteq> e_id e"
      using assms(1) entries_ok_parent [of es x] find_entry_Some [OF Some] by auto
    then show ?thesis using Suc Some by auto
  qed (use Suc.prems in simp)
qed simp

lemma walk_up_enough: "entries_ok es \<Longrightarrow> length es \<le> n \<Longrightarrow> walk_up n es i = path_of es i"
proof (induction es arbitrary: n i)
  case Nil
  then show ?case by (cases n) simp_all
next
  case (Cons e es)
  obtain m where n: "n = Suc m" "length es \<le> m" using Cons.prems(2) by (cases n) auto
  show ?case
  proof (cases "e_id e = i")
    case True
    have "walk_up m (e # es) (e_parent e) = path_of es (e_parent e)" if "e_parent e \<noteq> []"
    proof -
      have "e_parent e \<noteq> e_id e" using Cons.prems(1) that by auto
      then have "walk_up m (e # es) (e_parent e) = walk_up m es (e_parent e)"
        by (rule walk_up_older [OF Cons.prems(1)])
      then show ?thesis using Cons.IH [OF _ n(2)] Cons.prems(1) by simp
    qed
    then show ?thesis using n(1) True by simp
  next
    case False
    then have "walk_up n (e # es) i = walk_up n es i"
      by (intro walk_up_older [OF Cons.prems(1)]) auto
    then show ?thesis using Cons.IH [of n i] Cons.prems False by simp
  qed
qed

lemma path_of_older: "entries_ok (e # es) \<Longrightarrow> i \<noteq> e_id e \<Longrightarrow> path_of (e # es) i = path_of es i"
  by simp

lemma path_of_Nil: "entries_ok es \<Longrightarrow> path_of es i = [] \<longleftrightarrow> find_entry i es = None"
  by (induction es) auto

lemma path_of_found: "find_entry i es = Some e \<Longrightarrow> \<exists>r. path_of es i = e # r"
  by (induction es) auto

lemma path_of_subset: "set (path_of es i) \<subseteq> set es"
  by (induction es arbitrary: i) auto

lemma path_of_session:
  "entries_ok es \<Longrightarrow> find_entry i es = Some e \<Longrightarrow> x \<in> set (path_of es i) \<Longrightarrow> e_session x = e_session e"
proof (induction es arbitrary: i e)
  case (Cons y es)
  then show ?case
    by (cases "e_id y = i") (auto simp: find_entry_None split: if_splits)
qed simp

text \<open>Along a path the sequence numbers fall, so ordering by them turns the path round.\<close>

lemma path_of_decreasing: "entries_ok es \<Longrightarrow> sorted_wrt (\<lambda>x y. e_seq y < e_seq x) (path_of es i)"
proof (induction es arbitrary: i)
  case (Cons e es)
  have "e_seq x < e_seq e" if x: "x \<in> set (path_of es (e_parent e))" and ne: "e_parent e \<noteq> []" for x
  proof -
    obtain p where p: "find_entry (e_parent e) es = Some p" "e_session p = e_session e"
      using Cons.prems ne by auto
    have "e_session x = e_session p" using path_of_session [OF _ p(1) x] Cons.prems by simp
    moreover have "x \<in> set es" using path_of_subset x by blast
    ultimately show ?thesis using Cons.prems p(2) by (auto simp: list_all_iff)
  qed
  then show ?case using Cons by auto
qed simp

lemma pathQuery_path: "entries_ok es \<Longrightarrow> pathQuery i es = rev (path_of es i)"
proof -
  assume ok: "entries_ok es"
  let ?p = "path_of es i"
  have d: "sorted_wrt (\<lambda>x y. e_seq x < e_seq y) (rev ?p)"
    using path_of_decreasing [OF ok] by (simp add: sorted_wrt_rev)
  then have "sorted_wrt (<) (map e_seq (rev ?p))" by (simp add: sorted_wrt_map)
  then have s: "sorted (map e_seq (rev ?p))" "distinct (map e_seq (rev ?p))"
    unfolding strict_sorted_iff by simp_all
  have "sort_key e_seq ?p = rev ?p"
  proof (rule map_sorted_distinct_set_unique)
    show "inj_on e_seq (set (sort_key e_seq ?p) \<union> set (rev ?p))" using s(2) by (simp add: distinct_map)
    show "distinct (map e_seq (sort_key e_seq ?p))" using s(2) by (simp add: distinct_map)
  qed (use s in simp_all)
  then show ?thesis using walk_up_enough [OF ok order_refl] by (simp add: pathQuery_def)
qed

end
