(* ===== verification/Session_Laws.thy ===== *)
theory Session_Laws
  imports Session_Store
begin

text \<open>
  What the writing operations of the store keep and change: the invariant, the path an append
  extends, the paths nothing else touches, the branch a moved head starts, and the path a fork
  copies. \<open>pg_ok\<close> is what is relied on of \<^verbatim>\<open>jsonb\<close>: it respells a valid document as a valid one, and
  its own spelling as itself.
\<close>

definition pg_ok :: "pg \<Rightarrow> bool" where
  "pg_ok p \<longleftrightarrow> (\<forall>t. json_valid t \<longrightarrow> json_valid (pg_jsonb p t))
     \<and> (\<forall>t. pg_jsonb p (pg_jsonb p t) = pg_jsonb p t)"

lemma respell_payload_idem: "pg_ok p \<Longrightarrow> respell_payload p (respell_payload p d) = respell_payload p d"
proof -
  assume "pg_ok p"
  then have "respell (pg_jsonb p) (respell (pg_jsonb p) r) = respell (pg_jsonb p) r" for r
    by (cases r) (simp_all add: pg_ok_def)
  with \<open>pg_ok p\<close> show ?thesis
    by (cases d) (auto simp: respell_payload_def pg_ok_def comp_def)
qed

section \<open>Inserting\<close>

lemma next_seq_greater:
  assumes "x \<in> set es" "e_session x = sid"
  shows "e_seq x < next_seq sid es"
proof -
  let ?l = "map e_seq (filter (\<lambda>e. e_session e = sid) es)"
  have m: "e_seq x \<in> set ?l" using assms by auto
  then obtain y ys where l: "?l = y # ys" by (cases ?l) auto
  have "e_seq x \<le> Max (set (y # ys))" using m l by (intro Max_ge) auto
  also have "\<dots> = fold max ys y" by (rule Max.set_eq_fold)
  finally show ?thesis by (simp add: next_seq_def l)
qed

lemma next_seq_pos: "\<forall>e \<in> set es. 0 < e_seq e \<Longrightarrow> 0 < next_seq sid es"
proof (cases "map e_seq (filter (\<lambda>e. e_session e = sid) es)")
  case (Cons y ys)
  assume pos: "\<forall>e \<in> set es. 0 < e_seq e"
  have "y \<in> set (map e_seq (filter (\<lambda>e. e_session e = sid) es))" by (simp add: Cons)
  then obtain x where "x \<in> set es" "e_session x = sid" by auto
  with pos next_seq_greater [of x es sid] show ?thesis by fastforce
qed (simp add: next_seq_def)

lemma entries_ok_pos: "entries_ok es \<Longrightarrow> e \<in> set es \<Longrightarrow> 0 < e_seq e"
  by (induction es) auto

lemma entries_ok_append: "entries_ok (xs @ es) \<Longrightarrow> entries_ok es"
  by (induction xs) auto

lemma path_of_append:
  "entries_ok (xs @ es) \<Longrightarrow> find_entry i es \<noteq> None \<Longrightarrow> path_of (xs @ es) i = path_of es i"
proof (induction xs)
  case (Cons x xs)
  have "i \<noteq> e_id x"
    using Cons.prems by (auto simp: find_entry_None dest!: find_entry_Some)
  then show ?case using Cons by auto
qed simp

lemma path_of_root: "entries_ok es \<Longrightarrow> path_of es [] = []"
  by (induction es) auto

lemma insertEntry_cases:
  assumes "insertEntry p newID now sid parent e d = Inr (row, d')"
  shows "d' = d\<lparr>d_entries := row # d_entries d\<rparr>" "find_entry newID (d_entries d) = None"
    "find_session sid d \<noteq> None" "e_id row = newID" "e_session row = sid" "e_parent row = parent"
    "e_seq row = next_seq sid (d_entries d)" "e_kind row = e_kind e" "e_commit row = e_commit e"
    "e_payload row = respell_payload p (if e_payload e = PNone then PObject [] ''{}'' else e_payload e)"
  using assms by (auto simp: insertEntry_def Let_def split: option.splits if_splits)

lemma insertEntry_ok:
  assumes ok: "db_ok d" and ins: "insertEntry p newID now sid parent e d = Inr (row, d')" and "newID \<noteq> []"
    and par: "parent = [] \<or> (\<exists>x. find_entry parent (d_entries d) = Some x \<and> e_session x = sid)"
  shows "db_ok d'"
proof -
  note r = insertEntry_cases [OF ins]
  have es: "entries_ok (d_entries d)" using ok by (simp add: db_ok_def)
  have pos: "0 < next_seq sid (d_entries d)" using entries_ok_pos [OF es] by (intro next_seq_pos) auto
  have "entries_ok (row # d_entries d)"
    using es r assms(3) par pos next_seq_greater [of _ "d_entries d" sid] by (auto simp: list_all_iff)
  moreover have "find_entry i (row # d_entries d) = Some x" if "find_entry i (d_entries d) = Some x" for i x
    using that r(2,4) by auto
  ultimately show ?thesis using ok r by (fastforce simp: db_ok_def list_all_iff)
qed

lemma update_session_ok:
  assumes "db_ok d" "\<And>s. s_id (f s) = s_id s"
    and "\<And>s. s \<in> set (d_sessions d) \<Longrightarrow> s_id s = sid \<Longrightarrow> s_head (f s) = []
      \<or> (\<exists>e. find_entry (s_head (f s)) (d_entries d) = Some e \<and> e_session e = sid)"
  shows "db_ok (update_session sid f d)"
proof -
  have m: "map s_id (d_sessions (update_session sid f d)) = map s_id (d_sessions d)"
    using assms(2) by (simp add: update_session_def)
  have h: "s_id t \<noteq> [] \<and> (s_head t = []
      \<or> (\<exists>e. find_entry (s_head t) (d_entries d) = Some e \<and> e_session e = s_id t))"
    if t: "t \<in> set (d_sessions (update_session sid f d))" for t
  proof -
    obtain s where s: "s \<in> set (d_sessions d)" "t = (if s_id s = sid then f s else s)"
      using t by (auto simp: update_session_def)
    show ?thesis
      using assms(1,2) assms(3) [of s] s by (auto simp: db_ok_def list_all_iff)
  qed
  have "find_session i (update_session sid f d) = None \<longleftrightarrow> find_session i d = None" for i
    using assms(2) by simp
  with m h show ?thesis using assms(1) by (simp add: db_ok_def list_all_iff)
qed

section \<open>Appending\<close>

text \<open>
  The path of the session grows by the new entry; every entry there was keeps the path that leads
  to it, so the branches stay, and no other session changes.
\<close>

lemma AppendEntry_cases:
  assumes "AppendEntry p newID now sid e d = Inr (out, d')"
  obtains s d1 where "find_session sid d = Some s"
    "insertEntry p newID now sid (s_head s) e d = Inr (out, d1)"
    "d' = update_session sid (\<lambda>s. s\<lparr>s_head := newID, s_updated := now\<rparr>) d1"
    "d1 = d\<lparr>d_entries := out # d_entries d\<rparr>" "e_id out = newID"
  using assms insertEntry_cases
  by (fastforce simp: AppendEntry_def lockSessionHead_def setHead_def Let_def
      split: option.splits sum.splits if_splits)

lemma db_ok_head:
  "db_ok d \<Longrightarrow> find_session sid d = Some s \<Longrightarrow> s_head s \<noteq> [] \<Longrightarrow>
    \<exists>e. find_entry (s_head s) (d_entries d) = Some e \<and> e_session e = sid"
  using find_session_Some [of sid d s] by (fastforce simp: db_ok_def list_all_iff)

lemma AppendEntry_ok:
  assumes "db_ok d" "AppendEntry p newID now sid e d = Inr (out, d')" "newID \<noteq> []"
  shows "db_ok d'"
proof -
  obtain s d1 where a: "find_session sid d = Some s"
    "insertEntry p newID now sid (s_head s) e d = Inr (out, d1)"
    "d' = update_session sid (\<lambda>s. s\<lparr>s_head := newID, s_updated := now\<rparr>) d1"
    "d1 = d\<lparr>d_entries := out # d_entries d\<rparr>" "e_id out = newID"
    using AppendEntry_cases [OF assms(2)] .
  have "db_ok d1" using insertEntry_ok [OF assms(1) a(2) assms(3)] db_ok_head [OF assms(1) a(1)] by auto
  then show ?thesis using a insertEntry_cases(5) [OF a(2)] by (auto intro!: update_session_ok)
qed

lemma SessionPath_eq:
  "db_ok d \<Longrightarrow> find_session sid d = Some s \<Longrightarrow> SessionPath sid d = Inr (rev (path_of (d_entries d) (s_head s)))"
  by (auto simp: SessionPath_def Session_def pathQuery_path path_of_root db_ok_def)

lemma AppendEntry_path:
  assumes ok: "db_ok d" and app: "AppendEntry p newID now sid e d = Inr (out, d')" and ne: "newID \<noteq> []"
    and path: "SessionPath sid d = Inr es"
  shows "SessionPath sid d' = Inr (es @ [out])"
proof -
  obtain s d1 where a: "find_session sid d = Some s"
    "insertEntry p newID now sid (s_head s) e d = Inr (out, d1)"
    "d' = update_session sid (\<lambda>s. s\<lparr>s_head := newID, s_updated := now\<rparr>) d1"
    "d1 = d\<lparr>d_entries := out # d_entries d\<rparr>" "e_id out = newID"
    using AppendEntry_cases [OF app] .
  have s': "find_session sid d' = Some (s\<lparr>s_head := newID, s_updated := now\<rparr>)" using a by simp
  have "rev (path_of (d_entries d') newID) = es @ [out]"
    using a insertEntry_cases(6) [OF a(2)] path SessionPath_eq [OF ok a(1)] ok
    by (auto simp: path_of_root db_ok_def)
  then show ?thesis using SessionPath_eq [OF AppendEntry_ok [OF ok app ne] s'] by simp
qed

lemma AppendEntry_other:
  assumes ok: "db_ok d" and app: "AppendEntry p newID now sid e d = Inr (out, d')" and ne: "newID \<noteq> []"
  shows "other \<noteq> sid \<Longrightarrow> SessionPath other d' = SessionPath other d"
    and "EntryPath other i d = Inr es \<Longrightarrow> EntryPath other i d' = Inr es"
proof -
  obtain s d1 where a: "d' = update_session sid (\<lambda>s. s\<lparr>s_head := newID, s_updated := now\<rparr>) d1"
    "d1 = d\<lparr>d_entries := out # d_entries d\<rparr>" "e_id out = newID" "find_entry newID (d_entries d) = None"
    using AppendEntry_cases [OF app] insertEntry_cases(2) by metis
  have ok': "db_ok d'" by (rule AppendEntry_ok [OF assms])
  have old: "path_of (d_entries d') i = path_of (d_entries d) i" if "find_entry i (d_entries d) \<noteq> None" for i
    using path_of_append [of "[out]" "d_entries d" i] ok' that a by (auto simp: db_ok_def)
  show "EntryPath other i d' = Inr es" if "EntryPath other i d = Inr es"
    using that old [of i] a ok ok'
    by (auto simp: EntryPath_def entryOfSession_def pathQuery_path db_ok_def split: option.splits if_splits)
  show "SessionPath other d' = SessionPath other d" if "other \<noteq> sid"
  proof (cases "find_session other d")
    case None
    then show ?thesis using a that by (simp add: SessionPath_def Session_def)
  next
    case (Some t)
    then have t': "find_session other d' = Some t" using a that by simp
    show ?thesis
    proof (cases "s_head t = []")
      case True
      then show ?thesis using Some t' by (simp add: SessionPath_def Session_def)
    next
      case False
      then show ?thesis using SessionPath_eq [OF ok Some] SessionPath_eq [OF ok' t'] old db_ok_head [OF ok Some] by auto
    qed
  qed
qed

section \<open>Moving the head\<close>

lemma SetSessionHead_ok:
  assumes "db_ok d" "SetSessionHead now sid eid d = Inr d'"
  shows "db_ok d'"
proof -
  have "find_entry eid (d_entries d) = Some x" if "x \<in> set (d_entries d)" "e_id x = eid" for x
    using find_entry_member assms(1) that by (auto simp: db_ok_def)
  then show ?thesis using assms
    by (auto simp: SetSessionHead_def list_ex_iff split: if_splits intro!: update_session_ok)
qed

lemma SetSessionHead_path:
  assumes "db_ok d" "SetSessionHead now sid eid d = Inr d'" "eid \<noteq> []"
  shows "SessionPath sid d' = EntryPath sid eid d" "\<exists>es. EntryPath sid eid d = Inr es"
proof -
  obtain x s where x: "x \<in> set (d_entries d)" "e_id x = eid" "e_session x = sid" "find_session sid d = Some s"
    and d': "d' = update_session sid (\<lambda>s. s\<lparr>s_head := eid, s_updated := now\<rparr>) d"
    using assms(2,3) by (auto simp: SetSessionHead_def list_ex_iff split: if_splits)
  have "find_entry eid (d_entries d) = Some x"
    using find_entry_member assms(1) x by (auto simp: db_ok_def)
  then show "SessionPath sid d' = EntryPath sid eid d" "\<exists>es. EntryPath sid eid d = Inr es"
    using x d' assms(3) by (auto simp: SessionPath_def Session_def EntryPath_def entryOfSession_def)
qed

section \<open>Forking\<close>

text \<open>The copy of a row: what of it the database keeps.\<close>

definition copy_of :: "pg \<Rightarrow> entry \<Rightarrow> entry \<Rightarrow> bool" where
  "copy_of p e c \<longleftrightarrow> e_kind c = e_kind e \<and> e_commit c = e_commit e
     \<and> e_payload c = respell_payload p (if e_payload e = PNone then PObject [] ''{}'' else e_payload e)"

lemma copy_path_spec:
  assumes "copy_path p ids now sid parent es d = Inr (l, d')" "db_ok d" "[] \<notin> set ids"
    and "parent = [] \<or> (\<exists>x. find_entry parent (d_entries d) = Some x \<and> e_session x = sid)"
  shows "\<exists>new. d' = d\<lparr>d_entries := rev new @ d_entries d\<rparr> \<and> db_ok d'
    \<and> rev (path_of (d_entries d') l) = rev (path_of (d_entries d) parent) @ new
    \<and> list_all2 (copy_of p) es new \<and> (\<forall>c \<in> set new. e_session c = sid)
    \<and> (l = [] \<or> (\<exists>x. find_entry l (d_entries d') = Some x \<and> e_session x = sid))
    \<and> (es \<noteq> [] \<longrightarrow> l \<noteq> [])"
  using assms
proof (induction p ids now sid parent es d rule: copy_path.induct)
  case (1 p ids now sid parent d)
  then show ?case by (intro exI [of _ "[]"]) auto
next
  case (3 p i ids now sid parent e es d)
  then obtain row d1 where ins: "insertEntry p i now sid parent e d = Inr (row, d1)"
    and rest: "copy_path p ids now sid i es d1 = Inr (l, d')"
    using insertEntry_cases(4) by (fastforce split: sum.splits)
  note r = insertEntry_cases [OF ins]
  have ok1: "db_ok d1" using insertEntry_ok [OF "3.prems"(2) ins] "3.prems"(3,4) by auto
  have par1: "e_id row = [] \<or> (\<exists>x. find_entry (e_id row) (d_entries d1) = Some x \<and> e_session x = sid)"
    using r(1,5) by simp
  have ids1: "[] \<notin> set ids" using "3.prems"(3) by simp
  obtain new where n: "d' = d1\<lparr>d_entries := rev new @ d_entries d1\<rparr>" "db_ok d'"
    "rev (path_of (d_entries d') l) = rev (path_of (d_entries d1) (e_id row)) @ new"
    "list_all2 (copy_of p) es new" "\<forall>c \<in> set new. e_session c = sid"
    "l = [] \<or> (\<exists>x. find_entry l (d_entries d') = Some x \<and> e_session x = sid)" "es \<noteq> [] \<longrightarrow> l \<noteq> []"
    using "3.IH" [OF ins refl rest [folded r(4)] ok1 ids1 par1] by blast
  have "rev (path_of (d_entries d1) i) = rev (path_of (d_entries d) parent) @ [row]"
    using r "3.prems"(2) by (auto simp: path_of_root db_ok_def)
  note path = this
  have l: "l \<noteq> []" using n(7) rest "3.prems"(3) by (cases es) auto
  show ?case
  proof (intro exI [of _ "row # new"] conjI)
    show "d' = d\<lparr>d_entries := rev (row # new) @ d_entries d\<rparr>" using n(1) r(1) by simp
    show "rev (path_of (d_entries d') l) = rev (path_of (d_entries d) parent) @ row # new"
      using n(3) path r(4) by simp
    show "list_all2 (copy_of p) (e # es) (row # new)" using n(4) r(8-10) by (simp add: copy_of_def)
    show "\<forall>c \<in> set (row # new). e_session c = sid" using n(5) r(5) by simp
  qed (use n(2,6) l in simp_all)
qed auto

lemma createSession_cases:
  assumes "createSession p newID now (fork_row sid opts src) d = Inr (fork, d1)"
  shows "s_id fork = newID" "d1 = d\<lparr>d_sessions := fork # d_sessions d\<rparr>" "find_session newID d = None"
    "s_parent fork = sid" "s_session_kind fork = Some SessionFork" "s_head fork = []"
  using assms by (auto simp: createSession_def fork_row_def Let_def split: if_splits)

lemma find_session_add [simp]:
  "find_session i (d\<lparr>d_sessions := s # d_sessions d\<rparr>) = (if s_id s = i then Some s else find_session i d)"
  by (simp add: find_session_def)

lemma find_session_None: "find_session i d = None \<longleftrightarrow> (\<forall>s \<in> set (d_sessions d). s_id s \<noteq> i)"
  by (auto simp: find_session_def find_None_iff)

lemma add_session_ok:
  "db_ok d \<Longrightarrow> find_session (s_id s) d = None \<Longrightarrow> s_id s \<noteq> [] \<Longrightarrow> s_head s = [] \<Longrightarrow>
    db_ok (d\<lparr>d_sessions := s # d_sessions d\<rparr>)"
  using find_session_None [of "s_id s" d] by (auto simp: db_ok_def list_all_iff)

lemma fork_path:
  assumes "db_ok d" "pathQuery eid (d_entries d) \<noteq> []" "e_session (last (pathQuery eid (d_entries d))) = sid"
  shows "EntryPath sid eid d = Inr (pathQuery eid (d_entries d))"
proof -
  have es: "entries_ok (d_entries d)" using assms(1) by (simp add: db_ok_def)
  then obtain x where x: "find_entry eid (d_entries d) = Some x"
    using assms(2) path_of_Nil by (auto simp: pathQuery_path)
  from path_of_found [OF x] have "last (pathQuery eid (d_entries d)) = x"
    by (auto simp: pathQuery_path [OF es])
  then show ?thesis using x assms(3) by (simp add: EntryPath_def entryOfSession_def)
qed

lemma ForkSession_cases:
  assumes "ForkSession p newID ids now sid eid opts d = Inr (fork, d')"
  obtains src f0 d1 l d2 where "find_session sid d = Some src"
    "pathQuery eid (d_entries d) \<noteq> []" "e_session (last (pathQuery eid (d_entries d))) = sid"
    "createSession p newID now (fork_row sid opts src) d = Inr (f0, d1)"
    "copy_path p ids now (s_id f0) [] (pathQuery eid (d_entries d)) d1 = Inr (l, d2)"
    "d' = update_session (s_id f0) (\<lambda>s. s\<lparr>s_head := l, s_updated := now\<rparr>) d2" "fork = f0\<lparr>s_head := l\<rparr>"
  using assms
  by (auto simp: ForkSession_def setHead_def Let_def split: option.splits if_splits sum.splits prod.splits)

text \<open>
  A fork holds a copy of the path, row by row, as rows of its own; the session it came from, and
  every other one, reads as before.
\<close>

lemma ForkSession_spec:
  assumes ok: "db_ok d" and fk: "ForkSession p newID ids now sid eid opts d = Inr (fork, d')"
    and ne: "newID \<noteq> []" "[] \<notin> set ids"
  shows "db_ok d'" "s_id fork = newID" "s_parent fork = sid" "s_session_kind fork = Some SessionFork"
    and "\<exists>path new. EntryPath sid eid d = Inr path \<and> SessionPath newID d' = Inr new
          \<and> list_all2 (copy_of p) path new \<and> (\<forall>c \<in> set new. e_session c = newID)"
    and "find_session other d = Some t \<Longrightarrow> SessionPath other d' = SessionPath other d"
    and "EntryPath other i d = Inr es \<Longrightarrow> EntryPath other i d' = Inr es"
proof -
  obtain src f0 d1 l d2 where f: "find_session sid d = Some src"
    "pathQuery eid (d_entries d) \<noteq> []" "e_session (last (pathQuery eid (d_entries d))) = sid"
    "createSession p newID now (fork_row sid opts src) d = Inr (f0, d1)"
    "copy_path p ids now (s_id f0) [] (pathQuery eid (d_entries d)) d1 = Inr (l, d2)"
    "d' = update_session (s_id f0) (\<lambda>s. s\<lparr>s_head := l, s_updated := now\<rparr>) d2" "fork = f0\<lparr>s_head := l\<rparr>"
    using ForkSession_cases [OF fk] .
  note c = createSession_cases [OF f(4)]
  have ok1: "db_ok d1" using add_session_ok [OF ok, of f0] c ne by simp
  obtain new where n: "d2 = d1\<lparr>d_entries := rev new @ d_entries d1\<rparr>" "db_ok d2"
    "rev (path_of (d_entries d2) l) = rev (path_of (d_entries d1) []) @ new"
    "list_all2 (copy_of p) (pathQuery eid (d_entries d)) new" "\<forall>c \<in> set new. e_session c = newID"
    "l = [] \<or> (\<exists>x. find_entry l (d_entries d2) = Some x \<and> e_session x = newID)"
    using copy_path_spec [OF f(5) ok1 ne(2)] c(1) by auto
  show ok': "db_ok d'" using n f(6) c(1) by (auto intro!: update_session_ok)
  show "s_id fork = newID" "s_parent fork = sid" "s_session_kind fork = Some SessionFork" using f(7) c by simp_all
  have fs: "find_session newID d' = Some (f0\<lparr>s_head := l, s_updated := now\<rparr>)"
    using f(6) n(1) c by simp
  have "rev (path_of (d_entries d') l) = new"
    using n f(6) ok1 by (simp add: path_of_root db_ok_def)
  then have "SessionPath newID d' = Inr new" using SessionPath_eq [OF ok' fs] by simp
  then show "\<exists>path new. EntryPath sid eid d = Inr path \<and> SessionPath newID d' = Inr new
          \<and> list_all2 (copy_of p) path new \<and> (\<forall>c \<in> set new. e_session c = newID)"
    using fork_path [OF ok f(2,3)] n by blast
  have old: "path_of (d_entries d') i = path_of (d_entries d) i" "find_entry i (d_entries d') = find_entry i (d_entries d)"
    if found: "find_entry i (d_entries d) \<noteq> None" for i
  proof -
    have "entries_ok (rev new @ d_entries d)" using n(1,2) c(2) by (simp add: db_ok_def)
    then show "path_of (d_entries d') i = path_of (d_entries d) i"
      using path_of_append found f(6) n(1) c(2) by simp
    obtain x where x: "find_entry i (d_entries d) = Some x" using found by auto
    have "x \<in> set (rev new @ d_entries d)" "e_id x = i" using find_entry_Some [OF x] by auto
    with \<open>entries_ok (rev new @ d_entries d)\<close> have "find_entry i (rev new @ d_entries d) = Some x"
      using find_entry_member by blast
    then show "find_entry i (d_entries d') = find_entry i (d_entries d)" using x f(6) n(1) c(2) by simp
  qed
  show "EntryPath other i d' = Inr es" if "EntryPath other i d = Inr es"
    using that old [of i] ok ok'
    by (auto simp: EntryPath_def entryOfSession_def pathQuery_path db_ok_def split: option.splits if_splits)
  show "SessionPath other d' = SessionPath other d" if t: "find_session other d = Some t"
  proof -
    have "other \<noteq> newID" using t c(3) by auto
    then have t': "find_session other d' = Some t"
      using t f(6) n(1) c by simp
    show ?thesis
    proof (cases "s_head t = []")
      case True
      then show ?thesis using t t' by (simp add: SessionPath_def Session_def)
    next
      case False
      then show ?thesis using SessionPath_eq [OF ok t] SessionPath_eq [OF ok' t'] old db_ok_head [OF ok t] by auto
    qed
  qed
qed

section \<open>Deleting\<close>

lemma find_entry_filter:
  "entries_ok es \<Longrightarrow> find_entry i es = Some e \<Longrightarrow> e_session e \<noteq> sid \<Longrightarrow>
    find_entry i (filter (\<lambda>e. e_session e \<noteq> sid) es) = Some e"
  by (induction es) (auto split: if_splits)

lemma entries_ok_filter: "entries_ok es \<Longrightarrow> entries_ok (filter (\<lambda>e. e_session e \<noteq> sid) es)"
proof (induction es)
  case (Cons e es)
  then show ?case
    by (auto simp: list_all_iff find_entry_None intro: find_entry_filter) (metis find_entry_filter)
qed simp

lemma DeleteSession_ok:
  assumes "db_ok d" "DeleteSession sid d = Inr d'"
  shows "db_ok d'"
proof -
  let ?f = "\<lambda>s. if s_parent s = sid then s\<lparr>s_parent := []\<rparr> else s"
  have d': "d' = d\<lparr>d_sessions := map ?f (filter (\<lambda>s. s_id s \<noteq> sid) (d_sessions d)),
      d_entries := filter (\<lambda>e. e_session e \<noteq> sid) (d_entries d)\<rparr>"
    using assms(2) by (auto simp: DeleteSession_def split: if_splits)
  have es: "entries_ok (d_entries d)" using assms(1) by (simp add: db_ok_def)
  have "map s_id (d_sessions d') = map s_id (filter (\<lambda>s. s_id s \<noteq> sid) (d_sessions d))" by (simp add: d')
  then have "distinct (map s_id (d_sessions d'))"
    using assms(1) by (simp add: db_ok_def distinct_map_filter)
  moreover have "find_session i d' \<noteq> None" if "find_session i d \<noteq> None" "i \<noteq> sid" for i
  proof -
    have "i \<in> set (map s_id (d_sessions d'))"
      unfolding \<open>map s_id (d_sessions d') = _\<close> using that by (auto simp: find_session_None)
    then show ?thesis by (auto simp: find_session_None simp del: not_None_eq)
  qed
  ultimately show ?thesis
    using assms(1) d' entries_ok_filter [OF es, of sid] find_entry_filter [OF es]
    by (fastforce simp: db_ok_def list_all_iff)
qed

end
