(* ===== verification/Session_Tree.thy ===== *)
theory Session_Tree
  imports Session_Laws
begin

text \<open>
  \<^verbatim>\<open>internal/session\<close>: how a provider message becomes an entry and an entry a message, the
  conversation a path stands for, the tree operations over the store, the rule that decides which
  entries a run can continue from, the outline of a tree, and the store of a run. Documents are the
  payloads of \<open>Session_Store\<close>; a string that goes through JSON comes back as valid UTF-8 (\<open>utf8\<close>),
  and the arguments of a tool call in the database's spelling.
\<close>

section \<open>Messages as documents\<close>

fun utf8_role :: "role \<Rightarrow> role" where
  "utf8_role (RoleOther s) = RoleOther (utf8 s)"
| "utf8_role r = r"

definition marshal_message :: "message \<Rightarrow> wire_message" where
  "marshal_message m =
    \<lparr>wm_message = m\<lparr>m_role := utf8_role (m_role m), m_content := utf8 (m_content m),
       m_images := map (\<lambda>i. i\<lparr>im_media_type := utf8 (im_media_type i)\<rparr>) (m_images m),
       m_reasoning := utf8 (m_reasoning m), m_tool_calls := [],
       m_tool_call_id := utf8 (m_tool_call_id m),
       m_metrics := map_option (\<lambda>k. k\<lparr>mm_run_id := utf8 (mm_run_id k)\<rparr>) (m_metrics m)\<rparr>,
     wm_calls = map marshal_call (m_tool_calls m)\<rparr>"

fun unmarshal_calls :: "wire_call list \<Rightarrow> decode_error + tool_call list" where
  "unmarshal_calls [] = Inr []"
| "unmarshal_calls (w # ws) =
    (case unmarshal_call w of
       Inl e \<Rightarrow> Inl e
     | Inr c \<Rightarrow> (case unmarshal_calls ws of Inl e \<Rightarrow> Inl e | Inr cs \<Rightarrow> Inr (c # cs)))"

definition unmarshal_message :: "wire_message \<Rightarrow> decode_error + message" where
  "unmarshal_message w =
    (case unmarshal_calls (wm_calls w) of
       Inl e \<Rightarrow> Inl e | Inr cs \<Rightarrow> Inr ((wm_message w)\<lparr>m_tool_calls := cs\<rparr>))"

definition canon_message :: "(string \<Rightarrow> string) \<Rightarrow> message \<Rightarrow> message" where
  "canon_message jsonb m = (wm_message (marshal_message m))\<lparr>m_tool_calls := map (canon_call jsonb) (m_tool_calls m)\<rparr>"

definition withArguments :: "message \<Rightarrow> message" where
  "withArguments m =
    (if \<not> list_ex (\<lambda>c. tc_arguments c = []) (m_tool_calls m) then m
     else m\<lparr>m_tool_calls := map (\<lambda>c. if tc_arguments c = [] then c\<lparr>tc_arguments := ''{}''\<rparr> else c) (m_tool_calls m)\<rparr>)"

definition kindOf :: "role \<Rightarrow> err + entry_kind" where
  "kindOf r =
    (case r of
       RoleUser \<Rightarrow> Inr KindUser
     | RoleAssistant \<Rightarrow> Inr KindAssistant
     | RoleTool \<Rightarrow> Inr KindToolResult
     | RoleOther s \<Rightarrow> Inl (ErrText (''record message: unknown role '' @ json_quote s)))"

definition new_entry :: "entry_kind \<Rightarrow> payload \<Rightarrow> string \<Rightarrow> entry" where
  "new_entry k d commit = \<lparr>e_id = [], e_session = [], e_parent = [], e_seq = 0, e_kind = k,
     e_payload = d, e_commit = commit, e_created = 0\<rparr>"

definition MessageEntry :: "message \<Rightarrow> string \<Rightarrow> err + entry" where
  "MessageEntry m commit =
    (case kindOf (m_role m) of
       Inl e \<Rightarrow> Inl e
     | Inr kind \<Rightarrow> Inr (new_entry kind (PMessage (marshal_message (withArguments m))) commit))"

definition decode_failed :: err where
  "decode_failed = ErrText ''decode entry''"

text \<open>
  \<^verbatim>\<open>json.Unmarshal\<close> into a message or a compaction: their documents have only \<^verbatim>\<open>summary\<close> in common,
  a flag in one and a string in the other; members a struct does not have are ignored, and
  \<^verbatim>\<open>null\<close> leaves it as it is.
\<close>

definition decode_message :: "payload \<Rightarrow> err + message" where
  "decode_message d =
    (case d of
       PMessage w \<Rightarrow> (case unmarshal_message w of Inl _ \<Rightarrow> Inl decode_failed | Inr m \<Rightarrow> Inr m)
     | PCompaction _ \<Rightarrow> Inl decode_failed
     | PObject _ _ \<Rightarrow> Inr (zero_message (RoleOther []))
     | PValue raw \<Rightarrow> if raw = ''null'' then Inr (zero_message (RoleOther [])) else Inl decode_failed
     | PNone \<Rightarrow> Inl decode_failed)"

definition zero_compaction :: compaction where
  "zero_compaction = \<lparr>c_summary = [], c_kept = 0, c_tokens_before = 0, c_tokens_after = 0, c_reason = [],
     c_usage = no_usage\<rparr>"

definition decode_compaction :: "payload \<Rightarrow> err + compaction" where
  "decode_compaction d =
    (case d of
       PCompaction c \<Rightarrow> Inr c
     | PMessage w \<Rightarrow> if m_summary (wm_message w) then Inl decode_failed else Inr zero_compaction
     | PObject _ _ \<Rightarrow> Inr zero_compaction
     | PValue raw \<Rightarrow> if raw = ''null'' then Inr zero_compaction else Inl decode_failed
     | PNone \<Rightarrow> Inl decode_failed)"

definition Message :: "entry \<Rightarrow> err + message option" where
  "Message e =
    (if e_kind e \<in> set [KindUser, KindAssistant, KindToolCall, KindToolResult] then
       (case decode_message (e_payload e) of Inl f \<Rightarrow> Inl (ErrWrap ''decode entry'' f) | Inr m \<Rightarrow> Inr (Some m))
     else Inr None)"

definition CompactionEntry :: "compaction \<Rightarrow> entry" where
  "CompactionEntry c =
     new_entry KindCompaction (PCompaction (c\<lparr>c_summary := utf8 (c_summary c), c_reason := utf8 (c_reason c)\<rparr>)) []"

definition CompactionOf :: "entry \<Rightarrow> err + compaction" where
  "CompactionOf e =
    (case decode_compaction (e_payload e) of Inl f \<Rightarrow> Inl (ErrWrap ''decode compaction entry'' f) | Inr c \<Rightarrow> Inr c)"

fun messages_loop :: "entry list \<Rightarrow> message list \<Rightarrow> err + message list" where
  "messages_loop [] out = Inr out"
| "messages_loop (e # es) out =
    (if e_kind e = KindCompaction then
       (case CompactionOf e of Inl f \<Rightarrow> Inl f | Inr c \<Rightarrow> messages_loop es (Compacted out c))
     else
       (case Message e of
          Inl f \<Rightarrow> Inl f
        | Inr None \<Rightarrow> messages_loop es out
        | Inr (Some m) \<Rightarrow> messages_loop es (out @ [m])))"

definition Messages :: "entry list \<Rightarrow> err + message list" where
  "Messages es = messages_loop es []"

section \<open>The tree\<close>

definition AppendMessage ::
  "pg \<Rightarrow> string \<Rightarrow> int \<Rightarrow> string \<Rightarrow> message \<Rightarrow> string \<Rightarrow> db \<Rightarrow> err + entry \<times> db" where
  "AppendMessage p newID now sid m commit d =
    (case MessageEntry m commit of Inl e \<Rightarrow> Inl e | Inr e \<Rightarrow> AppendEntry p newID now sid e d)"

definition Head :: "string \<Rightarrow> db \<Rightarrow> err + entry" where
  "Head sid d =
    (case Session sid d of
       Inl e \<Rightarrow> Inl e
     | Inr s \<Rightarrow>
         if s_head s = [] then Inl (ErrWrap (''read head of session '' @ sid) ErrNotFound)
         else Entry (s_head s) d)"

definition tree_Messages :: "string \<Rightarrow> db \<Rightarrow> err + message list" where
  "tree_Messages sid d = (case SessionPath sid d of Inl e \<Rightarrow> Inl e | Inr path \<Rightarrow> Messages path)"

section \<open>Where a run can continue\<close>

definition pendingCalls :: "string list \<Rightarrow> entry \<Rightarrow> string list" where
  "pendingCalls parent e =
    (case Message e of
       Inl _ \<Rightarrow> parent
     | Inr None \<Rightarrow> parent
     | Inr (Some m) \<Rightarrow>
         if m_tool_calls m \<noteq> [] then parent @ map tc_id (m_tool_calls m)
         else if m_role m \<noteq> RoleTool then parent
         else
           (case index_of (\<lambda>i. i = m_tool_call_id m) parent of
              Some i \<Rightarrow> delete_at i parent | None \<Rightarrow> parent))"

definition PathResumable :: "entry list \<Rightarrow> bool" where
  "PathResumable path = (foldl pendingCalls [] path = [])"

fun resumable_loop ::
  "entry list \<Rightarrow> (string \<Rightarrow> string list) \<Rightarrow> (string \<rightharpoonup> bool) \<Rightarrow> (string \<rightharpoonup> bool)" where
  "resumable_loop [] pending out = out"
| "resumable_loop (e # es) pending out =
    (let left = pendingCalls (pending (e_parent e)) e in
     resumable_loop es (pending(e_id e := left)) (out(e_id e \<mapsto> left = [])))"

definition resumableSet :: "entry list \<Rightarrow> (string \<rightharpoonup> bool)" where
  "resumableSet entries = resumable_loop entries (\<lambda>_. []) (\<lambda>_. None)"

definition Resumable :: "string \<Rightarrow> string \<Rightarrow> db \<Rightarrow> err + bool" where
  "Resumable sid eid d =
    (case EntryPath sid eid d of Inl e \<Rightarrow> Inl e | Inr path \<Rightarrow> Inr (PathResumable path))"

section \<open>The outline\<close>

definition previewLimit :: nat where
  "previewLimit = 80"

definition shorten :: "string \<Rightarrow> string" where
  "shorten s =
    (let s = trim_space s;
         line = takeWhile (\<lambda>c. c \<noteq> CHR 0x0D \<and> c \<noteq> CHR 0x0A) s;
         s = (if line \<noteq> s then trim_space line @ '' ...'' else s);
         rs = runes s in
     if length rs > previewLimit then trim_space (concat (take previewLimit rs)) @ '' ...'' else s)"

text \<open>\<open>doc\<close> is the text of a document, which is shown when nothing better is known.\<close>

definition preview :: "(payload \<Rightarrow> string) \<Rightarrow> entry \<Rightarrow> string" where
  "preview doc e =
    (let note = (case e_payload e of
           PObject t _ \<Rightarrow> if t \<noteq> [] then shorten t else shorten (doc (e_payload e))
         | _ \<Rightarrow> shorten (doc (e_payload e)));
         other = (case Message e of
           Inr (Some m) \<Rightarrow>
             let s = trim_space (m_content m) in
             if s \<noteq> [] then shorten s
             else if length (m_images m) = 1 then ''1 image''
             else if length (m_images m) > 1 then itoa (int (length (m_images m))) @ '' images''
             else if m_tool_calls m \<noteq> []
               then shorten (''calls '' @ join_str '', '' (map tc_name (m_tool_calls m)))
             else []
         | _ \<Rightarrow> note) in
     if e_kind e = KindCompaction then
       (case CompactionOf e of
          Inr c \<Rightarrow> ''compacted about '' @ itoa (c_tokens_before c) @ '' tokens into a summary''
        | Inl _ \<Rightarrow> other)
     else other)"

record node =
  n_id :: string
  n_parent :: string
  n_kind :: entry_kind
  n_preview :: string
  n_commit :: string
  n_resumable :: bool
  n_created :: int

definition Outline :: "(payload \<Rightarrow> string) \<Rightarrow> string \<Rightarrow> db \<Rightarrow> node list" where
  "Outline doc sid d =
    (let entries = Entries sid d; resumable = resumableSet entries in
     map (\<lambda>e. \<lparr>n_id = e_id e, n_parent = e_parent e, n_kind = e_kind e, n_preview = preview doc e,
        n_commit = e_commit e, n_resumable = (case resumable (e_id e) of Some b \<Rightarrow> b | None \<Rightarrow> False),
        n_created = e_created e\<rparr>) entries)"

section \<open>The store of a run\<close>

text \<open>\<open>commit\<close> is what the commit function answers, or \<^const>\<open>None\<close> when the store has none.\<close>

definition run_Append ::
  "pg \<Rightarrow> string \<Rightarrow> int \<Rightarrow> (err + string) option \<Rightarrow> string \<Rightarrow> message \<Rightarrow> db \<Rightarrow> err + db" where
  "run_Append p newID now commit sid m d =
    (let c = (if m_role m = RoleAssistant then (case commit of Some r \<Rightarrow> r | None \<Rightarrow> Inr []) else Inr []) in
     case c of
       Inl e \<Rightarrow> Inl (ErrWrap (''read workspace commit for session '' @ sid) e)
     | Inr commit \<Rightarrow>
         (case AppendMessage p newID now sid m commit d of Inl e \<Rightarrow> Inl e | Inr (_, d) \<Rightarrow> Inr d))"

definition run_AppendCompaction :: "pg \<Rightarrow> string \<Rightarrow> int \<Rightarrow> string \<Rightarrow> compaction \<Rightarrow> db \<Rightarrow> err + db" where
  "run_AppendCompaction p newID now sid c d =
    (case AppendEntry p newID now sid (CompactionEntry c) d of Inl e \<Rightarrow> Inl e | Inr (_, d) \<Rightarrow> Inr d)"

definition Load :: "string \<Rightarrow> db \<Rightarrow> err + string \<times> string \<times> message list" where
  "Load sid d =
    (case Session sid d of
       Inl e \<Rightarrow> Inl e
     | Inr s \<Rightarrow>
         (case tree_Messages sid d of
            Inl e \<Rightarrow> Inl e | Inr msgs \<Rightarrow> Inr (s_id s, s_workspace s, msgs)))"

section \<open>Round trips\<close>

lemma marshal_withArguments: "marshal_message (withArguments m) = marshal_message m"
proof -
  have "marshal_call (c\<lparr>tc_arguments := ''{}''\<rparr>) = marshal_call c" if "tc_arguments c = []" for c
    using that by (simp add: marshal_call_def arguments_JSON_def)
  then show ?thesis by (simp add: withArguments_def marshal_message_def comp_def)
qed

lemma unmarshal_calls_marshal:
  assumes "\<And>t. json_valid t \<Longrightarrow> json_valid (jsonb t)"
  shows "unmarshal_calls (map (\<lambda>c. c\<lparr>wc_arguments := respell jsonb (wc_arguments c)\<rparr>) (map marshal_call cs))
    = Inr (map (canon_call jsonb) cs)"
  using unmarshal_marshal_call [OF assms] by (induction cs) auto

text \<open>What is stored of a message reads back as its canonical spelling.\<close>

lemma Message_MessageEntry:
  assumes "pg_ok p" "MessageEntry m commit = Inr e"
    and "e_kind row = e_kind e" "e_payload row = respell_payload p (e_payload e)"
  shows "Message row = Inr (Some (canon_message (pg_jsonb p) m))"
proof -
  have v: "json_valid t \<Longrightarrow> json_valid (pg_jsonb p t)" for t using assms(1) by (simp add: pg_ok_def)
  have "e_payload e = PMessage (marshal_message m)" "e_kind e \<in> {KindUser, KindAssistant, KindToolResult}"
    using assms(2) by (auto simp: MessageEntry_def kindOf_def new_entry_def marshal_withArguments split: role.splits)
  moreover from this have "e_payload row = PMessage ((marshal_message m)\<lparr>wm_calls :=
      map (\<lambda>c. c\<lparr>wc_arguments := respell (pg_jsonb p) (wc_arguments c)\<rparr>) (map marshal_call (m_tool_calls m))\<rparr>)"
    using assms(4) by (simp add: respell_payload_def marshal_message_def)
  ultimately show ?thesis
    using assms(3) unmarshal_calls_marshal [of "pg_jsonb p" "m_tool_calls m", OF v]
    by (auto simp: Message_def decode_message_def unmarshal_message_def canon_message_def)
qed

lemma MessageEntry_kinds: "MessageEntry m commit = Inr e \<Longrightarrow> e_kind e \<noteq> KindCompaction \<and> e_payload e \<noteq> PNone"
  by (auto simp: MessageEntry_def kindOf_def new_entry_def split: role.splits)

lemma messages_loop_append:
  "messages_loop (xs @ ys) out = (case messages_loop xs out of Inl e \<Rightarrow> Inl e | Inr o' \<Rightarrow> messages_loop ys o')"
  by (induction xs out rule: messages_loop.induct) (auto split: sum.splits option.splits)

section \<open>Text that survives JSON\<close>

lemma rune_len_ascii:
  assumes "between 0 0x7F c"
  shows "rune_len (a # s @ c # t) = rune_len (a # s)"
proof -
  have nb: "\<not> between lo hi c" if "0x80 \<le> lo" for lo hi using assms that by (simp add: between_def)
  then have "\<not> cont c" by (simp add: cont_def)
  show ?thesis
  proof (cases s)
    case Nil
    then show ?thesis using nb \<open>\<not> cont c\<close> by (auto split: list.splits)
  next
    case (Cons b s1)
    show ?thesis
    proof (cases s1)
      case Nil
      then show ?thesis using Cons nb \<open>\<not> cont c\<close> by (auto split: list.splits)
    next
      case Cons1: (Cons d s2)
      show ?thesis
        using Cons Cons1 nb \<open>\<not> cont c\<close> by (cases s2) (auto split: list.splits)
    qed
  qed
qed

lemma rune_len_le: "rune_len s \<le> length s"
  by (cases s) (auto split: list.splits)

lemma runes_ascii:
  assumes "between 0 0x7F c"
  shows "runes (s @ c # t) = runes s @ [c] # runes t"
proof (induction s rule: runes.induct)
  case 1
  then show ?case using assms by simp
next
  case (2 a s)
  show ?case
  proof (cases "rune_len (a # s)")
    case 0
    then show ?thesis using 2(1) rune_len_ascii [OF assms, of a s t] by simp
  next
    case (Suc n)
    then have "n \<le> length s" using rune_len_le [of "a # s"] by simp
    then show ?thesis using 2(2) [OF Suc] Suc rune_len_ascii [OF assms, of a s t] by simp
  qed
qed

abbreviation ascii :: "string \<Rightarrow> bool" where
  "ascii s \<equiv> list_all (between 0 0x7F) s"

lemma utf8_ascii_append: "ascii p \<Longrightarrow> utf8 (p @ s) = p @ utf8 s"
proof (induction p)
  case (Cons c p)
  then show ?case using runes_ascii [of c "[]" "p @ s"] by (simp add: utf8_def)
qed simp

lemma utf8_append_ascii: "ascii (c # q) \<Longrightarrow> utf8 (s @ c # q) = utf8 s @ c # q"
  using runes_ascii [of c s q] utf8_ascii_append [of q "[]"] by (simp add: utf8_def)

lemma canon_SummaryMessage: "canon_message jsonb (SummaryMessage s) = SummaryMessage (utf8 s)"
proof -
  have "ascii summaryPrefix" "ascii summarySuffix" "summarySuffix = CHR 0x0A # ''</summary>''"
    by (simp_all add: summaryPrefix_def summarySuffix_def between_def)
  then have "utf8 (summaryPrefix @ s @ summarySuffix) = summaryPrefix @ utf8 s @ summarySuffix"
    using utf8_append_ascii [of "CHR 0x0A" "''</summary>''" s] by (simp add: utf8_ascii_append)
  moreover have "utf8 [] = []" by (simp add: utf8_def)
  ultimately show ?thesis
    by (simp add: canon_message_def marshal_message_def SummaryMessage_def UserMessage_def zero_message_def)
qed

lemma canon_unmeasured: "canon_message jsonb (m\<lparr>m_metrics := None\<rparr>) = (canon_message jsonb m)\<lparr>m_metrics := None\<rparr>"
  by (simp add: canon_message_def marshal_message_def)

end
