(* ===== verification/Session_Resume.thy ===== *)
theory Session_Resume
  imports Session_Tree
begin

text \<open>
  The rule of \<^verbatim>\<open>resume.go\<close> on a whole tree, and what a run's store makes \<^verbatim>\<open>Load\<close> read: one pass over
  the entries in write order decides for every entry what \<^verbatim>\<open>PathResumable\<close> decides on its path; an
  appended message is read back last, in its canonical spelling; an appended compaction replaces
  what it covers; a fork reads as the path it copied.
\<close>

section \<open>One pass over the tree\<close>

lemma Entries_rows:
  assumes "entries_ok es"
  shows "sort_key e_seq (filter (\<lambda>e. e_session e = sid) es) = rev (filter (\<lambda>e. e_session e = sid) es)"
proof -
  let ?f = "filter (\<lambda>e. e_session e = sid) es"
  have "sorted_wrt (\<lambda>x y. e_seq y < e_seq x) ?f"
    using assms by (induction es) (auto simp: list_all_iff)
  then have "sorted_wrt (<) (map e_seq (rev ?f))" by (simp add: sorted_wrt_map sorted_wrt_rev)
  then have s: "sorted (map e_seq (rev ?f))" "distinct (map e_seq (rev ?f))"
    unfolding strict_sorted_iff by simp_all
  show ?thesis
  proof (rule map_sorted_distinct_set_unique)
    show "inj_on e_seq (set (sort_key e_seq ?f) \<union> set (rev ?f))" using s(2) by (simp add: distinct_map)
    show "distinct (map e_seq (sort_key e_seq ?f))" using s(2) by (simp add: distinct_map)
  qed (use s in simp_all)
qed

definition pending_on :: "entry list \<Rightarrow> string list" where
  "pending_on path = foldl pendingCalls [] path"

lemma pending_on_snoc: "pending_on (p @ [e]) = pendingCalls (pending_on p) e"
  by (simp add: pending_on_def)

text \<open>The two maps of the loop, split off so that the induction sees them.\<close>

fun pending_map :: "entry list \<Rightarrow> (string \<Rightarrow> string list) \<Rightarrow> (string \<Rightarrow> string list)" where
  "pending_map [] pending = pending"
| "pending_map (e # es) pending =
    pending_map es (pending(e_id e := pendingCalls (pending (e_parent e)) e))"

lemma pending_map_append: "pending_map (xs @ ys) p = pending_map ys (pending_map xs p)"
  by (induction xs arbitrary: p) auto

lemma resumable_loop_append:
  "resumable_loop (xs @ [e]) p out
    = (resumable_loop xs p out)(e_id e \<mapsto> pendingCalls (pending_map xs p (e_parent e)) e = [])"
  by (induction xs arbitrary: p out) (simp_all add: Let_def)

lemma pending_map_path:
  assumes "entries_ok es"
  shows "pending_map (rev (filter (\<lambda>e. e_session e = sid) es)) (\<lambda>_. []) i =
    (case find_entry i es of
       Some e \<Rightarrow> if e_session e = sid then pending_on (rev (path_of es i)) else []
     | None \<Rightarrow> [])"
  using assms
proof (induction es arbitrary: i)
  case (Cons e es)
  have IH: "pending_map (rev (filter (\<lambda>e. e_session e = sid) es)) (\<lambda>_. []) j =
      (case find_entry j es of
         Some e \<Rightarrow> if e_session e = sid then pending_on (rev (path_of es j)) else [] | None \<Rightarrow> [])" for j
    using Cons by simp
  show ?case
  proof (cases "e_session e = sid")
    case False
    then show ?thesis using IH [of i] Cons.prems by (auto split: option.splits)
  next
    case True
    have parent: "pending_map (rev (filter (\<lambda>e. e_session e = sid) es)) (\<lambda>_. []) (e_parent e)
        = pending_on (rev (if e_parent e = [] then [] else path_of es (e_parent e)))"
      using IH [of "e_parent e"] Cons.prems True
      by (auto simp: pending_on_def split: option.splits dest: find_entry_Some)
         (metis entries_ok.simps(2) find_entry_Some entries_ok_pos path_of_Nil path_of_root foldl_Nil rev.simps(1) list.distinct(1))+
    show ?thesis
      using True parent IH [of i] Cons.prems
      by (auto simp: pending_map_append pending_on_snoc split: option.splits)
  qed
qed simp

lemma resumable_path:
  assumes "entries_ok es" "find_entry i es = Some e" "e_session e = sid"
  shows "resumableSet (rev (filter (\<lambda>e. e_session e = sid) es)) i = Some (PathResumable (rev (path_of es i)))"
  using assms
proof (induction es arbitrary: i e)
  case (Cons x es)
  show ?case
  proof (cases "e_id x = i")
    case True
    then have "e = x" using Cons.prems(2) by simp
    then show ?thesis
      using True Cons.prems pending_map_path [OF Cons.prems(1), of sid i]
      by (simp add: resumableSet_def resumable_loop_append PathResumable_def pending_map_append pending_on_def)
  next
    case False
    then have "resumableSet (rev (filter (\<lambda>e. e_session e = sid) es)) i = Some (PathResumable (rev (path_of es i)))"
      using Cons.IH [of i e] Cons.prems by simp
    then show ?thesis using False
      by (simp add: resumableSet_def resumable_loop_append)
  qed
qed simp

lemma resumableSet_Entries:
  assumes "db_ok d" "EntryPath sid i d = Inr path"
  shows "resumableSet (Entries sid d) i = Some (PathResumable path)"
proof -
  have es: "entries_ok (d_entries d)" using assms(1) by (simp add: db_ok_def)
  obtain e where "find_entry i (d_entries d) = Some e" "e_session e = sid" "path = rev (path_of (d_entries d) i)"
    using assms(2) es
    by (auto simp: EntryPath_def entryOfSession_def pathQuery_path split: option.splits if_splits)
  then show ?thesis using resumable_path [OF es] by (simp add: Entries_def Entries_rows [OF es])
qed

section \<open>What a run's store makes Load read\<close>

lemma tree_Messages_append:
  assumes "db_ok d" "AppendEntry p newID now sid e d = Inr (out, d')" "newID \<noteq> []" "tree_Messages sid d = Inr ms"
  shows "tree_Messages sid d' = messages_loop [out] ms"
proof -
  obtain path where p: "SessionPath sid d = Inr path" "Messages path = Inr ms"
    using assms(4) by (auto simp: tree_Messages_def split: sum.splits)
  have "SessionPath sid d' = Inr (path @ [out])" by (rule AppendEntry_path [OF assms(1-3) p(1)])
  then show ?thesis using p(2) by (simp add: tree_Messages_def Messages_def messages_loop_append)
qed

lemma AppendEntry_row:
  assumes "AppendEntry p newID now sid e d = Inr (out, d')" "e_payload e \<noteq> PNone"
  shows "e_kind out = e_kind e" "e_payload out = respell_payload p (e_payload e)"
  by (rule AppendEntry_cases [OF assms(1)]; use insertEntry_cases(8,10) assms(2) in fastforce)+

lemma run_Append_messages:
  assumes "pg_ok p" "db_ok d" "newID \<noteq> []" "tree_Messages sid d = Inr ms"
    and "run_Append p newID now commit sid m d = Inr d'"
  shows "db_ok d'" "tree_Messages sid d' = Inr (ms @ [canon_message (pg_jsonb p) m])"
proof -
  obtain c e out where e: "MessageEntry m c = Inr e" and a: "AppendEntry p newID now sid e d = Inr (out, d')"
    using assms(5) by (auto simp: run_Append_def AppendMessage_def Let_def split: sum.splits)
  show "db_ok d'" by (rule AppendEntry_ok [OF assms(2) a assms(3)])
  have k: "e_kind e \<noteq> KindCompaction" "e_payload e \<noteq> PNone" using MessageEntry_kinds [OF e] by simp_all
  note row = AppendEntry_row [OF a k(2)]
  have "Message out = Inr (Some (canon_message (pg_jsonb p) m))"
    by (rule Message_MessageEntry [OF assms(1) e row])
  then show "tree_Messages sid d' = Inr (ms @ [canon_message (pg_jsonb p) m])"
    using tree_Messages_append [OF assms(2) a assms(3,4)] row k by simp
qed

lemma run_AppendCompaction_messages:
  assumes "db_ok d" "newID \<noteq> []" "tree_Messages sid d = Inr ms"
    and "run_AppendCompaction p newID now sid c d = Inr d'"
  shows "db_ok d'" "tree_Messages sid d' = Inr (Compacted ms (c\<lparr>c_summary := utf8 (c_summary c)\<rparr>))"
proof -
  obtain out where a: "AppendEntry p newID now sid (CompactionEntry c) d = Inr (out, d')"
    using assms(4) by (auto simp: run_AppendCompaction_def split: sum.splits)
  show "db_ok d'" by (rule AppendEntry_ok [OF assms(1) a assms(2)])
  have "e_kind out = KindCompaction" "e_payload out
      = PCompaction (c\<lparr>c_summary := utf8 (c_summary c), c_reason := utf8 (c_reason c)\<rparr>)"
    using AppendEntry_row [OF a] by (simp_all add: CompactionEntry_def new_entry_def respell_payload_def)
  then show "tree_Messages sid d' = Inr (Compacted ms (c\<lparr>c_summary := utf8 (c_summary c)\<rparr>))"
    using tree_Messages_append [OF assms(1) a assms(2,3)]
    by (simp add: CompactionOf_def decode_compaction_def Compacted_def Let_def)
qed

section \<open>Forks read like the path they copy\<close>

text \<open>A row of the table: its payload is already in the database's spelling.\<close>

definition spelled :: "pg \<Rightarrow> entry \<Rightarrow> bool" where
  "spelled p e \<longleftrightarrow> respell_payload p (e_payload e) = e_payload e \<and> e_payload e \<noteq> PNone"

lemma copy_of_spelled: "copy_of p e c \<Longrightarrow> spelled p e \<Longrightarrow> e_kind c = e_kind e \<and> e_payload c = e_payload e"
  by (simp add: copy_of_def spelled_def)

lemma messages_loop_copy:
  "list_all2 (copy_of p) xs ys \<Longrightarrow> list_all (spelled p) xs \<Longrightarrow> messages_loop ys out = messages_loop xs out"
proof (induction xs ys arbitrary: out rule: list_all2_induct)
  case (Cons x xs y ys)
  then have "e_kind y = e_kind x" "e_payload y = e_payload x" using copy_of_spelled by auto
  then have "Message y = Message x" "CompactionOf y = CompactionOf x"
    by (simp_all add: Message_def CompactionOf_def)
  with Cons \<open>e_kind y = e_kind x\<close> show ?case by (auto split: sum.splits option.splits)
qed simp

lemma pending_copy:
  "list_all2 (copy_of p) xs ys \<Longrightarrow> list_all (spelled p) xs \<Longrightarrow> foldl pendingCalls q ys = foldl pendingCalls q xs"
proof (induction xs ys arbitrary: q rule: list_all2_induct)
  case (Cons x xs y ys)
  then have "e_kind y = e_kind x" "e_payload y = e_payload x" using copy_of_spelled by auto
  then have "pendingCalls q y = pendingCalls q x" by (simp add: pendingCalls_def Message_def)
  with Cons show ?case by simp
qed simp

definition rows_spelled :: "pg \<Rightarrow> db \<Rightarrow> bool" where
  "rows_spelled p d \<longleftrightarrow> list_all (spelled p) (d_entries d)"

lemma insertEntry_spelled:
  assumes "pg_ok p" "rows_spelled p d" "insertEntry p i now sid parent e d = Inr (row, d')"
  shows "rows_spelled p d'"
proof -
  note r = insertEntry_cases [OF assms(3)]
  have "respell_payload p x \<noteq> PNone" if "x \<noteq> PNone" for x using that by (cases x) (auto simp: respell_payload_def)
  then have "spelled p row" using r(10) respell_payload_idem [OF assms(1)] by (auto simp: spelled_def)
  then show ?thesis using assms(2) r(1) by (simp add: rows_spelled_def)
qed

lemma ForkSession_reads:
  assumes "db_ok d" "rows_spelled p d" "ForkSession p newID ids now sid eid opts d = Inr (fork, d')"
    "newID \<noteq> []" "[] \<notin> set ids"
  shows "\<exists>path. EntryPath sid eid d = Inr path \<and> tree_Messages newID d' = Messages path
    \<and> (\<exists>new. SessionPath newID d' = Inr new \<and> PathResumable new = PathResumable path)"
proof -
  obtain path new where p: "EntryPath sid eid d = Inr path" "SessionPath newID d' = Inr new"
      "list_all2 (copy_of p) path new"
    using ForkSession_spec(5) [OF assms(1,3-5)] by blast
  have es: "entries_ok (d_entries d)" using assms(1) by (simp add: db_ok_def)
  then have "path = rev (path_of (d_entries d) eid)"
    using p(1) by (auto simp: EntryPath_def pathQuery_path split: sum.splits)
  then have "list_all (spelled p) path"
    using assms(2) path_of_subset [of "d_entries d" eid] by (auto simp: rows_spelled_def list_all_iff)
  then show ?thesis using p messages_loop_copy pending_copy
    by (auto simp: tree_Messages_def Messages_def PathResumable_def)
qed

end
