(* ===== verification/Stored_Agent.thy ===== *)
theory Stored_Agent
  imports Agent_Shape Session_Resume
begin

text \<open>
  The agent on the session store: \<open>db_agent\<close> is an agent whose messages go to the database of
  \<open>Session_Store\<close> through \<^verbatim>\<open>session.Store\<close>, and whose other surroundings are those of any other
  agent. It satisfies the contracts of \<open>message_store\<close> and \<open>terminal_store\<close>, so what was proved in
  them holds of it: after every run, however it ended, loading the session gives the conversation
  the run had, and that conversation is one an endpoint accepts.
\<close>

section \<open>The agent\<close>

record 'x dbw =
  w_db :: db
  w_now :: int
  w_rest :: 'x

definition on_rest :: "('x \<Rightarrow> 'r \<times> 'x) \<Rightarrow> 'x dbw \<Rightarrow> 'r \<times> 'x dbw" where
  "on_rest f w = (let (r, x) = f (w_rest w) in (r, w\<lparr>w_rest := x\<rparr>))"

definition on_db :: "('x dbw \<Rightarrow> err + db) \<Rightarrow> 'x dbw \<Rightarrow> err option \<times> 'x dbw" where
  "on_db f w = (case f w of Inl e \<Rightarrow> (Some e, w) | Inr d \<Rightarrow> (None, w\<lparr>w_db := d\<rparr>))"

text \<open>
  \<open>gen\<close> stands for \<^verbatim>\<open>NewID\<close> and \<open>commit\<close> for the commit function of the store. A write on the run's
  own context fails once that context is done; a terminal write does not look at it.
\<close>

definition db_append ::
  "pg \<Rightarrow> (entry list \<Rightarrow> string) \<Rightarrow> ('x \<Rightarrow> (err + string) option \<times> 'x) \<Rightarrow> string \<Rightarrow> 'x agent
    \<Rightarrow> bool \<Rightarrow> message \<Rightarrow> 'x dbw \<Rightarrow> err option \<times> 'x dbw" where
  "db_append p gen commit sid base terminal m w =
    (let (c, w) = (if terminal then (None, w) else on_rest (a_ctx_err base) w) in
     case c of
       Some e \<Rightarrow> (Some e, w)
     | None \<Rightarrow>
         let (commit, w) = on_rest commit w in
         on_db (\<lambda>w. run_Append p (gen (d_entries (w_db w))) (w_now w) commit sid m (w_db w)) w)"

definition db_append_compaction ::
  "pg \<Rightarrow> (entry list \<Rightarrow> string) \<Rightarrow> string \<Rightarrow> 'x agent \<Rightarrow> compaction \<Rightarrow> 'x dbw \<Rightarrow> err option \<times> 'x dbw" where
  "db_append_compaction p gen sid base c w =
    (let (e, w) = on_rest (a_ctx_err base) w in
     case e of
       Some e \<Rightarrow> (Some e, w)
     | None \<Rightarrow> on_db (\<lambda>w. run_AppendCompaction p (gen (d_entries (w_db w))) (w_now w) sid c (w_db w)) w)"

definition db_agent ::
  "pg \<Rightarrow> (entry list \<Rightarrow> string) \<Rightarrow> ('x \<Rightarrow> (err + string) option \<times> 'x) \<Rightarrow> string \<Rightarrow> 'x agent \<Rightarrow> 'x dbw agent" where
  "db_agent p gen commit sid base =
    \<lparr>a_opts = a_opts base, a_enc = a_enc base, a_session = sid, a_workspace = a_workspace base,
     a_base_prompts = a_base_prompts base, a_render = a_render base, a_quote = a_quote base,
     a_encodes = a_encodes base,
     a_discover = on_rest (a_discover base),
     a_ctx_err = on_rest (a_ctx_err base),
     a_stream = (\<lambda>req. on_rest (a_stream base req)),
     a_sleep = (\<lambda>t. on_rest (a_sleep base t)),
     a_append = db_append p gen commit sid base,
     a_append_compaction = db_append_compaction p gen sid base,
     a_tool = (\<lambda>runID t c. on_rest (a_tool base runID t c)),
     a_record = (\<lambda>runID c u w. w\<lparr>w_rest := a_record base runID c u (w_rest w)\<rparr>),
     a_run_id = on_rest (a_run_id base),
     a_now = on_rest (a_now base),
     a_incoming = on_rest (a_incoming base)\<rparr>"

lemma db_agent_opts [simp]: "a_opts (db_agent p gen commit sid base) = a_opts base"
  by (simp add: db_agent_def)

section \<open>What a session holds\<close>

definition db_load :: "string \<Rightarrow> 'x dbw \<Rightarrow> message list" where
  "db_load sid w = (case tree_Messages sid (w_db w) of Inr ms \<Rightarrow> ms | Inl _ \<Rightarrow> [])"

definition db_good :: "string \<Rightarrow> 'x dbw \<Rightarrow> bool" where
  "db_good sid w \<longleftrightarrow> db_ok (w_db w) \<and> (\<exists>ms. tree_Messages sid (w_db w) = Inr ms)"

text \<open>An identifier that no row has: what a fresh id is relied on for.\<close>

definition fresh_ids :: "(entry list \<Rightarrow> string) \<Rightarrow> bool" where
  "fresh_ids gen \<longleftrightarrow> (\<forall>es. gen es \<noteq> [] \<and> find_entry (gen es) es = None)"

lemma on_rest_db: "w_db (snd (on_rest f w)) = w_db w"
  by (simp add: on_rest_def Let_def split: prod.splits)

lemma on_restD: "on_rest f w = (r, w') \<Longrightarrow> w_db w' = w_db w"
  using on_rest_db [of f w] by simp

lemma db_good_cong: "w_db w' = w_db w \<Longrightarrow> db_good sid w' = db_good sid w"
  by (simp add: db_good_def)

lemma db_load_cong: "w_db w' = w_db w \<Longrightarrow> db_load sid w' = db_load sid w"
  by (simp add: db_load_def)

lemma db_append_cases:
  assumes "db_append p gen commit sid base t m w = (e, w')"
  obtains f where "e = Some f" "w_db w' = w_db w"
  | c d where "e = None" "run_Append p (gen (d_entries (w_db w))) (w_now w) c sid m (w_db w) = Inr d" "w_db w' = d"
proof -
  obtain c1 w1 where 1: "(if t then (None, w) else on_rest (a_ctx_err base) w) = (c1, w1)" by fastforce
  have d1: "w_db w1 = w_db w" "w_now w1 = w_now w"
    using 1 by (auto simp: on_rest_def Let_def split: if_splits prod.splits)
  obtain c2 w2 where 2: "on_rest commit w1 = (c2, w2)" by fastforce
  have d2: "w_db w2 = w_db w" "w_now w2 = w_now w"
    using 2 d1 by (auto simp: on_rest_def Let_def split: prod.splits)
  show ?thesis
    using assms 1 2 d1 d2 that
    by (cases c1) (auto simp: db_append_def on_db_def Let_def split: sum.splits)
qed

lemma db_append_compaction_cases:
  assumes "db_append_compaction p gen sid base c w = (e, w')"
  obtains f where "e = Some f" "w_db w' = w_db w"
  | d where "e = None" "run_AppendCompaction p (gen (d_entries (w_db w))) (w_now w) sid c (w_db w) = Inr d"
      "w_db w' = d"
proof -
  obtain c1 w1 where 1: "on_rest (a_ctx_err base) w = (c1, w1)" by fastforce
  have d1: "w_db w1 = w_db w" "w_now w1 = w_now w"
    using 1 by (auto simp: on_rest_def Let_def split: prod.splits)
  show ?thesis
    using assms 1 d1 that
    by (cases c1) (auto simp: db_append_compaction_def on_db_def Let_def split: sum.splits)
qed

section \<open>The contracts hold\<close>

lemma db_append_good:
  assumes "pg_ok p" "fresh_ids gen" "db_good sid w" "db_append p gen commit sid base t m w = (e, w')"
  shows "db_good sid w'"
    and "db_load sid w' = db_load sid w @ (if e = None then [canon_message (pg_jsonb p) m] else [])"
proof -
  obtain ms where ok: "db_ok (w_db w)" and ms: "tree_Messages sid (w_db w) = Inr ms"
    using assms(3) by (auto simp: db_good_def)
  have ne: "gen (d_entries (w_db w)) \<noteq> []" using assms(2) by (simp add: fresh_ids_def)
  have "db_good sid w' \<and> db_load sid w' = db_load sid w @ (if e = None then [canon_message (pg_jsonb p) m] else [])"
  proof (rule db_append_cases [OF assms(4)])
    fix c d assume r: "e = None" "run_Append p (gen (d_entries (w_db w))) (w_now w) c sid m (w_db w) = Inr d" "w_db w' = d"
    note a = run_Append_messages [OF assms(1) ok ne ms r(2)]
    then show ?thesis using r ms by (simp add: db_good_def db_load_def)
  qed (use assms(3) in \<open>auto simp: db_good_def db_load_def\<close>)
  then show "db_good sid w'"
    and "db_load sid w' = db_load sid w @ (if e = None then [canon_message (pg_jsonb p) m] else [])" by auto
qed

lemma db_append_compaction_good:
  assumes "fresh_ids gen" "db_good sid w" "db_append_compaction p gen sid base c w = (e, w')"
  shows "db_good sid w'"
    and "db_load sid w' = (if e = None then Compacted (db_load sid w) (c\<lparr>c_summary := utf8 (c_summary c)\<rparr>)
          else db_load sid w)"
proof -
  obtain ms where ok: "db_ok (w_db w)" and ms: "tree_Messages sid (w_db w) = Inr ms"
    using assms(2) by (auto simp: db_good_def)
  have ne: "gen (d_entries (w_db w)) \<noteq> []" using assms(1) by (simp add: fresh_ids_def)
  have "db_good sid w' \<and> db_load sid w' = (if e = None then Compacted (db_load sid w) (c\<lparr>c_summary := utf8 (c_summary c)\<rparr>)
          else db_load sid w)"
  proof (rule db_append_compaction_cases [OF assms(3)])
    fix d assume r: "e = None" "run_AppendCompaction p (gen (d_entries (w_db w))) (w_now w) sid c (w_db w) = Inr d" "w_db w' = d"
    note a = run_AppendCompaction_messages [OF ok ne ms r(2)]
    then show ?thesis using r ms by (simp add: db_good_def db_load_def)
  qed (use assms(2) in \<open>auto simp: db_good_def db_load_def\<close>)
  then show "db_good sid w'"
    and "db_load sid w' = (if e = None then Compacted (db_load sid w) (c\<lparr>c_summary := utf8 (c_summary c)\<rparr>)
          else db_load sid w)" by auto
qed

lemma message_store_db:
  fixes base :: "'x agent"
  assumes "pg_ok p" "fresh_ids gen"
  shows "message_store (db_agent p gen commit sid base) (db_good sid) (db_load sid) (canon_message (pg_jsonb p)) utf8"
proof unfold_locales
  fix terminal m e and w w' :: "'x dbw"
  assume g: "db_good sid w"
  show "db_good sid w' \<and> db_load sid w' = db_load sid w @ [canon_message (pg_jsonb p) m]"
    if "a_append (db_agent p gen commit sid base) terminal m w = (None, w')"
    using db_append_good [OF assms g, of commit base terminal m None w'] that by (simp add: db_agent_def)
  show "db_good sid w' \<and> db_load sid w' = db_load sid w"
    if "a_append (db_agent p gen commit sid base) terminal m w = (Some e, w')"
    using db_append_good [OF assms g, of commit base terminal m "Some e" w'] that by (simp add: db_agent_def)
next
  fix c e and w w' :: "'x dbw"
  assume g: "db_good sid w"
  show "db_good sid w' \<and> db_load sid w' = Compacted (db_load sid w) (c\<lparr>c_summary := utf8 (c_summary c)\<rparr>)"
    if "a_append_compaction (db_agent p gen commit sid base) c w = (None, w')"
    using db_append_compaction_good [OF assms(2) g, of p base c None w'] that by (simp add: db_agent_def)
  show "db_good sid w' \<and> db_load sid w' = db_load sid w"
    if "a_append_compaction (db_agent p gen commit sid base) c w = (Some e, w')"
    using db_append_compaction_good [OF assms(2) g, of p base c "Some e" w'] that by (simp add: db_agent_def)
qed (auto simp: db_agent_def on_rest_db canon_SummaryMessage canon_unmeasured
    intro: db_good_cong [THEN iffD2] db_load_cong)

text \<open>
  The terminal writes: the session's head can be locked, the new id is free, and the database takes
  the document, which is what \<open>accepts\<close> asks of it.
\<close>

definition accepts_abandoned :: "pg \<Rightarrow> bool" where
  "accepts_abandoned p \<longleftrightarrow>
     (\<forall>c cause. pg_refuses p (PMessage (marshal_message (abandoned c cause))) = None)"

lemma abandoned_appended:
  assumes "accepts_abandoned p" "fresh_ids gen" "db_good sid w"
  shows "fst (db_append p gen commit sid base True (abandoned tc cause) w) = None"
proof -
  obtain s where s: "find_session sid (w_db w) = Some s" and ok: "db_ok (w_db w)"
    using assms(3)
    by (auto simp: db_good_def tree_Messages_def SessionPath_def Session_def split: option.splits sum.splits)
  have r: "m_role (abandoned tc cause) = RoleTool" by (simp add: abandoned_def message_defs)
  have "withArguments (abandoned tc cause) = abandoned tc cause"
    by (simp add: withArguments_def abandoned_def message_defs)
  then have e: "MessageEntry (abandoned tc cause) c
      = Inr (new_entry KindToolResult (PMessage (marshal_message (abandoned tc cause))) c)" for c
    by (simp add: MessageEntry_def kindOf_def r)
  have "\<exists>out d. AppendEntry p (gen (d_entries (w_db w))) now sid
      (new_entry KindToolResult (PMessage (marshal_message (abandoned tc cause))) []) (w_db w) = Inr (out, d)" for now
    using assms(1,2) s db_ok_head [OF ok s]
    by (fastforce simp: AppendEntry_def lockSessionHead_def insertEntry_def setHead_def new_entry_def
        accepts_abandoned_def fresh_ids_def Let_def)
  then obtain out d where "AppendEntry p (gen (d_entries (w_db w))) (w_now w) sid
      (new_entry KindToolResult (PMessage (marshal_message (abandoned tc cause))) []) (w_db w) = Inr (out, d)" by blast
  then have "run_Append p (gen (d_entries (w_db w))) (w_now w) c sid (abandoned tc cause) (w_db w) = Inr d" for c
    using r e by (simp add: run_Append_def AppendMessage_def)
  moreover obtain c2 w2 where 2: "on_rest commit w = (c2, w2)" by fastforce
  moreover have "w_db w2 = w_db w" "w_now w2 = w_now w"
    using 2 by (auto simp: on_rest_def Let_def split: prod.splits)
  ultimately show ?thesis by (simp add: db_append_def on_db_def)
qed

text \<open>What the stored path of a session leaves unanswered.\<close>

definition db_debt :: "string \<Rightarrow> 'x dbw \<Rightarrow> string list" where
  "db_debt sid w = (case SessionPath sid (w_db w) of Inr path \<Rightarrow> pending_on path | Inl _ \<Rightarrow> [])"

lemma db_debt_cong: "w_db w' = w_db w \<Longrightarrow> db_debt sid w' = db_debt sid w"
  by (simp add: db_debt_def)

lemma index_remove1:
  "(case index_of (\<lambda>i. i = x) xs of Some i \<Rightarrow> delete_at i xs | None \<Rightarrow> xs) = remove1 x xs"
proof (cases "index_of (\<lambda>i. i = x) xs")
  case None
  have "index_of (\<lambda>i. i = x) xs = None \<Longrightarrow> x \<notin> set xs" by (induction xs) (auto split: if_splits)
  with None show ?thesis by (simp add: remove1_idem)
qed (simp add: delete_at_index_remove1)

lemma pendingCalls_canon:
  assumes "Message e = Inr (Some (canon_message jsonb m))"
  shows "pendingCalls q e = owe utf8 m q"
proof -
  have "utf8_role r = RoleTool \<longleftrightarrow> r = RoleTool" for r by (cases r) auto
  then show ?thesis
    using assms by (simp add: pendingCalls_def owe_def canon_message_def marshal_message_def index_remove1
        canon_call_def comp_def)
qed

lemma db_debt_append:
  assumes "db_good sid w" "AppendEntry p newID now sid e (w_db w) = Inr (out, w_db w')" "newID \<noteq> []"
  shows "db_debt sid w' = pendingCalls (db_debt sid w) out"
proof -
  obtain path where path: "SessionPath sid (w_db w) = Inr path" and ok: "db_ok (w_db w)"
    using assms(1) by (auto simp: db_good_def tree_Messages_def split: sum.splits)
  show ?thesis using AppendEntry_path [OF ok assms(2,3) path] path
    by (simp add: db_debt_def pending_on_snoc)
qed

lemma db_append_debt:
  assumes "pg_ok p" "fresh_ids gen" "db_good sid w" "db_append p gen commit sid base t m w = (e, w')"
  shows "db_debt sid w' = (if e = None then owe utf8 m (db_debt sid w) else db_debt sid w)"
proof (rule db_append_cases [OF assms(4)])
  fix c d assume r: "e = None" "run_Append p (gen (d_entries (w_db w))) (w_now w) c sid m (w_db w) = Inr d"
    "w_db w' = d"
  obtain cm en out where en: "MessageEntry m cm = Inr en"
    and ap: "AppendEntry p (gen (d_entries (w_db w))) (w_now w) sid en (w_db w) = Inr (out, w_db w')"
    using r(2,3) by (auto simp: run_Append_def AppendMessage_def Let_def split: sum.splits)
  have "Message out = Inr (Some (canon_message (pg_jsonb p) m))"
    by (rule Message_MessageEntry [OF assms(1) en AppendEntry_row [OF ap]]) (use MessageEntry_kinds [OF en] in simp_all)
  then show ?thesis
    using db_debt_append [OF assms(3) ap] assms(2) r(1) by (simp add: fresh_ids_def pendingCalls_canon)
qed (simp add: db_debt_def)

lemma db_append_compaction_debt:
  assumes "fresh_ids gen" "db_good sid w" "db_append_compaction p gen sid base c w = (e, w')"
  shows "db_debt sid w' = db_debt sid w"
proof (rule db_append_compaction_cases [OF assms(3)])
  fix d assume r: "e = None"
    "run_AppendCompaction p (gen (d_entries (w_db w))) (w_now w) sid c (w_db w) = Inr d" "w_db w' = d"
  obtain out where ap: "AppendEntry p (gen (d_entries (w_db w))) (w_now w) sid (CompactionEntry c) (w_db w)
      = Inr (out, w_db w')"
    using r(2,3) by (auto simp: run_AppendCompaction_def split: sum.splits)
  have "e_kind out = KindCompaction"
    using AppendEntry_row(1) [OF ap] by (simp add: CompactionEntry_def new_entry_def)
  then have "pendingCalls q out = q" for q by (simp add: pendingCalls_def Message_def)
  then show ?thesis using db_debt_append [OF assms(2) ap] assms(1) by (simp add: fresh_ids_def)
qed (simp add: db_debt_def)

lemma terminal_store_db:
  fixes base :: "'x agent"
  assumes "pg_ok p" "fresh_ids gen" "accepts_abandoned p"
    and "\<forall>x. list_all (plain \<circ> incoming_message) (fst (a_incoming base x))"
  shows "terminal_store (db_agent p gen commit sid base) (db_good sid) (db_debt sid) utf8"
proof unfold_locales
  fix terminal m e and w w' :: "'x dbw"
  assume g: "db_good sid w"
  show "db_good sid w' \<and> db_debt sid w' = owe utf8 m (db_debt sid w)"
    if "a_append (db_agent p gen commit sid base) terminal m w = (None, w')"
    using db_append_good(1) [OF assms(1,2) g, of commit base terminal m None w']
      db_append_debt [OF assms(1,2) g, of commit base terminal m None w'] that by (simp add: db_agent_def)
  show "db_good sid w' \<and> db_debt sid w' = db_debt sid w"
    if "a_append (db_agent p gen commit sid base) terminal m w = (Some e, w')"
    using db_append_good(1) [OF assms(1,2) g, of commit base terminal m "Some e" w']
      db_append_debt [OF assms(1,2) g, of commit base terminal m "Some e" w'] that by (simp add: db_agent_def)
next
  fix c r and w w' :: "'x dbw"
  assume g: "db_good sid w"
  show "db_good sid w' \<and> db_debt sid w' = db_debt sid w"
    if "a_append_compaction (db_agent p gen commit sid base) c w = (r, w')"
    using db_append_compaction_good(1) [OF assms(2) g, of p base c r w']
      db_append_compaction_debt [OF assms(2) g, of p base c r w'] that by (simp add: db_agent_def)
next
  fix w :: "'x dbw" assume g: "db_good sid w"
  show "fst (a_append (db_agent p gen commit sid base) True (abandoned tc cause) w) = None" for tc cause
    using abandoned_appended [OF assms(3,2) g] by (simp add: db_agent_def)
  show "list_all (plain \<circ> incoming_message) (fst (a_incoming (db_agent p gen commit sid base) w))"
    using assms(4) [rule_format, of "w_rest w"]
    by (auto simp: db_agent_def on_rest_def Let_def split: prod.splits)
qed (auto simp: db_agent_def on_rest_db db_debt_def intro: db_good_cong [THEN iffD2])

section \<open>A database and an agent to run\<close>

text \<open>
  A database that keeps the spelling of a document and refuses none, and fresh ids longer than any
  id in use: the contracts on concrete definitions.
\<close>

definition plain_pg :: pg where
  "plain_pg = \<lparr>pg_jsonb = (\<lambda>t. t), pg_refuses = (\<lambda>_. None), pg_refs = (\<lambda>_. True)\<rparr>"

definition long_id :: "entry list \<Rightarrow> string" where
  "long_id es = replicate (Suc (fold max (map (\<lambda>e. length (e_id e)) es) 0)) (CHR ''e'')"

lemma plain_pg_ok: "pg_ok plain_pg" "accepts_abandoned plain_pg"
  by (simp_all add: pg_ok_def accepts_abandoned_def plain_pg_def)

lemma fold_max_ge: "x \<in> set xs \<Longrightarrow> x \<le> fold max xs (n :: nat)"
proof -
  assume "x \<in> set xs"
  then have "x \<le> Max (set (n # xs))" by (intro Max_ge) auto
  then show ?thesis by (simp only: Max.set_eq_fold)
qed

lemma long_id_fresh: "fresh_ids long_id"
proof -
  have "e_id e \<noteq> long_id es" if "e \<in> set es" for e es
  proof -
    have "length (e_id e) \<le> fold max (map (\<lambda>e. length (e_id e)) es) 0"
      by (rule fold_max_ge) (use that in auto)
    then show ?thesis by (auto simp: long_id_def)
  qed
  then show ?thesis by (auto simp: fresh_ids_def find_entry_None long_id_def)
qed

interpretation stored: message_store "db_agent plain_pg long_id commit sid base" "db_good sid" "db_load sid"
    "canon_message (pg_jsonb plain_pg)" utf8 for commit sid base
  by (rule message_store_db [OF plain_pg_ok(1) long_id_fresh])

definition quiet_agent :: "'x agent \<Rightarrow> 'x agent" where
  "quiet_agent base = base\<lparr>a_incoming := (\<lambda>w. ([], w))\<rparr>"

interpretation terminal: terminal_store "db_agent plain_pg long_id commit sid (quiet_agent base)" "db_good sid"
    "db_debt sid" utf8 for commit sid base
  by (rule terminal_store_db [OF plain_pg_ok(1) long_id_fresh plain_pg_ok(2)]) (simp add: quiet_agent_def)

end
