(* ===== verification/Agent_Ends.thy ===== *)
theory Agent_Ends
  imports Agent_Sync
begin

text \<open>
  How turns and runs end: the event a turn announces its end with, what is in the queues then, how
  many messages a failed turn puts back and where, and how many requests one model call sends.
\<close>

section \<open>The last event\<close>

text \<open>Every event of the agent can be encoded, so none is dropped.\<close>

definition encodes_all :: "'w agent \<Rightarrow> bool" where
  "encodes_all a \<longleftrightarrow> (\<forall>e. a_encodes a e)"

lemma emit_encoded: "encodes_all a \<Longrightarrow> events (emit a e st) = events st @ [e]"
  by (simp add: encodes_all_def emit_def)

text \<open>
  A turn that succeeds ends with \<^verbatim>\<open>turn.end\<close>; one that fails ends with \<^verbatim>\<open>run.error\<close>, except when
  what failed is storing the reply.
\<close>

definition announced :: "string \<Rightarrow> err option \<Rightarrow> 'w ast \<Rightarrow> bool" where
  "announced runID r st \<longleftrightarrow> events st \<noteq> [] \<and>
    (case r of
       None \<Rightarrow> (\<exists>stop rep. last (events st) = EvTurnEnd runID stop rep)
     | Some e \<Rightarrow> last (events st) = EvRunError runID (err_text e) (Retryable e))"

definition reply_not_stored :: "err option \<Rightarrow> bool" where
  "reply_not_stored r \<longleftrightarrow> (\<exists>f. r = Some (ErrWrap ''store message'' f))"

lemma announced_fail:
  "encodes_all a \<Longrightarrow> agent_fail a runID e st = (r, st') \<Longrightarrow> announced runID r st'"
  by (auto simp: agent_fail_def announced_def emit_encoded)

lemma announced_give_up:
  "encodes_all a \<Longrightarrow> give_up a runID cs e st = (r, st') \<Longrightarrow> announced runID r st'"
  by (auto simp: give_up_def Let_def split: prod.splits intro: announced_fail)

lemma announced_run_calls:
  "encodes_all a \<Longrightarrow> run_calls a runID cs st = (Some e, st') \<Longrightarrow> announced runID (Some e) st'"
proof (induction cs arbitrary: st)
  case (Cons c cs)
  from Cons.prems(2) show ?case
    by (auto split: prod.splits option.splits sum.splits intro: announced_give_up [OF Cons.prems(1)]
        Cons.IH [OF Cons.prems(1)])
qed simp

lemma agent_append_error:
  "agent_append a t m st = (Some e, st') \<Longrightarrow> reply_not_stored (Some e) \<and> events st' = events st"
  by (auto simp: agent_append_def agent_store_def reply_not_stored_def dest!: lift_worldD
      split: if_splits prod.splits option.splits)

lemma announced_turn_reply:
  assumes "encodes_all a" "turn_reply a runID resp gen st = (Inl r, st')"
  shows "announced runID r st' \<or> reply_not_stored r"
proof -
  let ?m = "with_metrics a runID gen (rs_message resp)"
  obtain e s1 where e: "(if empty_reply ?m then (None, st)
      else agent_append a (m_tool_calls ?m \<noteq> []) ?m st) = (e, s1)" by fastforce
  show ?thesis
  proof (cases e)
    case (Some f)
    then have "r = Some f" using assms(2) e by (simp add: turn_reply_def Let_def)
    moreover have "agent_append a (m_tool_calls ?m \<noteq> []) ?m st = (Some f, s1)"
      using e Some by (simp split: if_splits)
    ultimately show ?thesis using agent_append_error [of a] by simp
  next
    case None
    then show ?thesis using assms e
      by (auto simp: turn_reply_def Let_def announced_def emit_encoded split: if_splits option.splits prod.splits
          dest: announced_run_calls)
  qed
qed

lemma announced_turn_failed:
  "encodes_all a \<Longrightarrow> turn_failed a runID stored tu e st = (r, st') \<Longrightarrow> \<exists>x. r = Inl x \<and> announced runID x st'"
  by (auto simp: turn_failed_def Let_def split: prod.splits intro: announced_fail)

lemma announced_turn_step:
  assumes "encodes_all a" "turn_step a runID prompt tu st = (Inl r, st')"
  shows "announced runID r st' \<or> reply_not_stored r"
proof -
  note failed = announced_turn_failed [OF assms(1)]
  obtain tu1 s1 where d: "deliver_steering a tu st = (tu1, s1)" by fastforce
  obtain c s2 where c: "lift_world (a_ctx_err a) s1 = (c, s2)" by fastforce
  obtain x gen mark s3 where ca: "call a runID prompt False False (tu_gen tu1) (tu_mark tu1) s2
      = (x, gen, mark, s3)" by (metis prod_cases4)
  let ?tu = "tu1\<lparr>tu_gen := gen, tu_mark := mark\<rparr>"
  consider (failed) stored tu e s where "turn_failed a runID stored tu e s = (Inl r, st')"
    | (answered) resp sent where "turn_answered a runID resp sent ?tu s3 = (Inl r, st')"
    using assms(2) d c ca by (auto simp: turn_step_def Let_def split: option.splits sum.splits)
  then show ?thesis
  proof cases
    case failed
    then show ?thesis using announced_turn_failed [OF assms(1)] by fastforce
  next
    case answered
    obtain z s4 where sp: "store_pending a (tu_pending ?tu) 0 s3 = (z, s4)" by fastforce
    consider (failed) stored tu e s where "turn_failed a runID stored tu e s = (Inl r, st')"
      | (reply) gen s where "turn_reply a runID resp gen s = (Inl r, st')"
      using answered sp
      by (auto simp: turn_answered_def Let_def split: option.splits prod.splits sum.splits unit.splits)
    then show ?thesis using announced_turn_failed [OF assms(1)] announced_turn_reply [OF assms(1)]
      by cases fastforce+
  qed
qed

lemma announced_turn_loop:
  "encodes_all a \<Longrightarrow> turn_loop fuel a runID prompt tu st = Some (r, st') \<Longrightarrow>
    announced runID r st' \<or> reply_not_stored r"
proof (induction fuel arbitrary: tu st)
  case (Suc fuel)
  obtain x s1 where t: "turn_step a runID prompt tu st = (x, s1)" by fastforce
  show ?case
  proof (cases x)
    case (Inl y)
    then show ?thesis using announced_turn_step [OF Suc.prems(1)] t Suc.prems(2) by simp
  next
    case (Inr tu')
    then show ?thesis using Suc.IH [OF Suc.prems(1)] t Suc.prems(2) by simp
  qed
qed simp

lemma announced_turn:
  "encodes_all a \<Longrightarrow> turn fuel a prompt msgs orig st = Some (r, st') \<Longrightarrow>
    (\<exists>runID. announced runID r st') \<or> reply_not_stored r"
  by (auto simp: turn_def split: prod.splits dest: announced_turn_loop)

section \<open>The queues\<close>

lemma poll_closed: "\<not> accepting (queues st) \<Longrightarrow> queues (poll a st) = queues st"
  by (auto simp: poll_def Let_def accept_all_closed dest!: lift_worldD split: prod.splits)

lemma close_run_queues:
  "\<not> accepting (queues (close_run a st))"
  "\<not> accepting (queues st) \<Longrightarrow> queues (close_run a st) = queues st"
  by (simp_all add: close_run_def closeQueues_def poll_closed Let_def)

lemma run_loop_queues:
  "run_loop fuel a prompt msgs orig st = Some (r, st') \<Longrightarrow>
    \<not> accepting (queues st') \<and> (r = None \<longrightarrow> PendingSteering (queues st') = [] \<and> PendingFollowUps (queues st') = [])"
proof (induction fuel arbitrary: msgs orig st)
  case (Suc fuel)
  obtain x s1 where t: "turn (Suc fuel) a prompt msgs orig st = Some (x, s1)"
    using Suc.prems by (auto split: option.splits)
  obtain ms o1 q where n: "nextQueued (case o_queue (a_opts a) of Some m \<Rightarrow> m | None \<Rightarrow> QueueOneAtATime)
      (queues (poll a s1)) = ((ms, o1), q)" by (metis prod_cases3 surj_pair)
  show ?case
  proof (cases "x = None \<and> ms \<noteq> []")
    case True
    then show ?thesis using Suc.prems t n Suc.IH [of ms o1 "(poll a s1)\<lparr>queues := q\<rparr>"] by (simp add: Let_def)
  next
    case False
    show ?thesis
    proof (cases x)
      case (Some e)
      then have "st' = close_run a s1" "r = Some e" using Suc.prems t by simp_all
      then show ?thesis by (simp add: close_run_queues)
    next
      case None
      then have "r = None" "st' = close_run a ((poll a s1)\<lparr>queues := q\<rparr>)" "ms = []"
        using False Suc.prems t n by (simp_all add: Let_def)
      then show ?thesis using nextQueued_cases [OF n] close_run_queues(2) [of "(poll a s1)\<lparr>queues := q\<rparr>" a]
        by (simp add: close_run_queues(1) PendingSteering_def PendingFollowUps_def q_pending_def)
    qed
  qed
qed simp

section \<open>Requests\<close>

text \<open>\<open>calls\<close> counts the requests an endpoint received.\<close>

lemma retrying_calls:
  fixes calls :: "'w \<Rightarrow> nat"
  assumes "\<And>req w. calls (snd (a_stream a req w)) = Suc (calls w)"
    and "\<And>w. calls (snd (a_ctx_err a w)) = calls w" "\<And>t w. calls (snd (a_sleep a t w)) = calls w"
    and "retrying a runID reset (stream a runID req) 0 backoff gen st = (r, gen', st')"
  shows "calls (world st) < calls (world st')"
    and "calls (world st') \<le> calls (world st) + nat (o_max_retries (a_opts a)) + 1"
proof -
  let ?P = "\<lambda>m (g :: generation option) s. int (calls (world s)) = int (calls (world st)) + m"
  have "\<exists>m. ?P (m + 1) gen' st' \<and> 0 \<le> m \<and> m \<le> max 0 (o_max_retries (a_opts a))
    \<and> (\<forall>x. r = Inr x \<longrightarrow> (\<exists>g s. ?P m g s \<and> stream a runID req g s = (Inr x, gen', st')))"
    by (rule retrying_rule [OF assms(4), where P = ?P])
      (auto simp: assms(1) dest!: stream_fields(3) lift_worldD, (metis assms(2,3) snd_conv)+)
  then show "calls (world st) < calls (world st')"
    and "calls (world st') \<le> calls (world st) + nat (o_max_retries (a_opts a)) + 1" by auto
qed

section \<open>What a failed turn puts back\<close>

lemma restoreFrom_queues:
  assumes "stored \<le> length (tu_msgs tu @ tu_steered tu)"
  shows "PendingSteering (queues (restoreFrom a stored tu st)) =
      drop (stored - length (tu_msgs tu)) (tu_steered tu)
        @ (if tu_origin tu = Some FromSteering then drop stored (tu_msgs tu) else [])
        @ PendingSteering (queues (poll a st))"
    and "PendingFollowUps (queues (restoreFrom a stored tu st)) =
      (if tu_origin tu = Some FromFollowUps then drop stored (tu_msgs tu) else [])
        @ PendingFollowUps (queues (poll a st))"
  using assms
  by (auto simp: restoreFrom_def PendingSteering_def PendingFollowUps_def q_pending_def unshift_to_def
      q_unshift_def Let_def min_def split: option.splits origin.splits)

end
