(* ===== verification/Agent_Returns.thy ===== *)
theory Agent_Returns
  imports Agent_Ends
begin

text \<open>
  When a run returns. A turn goes on as long as the model asks for tools, and a run as long as
  messages are queued for it. The locale \<open>winding_down\<close> bounds both: \<open>left\<close> is how many more
  replies with tool calls the endpoint will give and how many more messages other goroutines will
  send. Then fuel above \<open>left\<close> and the messages already queued is enough for \<open>Run\<close> to return.
\<close>

lemma stream_loop_calls:
  "stream_loop a runID gen es s st = (Inr s', st') \<Longrightarrow> sa_calls s = [] \<Longrightarrow>
    \<forall>x \<in> set es. \<forall>c. snd x \<noteq> ToolCallEvent c \<Longrightarrow> sa_calls s' = []"
proof (induction a runID gen es s st rule: stream_loop.induct)
  case (2 a runID gen now e es s st)
  obtain r s1 where o: "stream_one a runID gen now e s st = (r, s1)" by fastforce
  have "sa_calls s2 = []" if "r = Inr s2" for s2
    using o that 2(3,4) by (cases e) (auto simp: stream_one_def begin_response_def Let_def split: option.splits)
  with 2 o show ?case by (auto split: if_splits sum.splits)
qed auto

lemma stream_calls:
  assumes "stream a runID req gen st = (Inr r, gen', st')" "m_tool_calls (rs_message r) \<noteq> []"
  shows "\<exists>es t c. a_stream a req (world st) = (Inr (es, t), world st') \<and> ToolCallEvent c \<in> snd ` set es"
proof -
  obtain es t s1 s s2 where l: "lift_world (a_stream a req) st = (Inr (es, t), s1)"
    and sl: "stream_loop a runID gen es stream_start s1 = (Inr s, s2)" and st: "st' = s2"
    and f: "stream_finish t gen s = (Inr r, gen')"
    using assms(1) by (auto simp: stream_def Let_def split: prod.splits sum.splits)
  have "sa_calls s \<noteq> []"
    using f assms(2) by (auto simp: stream_finish_def AssistantMessageWithReasoning_def zero_message_def Let_def
        split: if_splits)
  then have "\<not> (\<forall>x \<in> set es. \<forall>c. snd x \<noteq> ToolCallEvent c)"
    using stream_loop_calls [OF sl] by (auto simp: stream_start_def)
  then obtain x c where "x \<in> set es" "snd x = ToolCallEvent c" by blast
  moreover have "a_stream a req (world st) = (Inr (es, t), world st')"
    using lift_worldD [OF l] stream_loop_fields [OF sl] st by simp
  ultimately show ?thesis by (metis image_eqI)
qed

lemma nextQueued_shrinks:
  assumes "nextQueued mode q = ((msgs, orig), q')" "msgs \<noteq> []"
  shows "length (PendingSteering q') + length (PendingFollowUps q')
    < length (PendingSteering q) + length (PendingFollowUps q)"
proof -
  consider "msgs = q_messages (steering q)" "q_messages (steering q') = []" "followUps q' = followUps q"
    | "q_messages (steering q') = []" "msgs @ q_messages (followUps q') = q_messages (followUps q)"
    using nextQueued_cases [OF assms(1)] assms(2) by blast
  then show ?thesis
  proof cases
    case 2
    then have "length (q_messages (followUps q)) = length msgs + length (q_messages (followUps q'))"
      by (metis length_append)
    with 2 assms(2) show ?thesis by (simp add: PendingSteering_def PendingFollowUps_def q_pending_def)
  qed (use assms(2) in \<open>simp add: PendingSteering_def PendingFollowUps_def q_pending_def\<close>)
qed

section \<open>The contract\<close>

locale winding_down = surroundings a "\<lambda>w w'. left w' \<le> left w"
  for a :: "'w agent" and left :: "'w \<Rightarrow> nat" +
  assumes left_append: "left (snd (a_append a terminal m w)) \<le> left w"
    and left_compaction: "left (snd (a_append_compaction a c w)) \<le> left w"
    and left_incoming: "left (snd (a_incoming a w)) + length (fst (a_incoming a w)) \<le> left w"
    and left_tools: "a_stream a req w = (Inr (es, t), w') \<Longrightarrow> ToolCallEvent tc \<in> snd ` set es \<Longrightarrow> left w' < left w"
begin

definition waiting :: "agent_queues \<Rightarrow> nat" where
  "waiting q = length (PendingSteering q) + length (PendingFollowUps q)"

definition toll :: "'w ast \<Rightarrow> nat" where
  "toll st = left (world st) + waiting (queues st)"

text \<open>\<open>no_dearer\<close>: the queues are as they were, and the world is no further from the end.\<close>

definition no_dearer :: "'w ast \<Rightarrow> 'w ast \<Rightarrow> bool" where
  "no_dearer st st' \<longleftrightarrow> queues st' = queues st \<and> left (world st') \<le> left (world st)"

lemma no_dearer_refl [simp]: "no_dearer st st"
  by (simp add: no_dearer_def)

lemma no_dearer_trans: "no_dearer s t \<Longrightarrow> no_dearer t u \<Longrightarrow> no_dearer s u"
  by (auto simp: no_dearer_def)

lemma no_dearer_toll: "no_dearer st st' \<Longrightarrow> toll st' \<le> toll st"
  by (simp add: no_dearer_def toll_def)

lemma no_dearer_same: "same st st' \<Longrightarrow> no_dearer st st'"
  by (simp add: no_dearer_def same_def)

lemma no_dearer_emit [simp]: "no_dearer st (emit a e st') = no_dearer st st'"
  by (simp add: no_dearer_def)

lemma no_dearer_store: "agent_store a t m st = (e, st') \<Longrightarrow> no_dearer st st'"
  using left_append [of t m "world st"] by (auto simp: no_dearer_def elim!: agent_store_cases)

lemma no_dearer_append: "agent_append a t m st = (e, st') \<Longrightarrow> no_dearer st st'"
  by (auto simp: agent_append_def no_dearer_def split: prod.splits option.splits
      dest!: no_dearer_store)

lemma no_dearer_compact: "compact a runID prompt stored reason i st = ((n, e), st') \<Longrightarrow> no_dearer st st'"
proof (erule compact_cases)
  fix t u sm m ev c
  assume s: "summarize a (agent_base (a_enc a) (a_opts a) prompt) (conv st) m i (emit a ev st) = (Inr t, u, sm)"
    and w: "if o_has_store (a_opts a) then a_append_compaction a c (world sm) = (None, world st')
         else world st' = world sm" and q: "queues st' = queues sm"
  have "left (world st') \<le> left (world sm)"
    using w left_compaction [of c "world sm"] by (cases "o_has_store (a_opts a)") auto
  then show ?thesis using same_summarize [OF s] q by (simp add: same_def no_dearer_def)
next
  fix t u sm m ev c f
  assume s: "summarize a (agent_base (a_enc a) (a_opts a) prompt) (conv st) m i (emit a ev st) = (Inr t, u, sm)"
    and w: "a_append_compaction a c (world sm) = (Some f, world st')" and q: "queues st' = queues sm"
  have "left (world st') \<le> left (world sm)" using w left_compaction [of c "world sm"] by simp
  then show ?thesis using same_summarize [OF s] q by (simp add: same_def no_dearer_def)
qed (auto simp: no_dearer_def same_def dest!: same_summarize)

lemma no_dearer_autoCompact: "autoCompact a runID prompt mark reason st = (e, mark', st') \<Longrightarrow> no_dearer st st'"
  by (erule autoCompact_compact) (rule no_dearer_compact)

lemma no_dearer_call:
  assumes "call a runID prompt False False gen mark st = (r, gen', mark', st')"
  shows "no_dearer st st'"
    and "r = Inr (resp, sent) \<Longrightarrow> m_tool_calls (rs_message resp) \<noteq> [] \<Longrightarrow> left (world st') < left (world st)"
proof -
  have k: "no_dearer st st' \<and> answers a runID prompt (\<lambda>s. \<exists>m :: nat option. no_dearer st s) r st'"
  proof (rule call_rule [OF assms, where P = "\<lambda>_. no_dearer st"])
    fix s t c s' assume "no_dearer st s" "lift_world (a_sleep a t) s = (c, s')"
    then show "no_dearer st s'" using no_dearer_trans no_dearer_same [OF same_ops(3)] by blast
  qed (auto intro: no_dearer_trans no_dearer_autoCompact no_dearer_same same_stream same_ops(2))
  then show "no_dearer st st'" by blast
  assume "r = Inr (resp, sent)" "m_tool_calls (rs_message resp) \<noteq> []"
  then obtain g s g' where s: "no_dearer st s" "stream a runID (context_Request sent) g s = (Inr resp, g', st')"
    using k unfolding answers_def by blast
  from stream_calls [OF s(2)] \<open>m_tool_calls (rs_message resp) \<noteq> []\<close> have "left (world st') < left (world s)"
    using left_tools by blast
  then show "left (world st') < left (world st)" using s(1) by (simp add: no_dearer_def)
qed

lemma no_dearer_store_pending: "store_pending a ms i st = (x, st') \<Longrightarrow> no_dearer st st'"
proof (induction ms arbitrary: i st)
  case (Cons m ms)
  then show ?case
    by (auto split: prod.splits option.splits dest!: no_dearer_store intro: no_dearer_trans)
qed simp

lemma no_dearer_run_calls: "run_calls a runID cs st = (None, st') \<Longrightarrow> no_dearer st st'"
proof (induction cs arbitrary: st)
  case (Cons c cs)
  obtain x s1 where 1: "lift_world (a_ctx_err a) st = (x, s1)" by fastforce
  obtain y s2 where 2: "callTool a runID c s1 = (y, s2)" by fastforce
  have x: "x = None" using Cons.prems 1 by (auto simp: give_up_def agent_fail_def Let_def split: option.splits prod.splits)
  obtain m where y: "y = Inr m" using Cons.prems 1 2 x
    by (cases y) (auto simp: give_up_def agent_fail_def Let_def split: prod.splits)
  obtain z s3 where 3: "agent_append a True m s2 = (z, s3)" by fastforce
  have "run_calls a runID cs s3 = (None, st')" using Cons.prems 1 2 3 x y
    by (auto simp: appendTerminal_def give_up_def agent_fail_def Let_def split: option.splits prod.splits)
  then show ?case using Cons.IH no_dearer_same [OF same_ops(2) [OF 1]] no_dearer_same [OF same_callTool [OF 2]]
      no_dearer_append [OF 3] no_dearer_trans by blast
qed simp

lemma no_dearer_turn_reply:
  assumes "turn_reply a runID resp gen st = (r, st')" "\<forall>e. r \<noteq> Inl (Some e)"
  shows "no_dearer st st' \<and> (r = Inr () \<longrightarrow> m_tool_calls (rs_message resp) \<noteq> [])"
proof -
  let ?m = "with_metrics a runID gen (rs_message resp)"
  have calls: "m_tool_calls ?m = m_tool_calls (rs_message resp)" by (simp add: with_metrics_def)
  obtain e s1 where e: "(if empty_reply ?m then (None, st)
      else agent_append a (m_tool_calls ?m \<noteq> []) ?m st) = (e, s1)" by fastforce
  have n1: "no_dearer st s1" using e no_dearer_append by (auto split: if_splits)
  have en: "e = None" using assms e by (auto simp: turn_reply_def Let_def split: option.splits)
  show ?thesis
  proof (cases "m_tool_calls ?m = []")
    case True
    then show ?thesis using assms(1) e en n1 by (auto simp: turn_reply_def Let_def)
  next
    case False
    obtain x s2 where rc: "run_calls a runID (m_tool_calls ?m) s1 = (x, s2)" by fastforce
    have "x = None" "st' = s2" using assms e en False rc by (auto simp: turn_reply_def Let_def split: option.splits)
    then show ?thesis using n1 no_dearer_run_calls [of runID "m_tool_calls ?m"] rc no_dearer_trans False calls
      by auto
  qed
qed

section \<open>Turns and runs return\<close>

lemma waiting_accept: "waiting (accept_all xs q) \<le> waiting q + length xs"
proof (induction xs arbitrary: q)
  case (Cons x xs)
  have "waiting (accept x q) \<le> Suc (waiting q)"
    by (cases x) (auto simp: waiting_def queue_defs)
  then show ?case using Cons [of "accept x q"] by (simp add: accept_all_def)
qed (simp add: accept_all_def)

lemma toll_poll: "toll (poll a st) \<le> toll st"
proof -
  obtain xs s1 where l: "lift_world (a_incoming a) st = (xs, s1)" by fastforce
  then show ?thesis
    using lift_worldD [OF l] left_incoming [of "world st"] waiting_accept [of xs "queues st"]
    by (simp add: poll_def toll_def)
qed

lemma fold_addPending_toll:
  "fold addPending ms (tu, st) = (tu', st') \<Longrightarrow> queues st' = queues st \<and> world st' = world st"
  by (induction ms arbitrary: tu st) (auto simp: addPending_def Let_def split: prod.splits option.splits)

lemma toll_deliver: "deliver_steering a tu st = (tu', st') \<Longrightarrow> toll st' \<le> toll st"
  using toll_poll [of st]
  by (auto simp: deliver_steering_def drainSteering_def toll_def waiting_def queue_defs Let_def
      split: prod.splits dest!: fold_addPending_toll)

lemma turn_step_toll:
  assumes "turn_step a runID prompt tu st = (r, st')" "\<forall>e. r \<noteq> Inl (Some e)"
  shows "toll st' \<le> toll st \<and> (\<forall>tu'. r = Inr tu' \<longrightarrow> toll st' < toll st)"
proof -
  obtain tu1 s1 where d: "deliver_steering a tu st = (tu1, s1)" by fastforce
  obtain c s2 where c: "lift_world (a_ctx_err a) s1 = (c, s2)" by fastforce
  obtain x gen mark s3 where ca: "call a runID prompt False False (tu_gen tu1) (tu_mark tu1) s2
      = (x, gen, mark, s3)" by (metis prod_cases4)
  have no_fail: "turn_failed a runID i tu e s \<noteq> (r, st')" for i tu e s
    using assms(2) by (auto simp: turn_failed_def agent_fail_def Let_def)
  have "c = None" using assms(1) d c no_fail by (auto simp: turn_step_def split: option.splits)
  moreover obtain resp sent where x: "x = Inr (resp, sent)"
    using assms(1) d c ca no_fail calculation by (cases x) (auto simp: turn_step_def Let_def)
  ultimately have ta: "turn_answered a runID resp sent (tu1\<lparr>tu_gen := gen, tu_mark := mark\<rparr>) s3 = (r, st')"
    using assms(1) d c ca by (simp add: turn_step_def Let_def)
  obtain z s4 where sp: "store_pending a (tu_pending tu1) 0 s3 = (z, s4)" by fastforce
  have z: "z = None" using ta sp no_fail by (auto simp: turn_answered_def split: option.splits)
  define s5 where "s5 = (if o_has_recorder (a_opts a)
      then s4\<lparr>world := a_record a runID sent (rs_usage resp) (world s4)\<rparr> else s4)"
  obtain y s6 where tr: "turn_reply a runID resp gen s5 = (y, s6)" by fastforce
  have y: "s6 = st'" "\<forall>e. y \<noteq> Inl (Some e)" "\<And>tu'. r = Inr tu' \<Longrightarrow> y = Inr ()"
    using ta sp z tr assms(2)
    by (auto simp: turn_answered_def Let_def s5_def [symmetric] split: sum.splits unit.splits)
  have "no_dearer s3 s5" using no_dearer_store_pending [OF sp] keeps_record [where w = "world s4"]
    by (auto simp: s5_def no_dearer_def intro: order_trans)
  then have t: "toll st' \<le> toll s3" using no_dearer_turn_reply [OF tr y(2)] y(1)
    by (meson no_dearer_toll no_dearer_trans)
  have "toll s3 \<le> toll s2" by (rule no_dearer_toll [OF no_dearer_call(1) [OF ca]])
  moreover have "toll s2 \<le> toll st"
    using toll_deliver [OF d] no_dearer_toll [OF no_dearer_same [OF same_ops(2) [OF c]]] by simp
  moreover have "toll s3 < toll s2" if "r = Inr tu'" for tu'
    using no_dearer_call(2) [OF ca x] no_dearer_call(1) [OF ca] no_dearer_turn_reply [OF tr y(2)] y(3) [OF that]
    by (simp add: toll_def no_dearer_def)
  ultimately show ?thesis using t by fastforce
qed

lemma turn_loop_returns:
  "toll st < fuel \<Longrightarrow>
    \<exists>r st'. turn_loop fuel a runID prompt tu st = Some (r, st') \<and> (r = None \<longrightarrow> toll st' \<le> toll st)"
proof (induction fuel arbitrary: tu st)
  case (Suc fuel)
  obtain x s1 where t: "turn_step a runID prompt tu st = (x, s1)" by fastforce
  show ?case
  proof (cases x)
    case (Inl r)
    then show ?thesis using t turn_step_toll [OF t] by (cases r) auto
  next
    case (Inr tu')
    then have "toll s1 < toll st" using turn_step_toll [OF t] by simp
    then show ?thesis using Suc.IH [of s1 tu'] Suc.prems t Inr by fastforce
  qed
qed simp

lemma turn_returns:
  assumes "toll st < fuel"
  shows "\<exists>r st'. turn fuel a prompt msgs orig st = Some (r, st') \<and> (r = None \<longrightarrow> toll st' \<le> toll st)"
proof -
  obtain runID tu s1 where s: "turn_start a msgs orig st = (runID, tu, s1)" by (metis prod_cases3)
  then have "toll s1 \<le> toll st"
    by (auto simp: turn_start_def Let_def toll_def split: prod.splits dest!: same_ops(5) fold_addPending_toll)
      (simp add: same_def)
  then show ?thesis using turn_loop_returns [of s1 fuel runID prompt tu] assms s
    by (fastforce simp: turn_def)
qed

lemma run_loop_returns:
  "toll st < fuel \<Longrightarrow> \<exists>r st'. run_loop fuel a prompt msgs orig st = Some (r, st')"
proof (induction fuel arbitrary: msgs orig st)
  case (Suc fuel)
  obtain x s1 where t: "turn (Suc fuel) a prompt msgs orig st = Some (x, s1)"
    and le: "x = None \<Longrightarrow> toll s1 \<le> toll st" using turn_returns [OF Suc.prems] by blast
  obtain ms o1 q where n: "nextQueued (case o_queue (a_opts a) of Some m \<Rightarrow> m | None \<Rightarrow> QueueOneAtATime)
      (queues (poll a s1)) = ((ms, o1), q)" by (metis prod_cases3 surj_pair)
  have "toll ((poll a s1)\<lparr>queues := q\<rparr>) < toll st" if "x = None" "ms \<noteq> []"
  proof -
    have "waiting q < waiting (queues (poll a s1))"
      using nextQueued_shrinks [OF n that(2)] by (simp add: waiting_def)
    then show ?thesis using le [OF that(1)] toll_poll [of s1] by (simp add: toll_def)
  qed
  then have "\<exists>r st'. run_loop fuel a prompt ms o1 ((poll a s1)\<lparr>queues := q\<rparr>) = Some (r, st')"
    if "x = None" "ms \<noteq> []" using Suc.IH [of "(poll a s1)\<lparr>queues := q\<rparr>" ms o1] Suc.prems that by simp
  then show ?case using t n by (cases x) (auto simp: Let_def)
qed simp

lemma Run_winds_down:
  assumes "toll st < fuel"
  shows "\<exists>r st'. Run fuel a m st = Some (r, st')"
proof -
  obtain r s1 where p: "run_prompt a st = (r, s1)" by fastforce
  have "toll (s1\<lparr>queues := (queues s1)\<lparr>accepting := True\<rparr>\<rparr>) < fuel"
    using no_dearer_toll [OF no_dearer_same [OF same_run_prompt [OF p]]] assms
    by (simp add: toll_def waiting_def PendingSteering_def PendingFollowUps_def)
  then show ?thesis using p run_loop_returns by (cases r) (auto simp: Run_def Let_def)
qed

end

end
