(* ===== verification/Scenario.thy ===== *)
theory Scenario
  imports Stored_Agent Agent_Returns
begin

text \<open>
  A run to look at: a session of one empty tree, an endpoint that answers from a script (first with
  a tool call, then with prose) and an agent without tools, so the call is answered as a failure and
  the model asked again. The theorems about runs are applied to it.
\<close>

definition scenario_opts :: agent_options where
  "scenario_opts = \<lparr>o_model = ''m'', o_context_window = 0,
     o_compaction = \<lparr>cs_auto = False, cs_reserve_tokens = 0, cs_keep_recent_tokens = 0,
       cs_prompts = \<lparr>cp_summary = [], cp_update = [], cp_turn_prefix = []\<rparr>, cs_fallback_effort = []\<rparr>,
     o_sampling = no_sampling, o_thinking_switch = [], o_preserve_thinking = False, o_image_input = False,
     o_base_prompt = Some [], o_skip_context_files = True, o_instructions = [], o_queue = None,
     o_max_retries = 3, o_retry_backoff = 0, o_has_executor = False, o_has_store = True,
     o_has_recorder = False, o_tools = None\<rparr>"

type_synonym script = "(int \<times> stream_event) list list"

definition scenario_agent :: "script agent" where
  "scenario_agent = \<lparr>a_opts = scenario_opts,
     a_enc = \<lparr>enc_message = (\<lambda>_. Some []), enc_tool_def = (\<lambda>_. Some [])\<rparr>,
     a_session = ''s'', a_workspace = [], a_base_prompts = ([], []), a_render = (\<lambda>_. []),
     a_quote = (\<lambda>s. s), a_encodes = (\<lambda>_. True), a_discover = (\<lambda>w. (Inr [], w)),
     a_ctx_err = (\<lambda>w. (None, w)),
     a_stream = (\<lambda>_ w. case w of [] \<Rightarrow> (Inr ([], 0), []) | evs # w \<Rightarrow> (Inr (evs, 0), w)),
     a_sleep = (\<lambda>_ w. (None, w)), a_append = (\<lambda>_ _ w. (None, w)),
     a_append_compaction = (\<lambda>_ w. (None, w)), a_tool = (\<lambda>_ _ _ w. (Inr (tool_Errorf []), w)),
     a_record = (\<lambda>_ _ _ w. w), a_run_id = (\<lambda>w. (''run'', w)), a_now = (\<lambda>w. (0, w)),
     a_incoming = (\<lambda>w. ([], w))\<rparr>"

definition scenario_session :: session where
  "scenario_session = \<lparr>s_id = ''s'', s_workspace = [], s_title = [], s_untitled = True, s_session_kind = Some SessionUser,
     s_head = [], s_parent = [], s_tools = None, s_profile = [], s_overrides = [],
     s_pinned = False, s_archived = False, s_created = 0, s_updated = 0\<rparr>"

definition scenario_state :: "script \<Rightarrow> script dbw ast" where
  "scenario_state sc = \<lparr>conv = [], queues = new_queues,
     world = \<lparr>w_db = \<lparr>d_sessions = [scenario_session], d_entries = []\<rparr>, w_now = 1, w_rest = sc\<rparr>,
     events = []\<rparr>"

definition scenario_call :: tool_call where
  "scenario_call = \<lparr>tc_id = ''c'', tc_name = ''ls'', tc_arguments = ''{}''\<rparr>"

definition scenario_script :: script where
  "scenario_script = [[(0, ToolCallEvent scenario_call), (0, DoneEvent ''tool_calls'')],
     [(0, TextDelta ''ok''), (0, DoneEvent ''stop'')]]"

abbreviation scenario_db :: "script dbw agent" where
  "scenario_db \<equiv> db_agent plain_pg long_id (\<lambda>x. (None, x)) ''s'' scenario_agent"

lemma scenario_run:
  "(case Run 2 scenario_db (UserMessage ''hi'') (scenario_state scenario_script) of
     Some (None, st) \<Rightarrow> length (conv st) = 4 | _ \<Rightarrow> False)"
  by code_simp

lemma scenario_queues: "plain_queues (queues (scenario_state sc))"
  by (simp add: scenario_state_def plain_queues_def queue_defs)

lemma scenario_start:
  "db_ok (w_db (world (scenario_state sc)))" "conv (scenario_state sc) = []"
  "tree_Messages ''s'' (w_db (world (scenario_state sc))) = Inr []"
  "SessionPath ''s'' (w_db (world (scenario_state sc))) = Inr []"
  by (simp_all add: scenario_state_def scenario_session_def db_ok_def tree_Messages_def SessionPath_def
      Session_def find_session_def Messages_def)

text \<open>A scripted endpoint asks for tools at most as often as its script is long.\<close>

interpretation scripted: winding_down scenario_db "\<lambda>w. length (w_rest w)"
  by unfold_locales
    (auto simp: db_agent_def scenario_agent_def on_rest_def on_db_def db_append_def db_append_compaction_def Let_def
      split: prod.splits list.splits option.splits sum.splits)

section \<open>Steering during a failing turn\<close>

text \<open>
  Messages arrive while the agent runs: the first item of the world is what arrives at each look at
  the queues, the second the script of the endpoint. Nothing is stored.
\<close>

type_synonym steered = "incoming list list \<times> script"

definition steered_agent :: "steered agent" where
  "steered_agent = \<lparr>a_opts = scenario_opts\<lparr>o_has_store := False\<rparr>,
     a_enc = \<lparr>enc_message = (\<lambda>_. Some []), enc_tool_def = (\<lambda>_. Some [])\<rparr>,
     a_session = ''s'', a_workspace = [], a_base_prompts = ([], []), a_render = (\<lambda>_. []),
     a_quote = (\<lambda>s. s), a_encodes = (\<lambda>_. True), a_discover = (\<lambda>w. (Inr [], w)),
     a_ctx_err = (\<lambda>w. (None, w)),
     a_stream = (\<lambda>_ w. case snd w of [] \<Rightarrow> (Inr ([], 0), w) | evs # r \<Rightarrow> (Inr (evs, 0), (fst w, r))),
     a_sleep = (\<lambda>_ w. (None, w)), a_append = (\<lambda>_ _ w. (None, w)),
     a_append_compaction = (\<lambda>_ w. (None, w)), a_tool = (\<lambda>_ _ _ w. (Inr (tool_Errorf []), w)),
     a_record = (\<lambda>_ _ _ w. w), a_run_id = (\<lambda>w. (''run'', w)), a_now = (\<lambda>w. (0, w)),
     a_incoming = (\<lambda>w. case fst w of [] \<Rightarrow> ([], w) | xs # r \<Rightarrow> (xs, (r, snd w)))\<rparr>"

definition steered_state :: "incoming list list \<Rightarrow> script \<Rightarrow> steered ast" where
  "steered_state xs sc = \<lparr>conv = [], queues = new_queues, world = (xs, sc), events = []\<rparr>"

text \<open>
  The first turn is answered. Steering \<open>one\<close> arrives before the run looks for more to do and starts
  the second turn; steering \<open>two\<close> arrives before that turn calls the model, and the call fails.
\<close>

definition steered_incoming :: "incoming list list" where
  "steered_incoming = [[], [InSteer (UserMessage ''one'')], [InSteer (UserMessage ''two'')]]"

definition steered_script :: script where
  "steered_script = [[(0, TextDelta ''ok''), (0, DoneEvent ''stop'')],
     [(0, ErrorEvent (ErrText ''refused''))]]"

lemma steered_run:
  "(case Run 3 steered_agent (UserMessage ''hi'') (steered_state steered_incoming steered_script) of
     Some (Some _, st) \<Rightarrow> map m_content (PendingSteering (queues st)) = [''two'', ''one''] | _ \<Rightarrow> False)"
  by code_simp

section \<open>A store that refuses, an endpoint that is busy\<close>

definition refusing_agent :: "script agent" where
  "refusing_agent = scenario_agent\<lparr>a_append := (\<lambda>_ _ w. (Some (ErrText ''disk full''), w))\<rparr>"

definition plain_reply :: response where
  "plain_reply = \<lparr>rs_message = AssistantMessageWithReasoning ''ok'' [] [], rs_stop = ''stop'', rs_usage = no_usage\<rparr>"

definition counting_agent :: "nat agent" where
  "counting_agent = \<lparr>a_opts = scenario_opts, a_enc = a_enc scenario_agent, a_session = ''s'', a_workspace = [],
     a_base_prompts = ([], []), a_render = (\<lambda>_. []), a_quote = (\<lambda>s. s), a_encodes = (\<lambda>_. True),
     a_discover = (\<lambda>w. (Inr [], w)), a_ctx_err = (\<lambda>w. (None, w)),
     a_stream = (\<lambda>_ w. (Inl (ErrProvider ''post'' 429 True 0 (ErrText ''busy'')), Suc w)), a_sleep = (\<lambda>_ w. (None, w)),
     a_append = (\<lambda>_ _ w. (None, w)), a_append_compaction = (\<lambda>_ w. (None, w)),
     a_tool = (\<lambda>_ _ _ w. (Inr (tool_Errorf []), w)), a_record = (\<lambda>_ _ _ w. w),
     a_run_id = (\<lambda>w. (''run'', w)), a_now = (\<lambda>w. (0, w)), a_incoming = (\<lambda>w. ([], w))\<rparr>"

end
