(* ===== verification/Session_Properties.thy ===== *)
theory Session_Properties
  imports Session_Resume
begin

text \<open>
  The promises of the session tree: appending, branching, forking and deleting, what the outline
  says of every entry, which sessions a listing holds, and that what was stored is read back. The
  witnesses are evaluated on \<open>small_db\<close>, a session with two entries.
\<close>

section \<open>A small database\<close>

definition small_session :: "string \<Rightarrow> string \<Rightarrow> string \<Rightarrow> session" where
  "small_session sid head parent = \<lparr>s_id = sid, s_workspace = ''w'', s_title = ''t'', s_untitled = True,
     s_session_kind = Some SessionUser, s_head = head, s_parent = parent, s_tools = None, s_profile = [],
     s_overrides = [], s_pinned = False, s_archived = False, s_created = 0, s_updated = 0\<rparr>"

definition small_entry :: "string \<Rightarrow> string \<Rightarrow> int \<Rightarrow> string \<Rightarrow> entry" where
  "small_entry i parent seq t = \<lparr>e_id = i, e_session = ''s'', e_parent = parent, e_seq = seq, e_kind = KindUser,
     e_payload = PMessage (marshal_message (UserMessage t)), e_commit = [], e_created = 0\<rparr>"

definition small_db :: db where
  "small_db = \<lparr>d_sessions = [small_session ''s'' ''b'' [], small_session ''r'' [] ''s''],
     d_entries = [small_entry ''b'' ''a'' 2 ''two'', small_entry ''a'' [] 1 ''one'']\<rparr>"

definition small_pg :: pg where
  "small_pg = \<lparr>pg_jsonb = (\<lambda>t. t), pg_refuses = (\<lambda>_. None), pg_refs = (\<lambda>_. True)\<rparr>"

lemmas small_defs = small_db_def small_session_def small_entry_def small_pg_def

lemma small_ok: "db_ok small_db" "pg_ok small_pg" "rows_spelled small_pg small_db"
  by (simp_all add: small_defs db_ok_def pg_ok_def find_session_def rows_spelled_def spelled_def
      respell_payload_def marshal_message_def UserMessage_def zero_message_def)

lemma small_path: "SessionPath ''s'' small_db = Inr [small_entry ''a'' [] 1 ''one'', small_entry ''b'' ''a'' 2 ''two'']"
  by (simp add: small_db_def small_session_def small_entry_def SessionPath_def Session_def find_session_def
      pathQuery_def)

section \<open>Appending and branching\<close>

text \<open>
  C4. An append extends exactly one path: the session's path gains the new entry at its end, every
  other session's path and every path to an existing entry reads as before, and the tables stay well
  formed.
\<close>

theorem AppendEntry_extends:
  assumes "db_ok d" "newID \<noteq> []" "AppendEntry p newID now sid e d = Inr (out, d')" "SessionPath sid d = Inr es"
  shows "db_ok d' \<and> SessionPath sid d' = Inr (es @ [out])
    \<and> (\<forall>other. other \<noteq> sid \<longrightarrow> SessionPath other d' = SessionPath other d)
    \<and> (\<forall>other i path. EntryPath other i d = Inr path \<longrightarrow> EntryPath other i d' = Inr path)"
  using AppendEntry_ok [OF assms(1,3,2)] AppendEntry_path [OF assms(1,3,2,4)] AppendEntry_other [OF assms(1,3,2)]
  by blast

theorem AppendEntry_extends_witness:
  "\<exists>out d'. AppendEntry small_pg ''c'' 7 ''s'' (small_entry [] [] 0 ''three'') small_db = Inr (out, d')
    \<and> SessionPath ''s'' d' = Inr [small_entry ''a'' [] 1 ''one'', small_entry ''b'' ''a'' 2 ''two'', out]"
proof -
  obtain out d' where a: "AppendEntry small_pg ''c'' 7 ''s'' (small_entry [] [] 0 ''three'') small_db = Inr (out, d')"
    by (simp add: small_defs AppendEntry_def lockSessionHead_def insertEntry_def setHead_def find_session_def Let_def)
  from AppendEntry_extends [OF small_ok(1) _ a small_path] a show ?thesis by simp
qed

text \<open>
  C27. Moving the head starts a branch: afterwards the session's path is the path to that entry, no
  entry is added or changed, and a head is only ever set to an entry of the session itself.
\<close>

theorem SetSessionHead_branches:
  assumes "db_ok d" "SetSessionHead now sid eid d = Inr d'" "eid \<noteq> []"
  shows "db_ok d' \<and> d_entries d' = d_entries d
    \<and> (\<exists>path. EntryPath sid eid d = Inr path \<and> SessionPath sid d' = Inr path)"
proof -
  have "d_entries d' = d_entries d" using assms(2) by (auto simp: SetSessionHead_def split: if_splits)
  then show ?thesis using SetSessionHead_ok [OF assms(1,2)] SetSessionHead_path [OF assms] by auto
qed

theorem SetSessionHead_branches_witness:
  "\<exists>d'. SetSessionHead 7 ''s'' ''a'' small_db = Inr d' \<and> (\<exists>path. SessionPath ''s'' d' = Inr path)"
proof -
  obtain d' where h: "SetSessionHead 7 ''s'' ''a'' small_db = Inr d'"
    by (simp add: small_defs SetSessionHead_def find_session_def)
  from SetSessionHead_branches [OF small_ok(1) h] h show ?thesis by auto
qed

text \<open>
  C7. A fork is a copy of its own: it holds the path down to the chosen entry, row for row, in rows of
  its own; it reads as the same messages and is as resumable as that path was; and the session it
  came from, like every other, is untouched.
\<close>

theorem ForkSession_copies:
  assumes "db_ok d" "rows_spelled p d" "ForkSession p newID ids now sid eid opts d = Inr (fork, d')"
    and "newID \<noteq> []" "[] \<notin> set ids"
  shows "db_ok d' \<and> s_parent fork = sid \<and> s_session_kind fork = Some SessionFork
    \<and> (\<exists>path new. EntryPath sid eid d = Inr path \<and> SessionPath newID d' = Inr new
          \<and> list_all2 (copy_of p) path new \<and> (\<forall>c \<in> set new. e_session c = newID)
          \<and> tree_Messages newID d' = Messages path \<and> PathResumable new = PathResumable path)
    \<and> (\<forall>other i es. EntryPath other i d = Inr es \<longrightarrow> EntryPath other i d' = Inr es)
    \<and> (\<forall>other. find_session other d \<noteq> None \<longrightarrow> SessionPath other d' = SessionPath other d)"
proof -
  note s = ForkSession_spec [OF assms(1,3-5)]
  obtain path new where p: "EntryPath sid eid d = Inr path" "SessionPath newID d' = Inr new"
    "list_all2 (copy_of p) path new" "\<forall>c \<in> set new. e_session c = newID" using s(5) by blast
  moreover have "tree_Messages newID d' = Messages path \<and> PathResumable new = PathResumable path"
    using ForkSession_reads [OF assms] p(1,2) by auto
  ultimately show ?thesis using s(1,3,4,6,7) by blast
qed

theorem ForkSession_copies_witness:
  "\<exists>fork d' path. ForkSession small_pg ''f'' [''x''] 7 ''s'' ''a'' \<lparr>fo_title = [], fo_workspace = []\<rparr> small_db
      = Inr (fork, d') \<and> EntryPath ''s'' ''a'' small_db = Inr path \<and> tree_Messages ''f'' d' = Messages path"
proof -
  obtain fork d' where f: "ForkSession small_pg ''f'' [''x''] 7 ''s'' ''a'' \<lparr>fo_title = [], fo_workspace = []\<rparr> small_db
      = Inr (fork, d')"
    by (simp add: small_defs ForkSession_def find_session_def pathQuery_def createSession_def fork_row_def cmp_or_def
        insertEntry_def setHead_def Let_def)
  from ForkSession_copies [OF small_ok(1,3) f] f show ?thesis by auto
qed

section \<open>The outline\<close>

text \<open>
  C8. The outline decides every entry at once, in one pass over the rows: an entry is marked as a
  place to continue from exactly when the path down to it leaves no tool call unanswered.
\<close>

theorem Outline_resumable:
  assumes "db_ok d" "n \<in> set (Outline doc sid d)"
  shows "\<exists>path. EntryPath sid (n_id n) d = Inr path \<and> n_resumable n = PathResumable path"
proof -
  obtain e where e: "e \<in> set (Entries sid d)" "n_id n = e_id e"
    and r: "n_resumable n = (case resumableSet (Entries sid d) (e_id e) of Some b \<Rightarrow> b | None \<Rightarrow> False)"
    using assms(2) by (auto simp: Outline_def Let_def)
  have "e \<in> set (d_entries d)" "e_session e = sid" using e(1) by (auto simp: Entries_def)
  moreover have "entries_ok (d_entries d)" using assms(1) by (simp add: db_ok_def)
  ultimately have "\<exists>path. EntryPath sid (e_id e) d = Inr path"
    by (simp add: EntryPath_def entryOfSession_def find_entry_member)
  then show ?thesis using resumableSet_Entries [OF assms(1)] r e(2) by fastforce
qed

theorem Outline_resumable_witness:
  "\<exists>n path. n \<in> set (Outline (\<lambda>_. []) ''s'' small_db) \<and> EntryPath ''s'' (n_id n) small_db = Inr path
    \<and> n_resumable n = PathResumable path"
proof -
  have "Outline (\<lambda>_. []) ''s'' small_db \<noteq> []"
    by (simp add: Outline_def Entries_def small_defs Let_def)
  then obtain n where "n \<in> set (Outline (\<lambda>_. []) ''s'' small_db)" using list.set_sel(1) by blast
  with Outline_resumable [OF small_ok(1) this] show ?thesis by blast
qed

section \<open>Messages\<close>

text \<open>
  C26. What a run stores is what the next load reads: after a message was appended the session reads
  as before with that message at the end, in the canonical spelling (valid UTF-8, arguments as the
  database spells JSON).
\<close>

theorem stored_message_reads_back:
  assumes "pg_ok p" "db_ok d" "newID \<noteq> []" "tree_Messages sid d = Inr ms"
    and "run_Append p newID now commit sid m d = Inr d'"
  shows "tree_Messages sid d' = Inr (ms @ [canon_message (pg_jsonb p) m])"
  by (rule run_Append_messages(2) [OF assms])

theorem stored_message_reads_back_witness:
  "\<exists>d' ms. run_Append small_pg ''c'' 7 None ''s'' (UserMessage ''three'') small_db = Inr d'
    \<and> tree_Messages ''s'' d' = Inr (ms @ [canon_message (\<lambda>t. t) (UserMessage ''three'')])"
proof -
  obtain d' where r: "run_Append small_pg ''c'' 7 None ''s'' (UserMessage ''three'') small_db = Inr d'"
    by (simp add: small_defs run_Append_def AppendMessage_def MessageEntry_def kindOf_def UserMessage_def
        zero_message_def withArguments_def new_entry_def AppendEntry_def lockSessionHead_def insertEntry_def
        setHead_def find_session_def Let_def)
  obtain ms where m: "tree_Messages ''s'' small_db = Inr ms"
    by (simp add: tree_Messages_def small_path Messages_def small_entry_def Message_def decode_message_def
        unmarshal_message_def marshal_message_def UserMessage_def zero_message_def)
  from stored_message_reads_back [OF small_ok(2,1) _ m r] r show ?thesis by (auto simp: small_pg_def)
qed

section \<open>Listing sessions\<close>

text \<open>The sessions below some sessions: what the recursive query is meant to find.\<close>

inductive below :: "session list \<Rightarrow> session set \<Rightarrow> session \<Rightarrow> bool" for ss base where
  base: "s \<in> base \<Longrightarrow> below ss base s"
| child: "below ss base f \<Longrightarrow> s \<in> set ss \<Longrightarrow> s_parent s = s_id f \<Longrightarrow> below ss base s"

lemma descend_below: "s \<in> set (descend n ss found) \<Longrightarrow> below ss (set found) s"
proof (induction n arbitrary: found)
  case (Suc n)
  let ?new = "filter (\<lambda>s. \<not> List.member found s \<and> list_ex (\<lambda>f. s_parent s = s_id f) found) ss"
  have less: "below ss (set (found @ ?new)) t \<Longrightarrow> below ss (set found) t" for t
    by (induction rule: below.induct) (auto simp: list_ex_iff intro: below.intros)
  show ?case
  proof (cases "?new = []")
    case True
    then show ?thesis using Suc.prems by (simp add: Let_def below.base)
  next
    case False
    then have "s \<in> set (descend n ss (found @ ?new))" using Suc.prems by (simp add: Let_def)
    then show ?thesis by (rule less [OF Suc.IH])
  qed
qed (simp add: below.base)

lemma descend_closed:
  assumes "card (set ss - set found) \<le> n" "s \<in> set ss" "f \<in> set (descend n ss found)" "s_parent s = s_id f"
  shows "s \<in> set (descend n ss found)"
  using assms
proof (induction n arbitrary: found)
  case (Suc n)
  let ?new = "filter (\<lambda>s. \<not> List.member found s \<and> list_ex (\<lambda>f. s_parent s = s_id f) found) ss"
  show ?case
  proof (cases "?new = []")
    case True
    then show ?thesis using Suc.prems(2-4) by (auto simp: Let_def filter_empty_conv list_ex_iff List.member_iff)
  next
    case False
    then obtain x where "x \<in> set ss" "x \<notin> set found" "x \<in> set ?new" by (auto simp: filter_empty_conv List.member_iff)
    then have "card (set ss - set (found @ ?new)) < card (set ss - set found)"
      by (intro psubset_card_mono) auto
    then show ?thesis using Suc.IH [of "found @ ?new"] Suc.prems False by (simp add: Let_def)
  qed
qed auto

lemma descend_grows: "s \<in> set found \<Longrightarrow> s \<in> set (descend n ss found)"
  by (induction n arbitrary: found) (auto simp: Let_def)

lemma descend_spec:
  assumes "set found \<subseteq> set ss"
  shows "set (descend (length ss) ss found) = {s. below ss (set found) s}"
proof -
  have c: "card (set ss - set found) \<le> length ss"
    by (meson card_Diff_subset_Int card_length card_mono Diff_subset finite_set le_trans)
  have "below ss (set found) s \<Longrightarrow> s \<in> set (descend (length ss) ss found)" for s
    by (induction rule: below.induct) (auto intro: descend_grows descend_closed [OF c])
  then show ?thesis using descend_below by blast
qed

text \<open>
  C28. Listing a workspace with descendants returns exactly the sessions of the workspace and the
  forks and child agents they led to, wherever those live, oldest first.
\<close>

theorem Sessions_descendants:
  assumes "w \<noteq> []"
  shows "set (Sessions w True d) = {s. below (d_sessions d) {s \<in> set (d_sessions d). s_workspace s = w} s}
    \<and> sorted (map (\<lambda>s. (s_created s, s_id s)) (Sessions w True d))"
  using assms descend_spec [of "filter (\<lambda>s. s_workspace s = w) (d_sessions d)" "d_sessions d"]
  by (simp add: Sessions_def in_order_def)

theorem Sessions_descendants_witness:
  "small_session ''r'' [] ''s'' \<in> set (Sessions ''w'' True small_db)
    \<and> sorted (map (\<lambda>s. (s_created s, s_id s)) (Sessions ''w'' True small_db))"
proof -
  have "small_session ''r'' [] ''s'' \<in> {s \<in> set (d_sessions small_db). s_workspace s = ''w''}"
    by (simp add: small_db_def small_session_def)
  from below.base [OF this] Sessions_descendants [of "''w''" small_db] show ?thesis by blast
qed

text \<open>
  A title someone chose is never replaced by one made in the background: a session that was given
  a title through \<^verbatim>\<open>UpdateSession\<close> is left alone by \<^verbatim>\<open>TitleUntitledSession\<close>, which titles a session at
  most once.
\<close>

lemma chosen_title_stays:
  assumes "UpdateSession now sid ch d = Inr (s, d')" "ch_title ch = Some title"
  shows "TitleUntitledSession now' sid other d' = (False, d') \<and> s_title s = title \<and> \<not> s_untitled s"
  using assms by (auto simp: UpdateSession_def TitleUntitledSession_def Let_def split: option.splits)

end
