(* ===== verification/Run_Store.thy ===== *)
theory Run_Store
  imports Session_Store
begin

text \<open>
  \<^verbatim>\<open>internal/store/runs.go\<close>: the rows that record the runs of the agent loop. A table is the list of
  its rows, newest first. \<open>newID\<close> stands for \<^verbatim>\<open>NewID()\<close> and \<open>now\<close> for the database's clock; a row's
  id is its primary key and its session must exist.
\<close>

datatype run_state = RunRunning | RunDone | RunError | RunAborted

record run =
  r_id :: string
  r_session :: string
  r_state :: run_state
  r_started :: int
  r_finished :: "int option"
  r_error :: string

type_synonym run_table = "run list"

definition find_run :: "string \<Rightarrow> run_table \<Rightarrow> run option" where
  "find_run i t = List.find (\<lambda>r. r_id r = i) t"

definition StartRun :: "string \<Rightarrow> int \<Rightarrow> string \<Rightarrow> db \<Rightarrow> run_table \<Rightarrow> err + run \<times> run_table" where
  "StartRun newID now sid d t =
    (let op = ''start run on session '' @ sid in
     if find_run newID t \<noteq> None then Inl (wrap_err op ErrConflict)
     else if find_session sid d = None then Inl (wrap_err op ForeignKeyViolation)
     else
       let row = \<lparr>r_id = newID, r_session = sid, r_state = RunRunning, r_started = now,
                  r_finished = None, r_error = []\<rparr> in
       Inr (row, row # t))"

definition FinishRun :: "string \<Rightarrow> run_state \<Rightarrow> string \<Rightarrow> int \<Rightarrow> run_table \<Rightarrow> err + run_table" where
  "FinishRun i state runErr now t =
    (if find_run i t = None then Inl (wrap_err (''finish run '' @ i) ErrNotFound)
     else Inr (map (\<lambda>r. if r_id r = i
                        then r\<lparr>r_state := state, r_error := runErr, r_finished := Some now\<rparr> else r) t))"

definition AbortRunningRuns :: "int \<Rightarrow> run_table \<Rightarrow> nat \<times> run_table" where
  "AbortRunningRuns now t =
    (length (filter (\<lambda>r. r_state r = RunRunning) t),
     map (\<lambda>r. if r_state r = RunRunning
              then r\<lparr>r_state := RunAborted, r_error := [], r_finished := Some now\<rparr> else r) t)"

definition get_Run :: "string \<Rightarrow> run_table \<Rightarrow> err + run" where
  "get_Run i t =
    (case find_run i t of None \<Rightarrow> Inl (wrap_err (''read run '' @ i) ErrNotFound) | Some r \<Rightarrow> Inr r)"

definition Runs :: "string \<Rightarrow> run_table \<Rightarrow> run list" where
  "Runs sid t = sort_key (\<lambda>r. (r_started r, r_id r)) (filter (\<lambda>r. r_session r = sid) t)"

section \<open>Rows\<close>

definition runs_ok :: "run_table \<Rightarrow> bool" where
  "runs_ok t \<longleftrightarrow> distinct (map r_id t)"

lemma find_run_None: "find_run i t = None \<longleftrightarrow> i \<notin> r_id ` set t"
  by (auto simp: find_run_def find_None_iff)

lemma find_run_Cons [simp]: "find_run i (r # t) = (if r_id r = i then Some r else find_run i t)"
  by (simp add: find_run_def)

lemma find_run_map:
  "(\<And>r. r_id (f r) = r_id r) \<Longrightarrow> find_run i (map f t) = map_option f (find_run i t)"
  by (induction t) (auto simp: find_run_def)

lemma StartRun_row:
  assumes "StartRun newID now sid d t = Inr (row, t')"
  shows "find_run newID t' = Some row" "r_state row = RunRunning" "r_session row = sid" "r_id row = newID"
    and "t' = row # t" "find_run newID t = None"
  using assms by (auto simp: StartRun_def Let_def split: if_splits)

lemma FinishRun_row:
  assumes "FinishRun i state e now t = Inr t'"
  shows "\<exists>r. find_run i t = Some r
      \<and> find_run i t' = Some (r\<lparr>r_state := state, r_error := e, r_finished := Some now\<rparr>)"
    and "j \<noteq> i \<Longrightarrow> find_run j t' = find_run j t"
proof -
  let ?f = "\<lambda>r. if r_id r = i then r\<lparr>r_state := state, r_error := e, r_finished := Some now\<rparr> else r"
  have t': "t' = map ?f t" "find_run i t \<noteq> None" using assms by (auto simp: FinishRun_def split: if_splits)
  have f: "find_run k t' = map_option ?f (find_run k t)" for k
    unfolding t' by (rule find_run_map) simp
  have ids: "find_run k t = Some r \<Longrightarrow> r_id r = k" for k r by (auto simp: find_run_def find_Some_iff)
  show "\<exists>r. find_run i t = Some r
      \<and> find_run i t' = Some (r\<lparr>r_state := state, r_error := e, r_finished := Some now\<rparr>)"
    using f [of i] t'(2) ids by fastforce
  show "j \<noteq> i \<Longrightarrow> find_run j t' = find_run j t"
    using f [of j] ids [of j] by (cases "find_run j t") auto
qed

lemma runs_ok_ops:
  "runs_ok t \<Longrightarrow> StartRun newID now sid d t = Inr (row, t') \<Longrightarrow> runs_ok t'"
  "runs_ok t \<Longrightarrow> FinishRun i state e now t = Inr t' \<Longrightarrow> runs_ok t'"
  "runs_ok t \<Longrightarrow> runs_ok (snd (AbortRunningRuns now t))"
  by (auto simp: runs_ok_def StartRun_def FinishRun_def AbortRunningRuns_def find_run_None Let_def comp_def
      if_distrib [of r_id] cong: if_cong split: if_splits)

text \<open>After a restart no row is left running.\<close>

lemma AbortRunningRuns_none: "r \<in> set (snd (AbortRunningRuns now t)) \<Longrightarrow> r_state r \<noteq> RunRunning"
  by (auto simp: AbortRunningRuns_def)

end
