(* ===== verification/Idle_Workspaces.thy ===== *)
theory Idle_Workspaces
  imports Prelude
begin

text \<open>
  \<^verbatim>\<open>internal/server/idle.go\<close>: stopping the running workspaces no run has used for a while. A time is
  the number of nanoseconds since Go's zero time, so the zero time is \<open>0\<close> and an absent key of
  \<^verbatim>\<open>lastUsed\<close> reads as it. The timeout setting, the rows of the workspaces, the workspaces with a run
  at each of the two looks and the outcome of a stop are arguments of \<open>sweep\<close>.
\<close>

datatype ws_state = StateCreating | StateRunning | StateStopped | StateGone

record workspace =
  ws_id :: string
  ws_worktree_of :: string
  ws_state :: ws_state

type_synonym last_used = "string \<rightharpoonup> int"

definition read_time :: "last_used \<Rightarrow> string \<Rightarrow> int" where
  "read_time m k = (case m k of Some t \<Rightarrow> t | None \<Rightarrow> 0)"

definition idle_used :: "string \<Rightarrow> int \<Rightarrow> last_used \<Rightarrow> last_used" where
  "idle_used w t m = (if w = [] then m else if read_time m w < t then m(w \<mapsto> t) else m)"

definition holder_of :: "workspace \<Rightarrow> string" where
  "holder_of ws = (if ws_worktree_of ws \<noteq> [] then ws_worktree_of ws else ws_id ws)"

text \<open>The first loop of \<^verbatim>\<open>idle\<close>: the last use of every holder, its worktrees' included.\<close>

fun last_uses :: "last_used \<Rightarrow> workspace list \<Rightarrow> last_used \<Rightarrow> last_used" where
  "last_uses used [] late = late"
| "last_uses used (ws # all) late =
    last_uses used all
      (if read_time late (holder_of ws) < read_time used (ws_id ws)
       then late(holder_of ws \<mapsto> read_time used (ws_id ws)) else late)"

fun idle_loop :: "int \<Rightarrow> int \<Rightarrow> last_used \<Rightarrow> workspace list \<Rightarrow> last_used \<Rightarrow> workspace list \<times> last_used" where
  "idle_loop now timeout late [] used = ([], used)"
| "idle_loop now timeout late (ws # all) used =
    (if ws_state ws \<noteq> StateRunning then idle_loop now timeout late all (used(ws_id ws := None))
     else if ws_worktree_of ws \<noteq> [] then idle_loop now timeout late all used
     else if late (ws_id ws) = None \<or> late (ws_id ws) = Some 0
       then idle_loop now timeout late all (used(ws_id ws \<mapsto> now))
     else if now - read_time late (ws_id ws) \<ge> timeout
       then (let (out, used) = idle_loop now timeout late all used in (ws # out, used))
     else idle_loop now timeout late all used)"

definition idle :: "workspace list \<Rightarrow> int \<Rightarrow> int \<Rightarrow> last_used \<Rightarrow> workspace list \<times> last_used" where
  "idle all now timeout used = idle_loop now timeout (last_uses used all (\<lambda>_. None)) all used"

definition idle_inUse :: "(string \<Rightarrow> bool) \<Rightarrow> workspace \<Rightarrow> workspace list \<Rightarrow> bool" where
  "idle_inUse inUse holder all \<longleftrightarrow>
     list_ex (\<lambda>ws. inUse (ws_id ws) \<and> (ws_id ws = ws_id holder \<or> ws_worktree_of ws = ws_id holder)) all"

text \<open>
  One sweep: what it stops, in order, and the new map. \<open>first\<close> lists the workspaces in use at the
  first look; \<open>again\<close> is the look right before a workspace is stopped; a stop that fails is skipped.
\<close>

definition sweep ::
  "int \<Rightarrow> workspace list option \<Rightarrow> string list \<Rightarrow> (string \<Rightarrow> string \<Rightarrow> bool) \<Rightarrow> (workspace \<Rightarrow> bool) \<Rightarrow> int
    \<Rightarrow> last_used \<Rightarrow> workspace list \<times> last_used" where
  "sweep timeout listed first again stops now used =
    (if timeout = 0 then ([], used)
     else
       (case listed of
          None \<Rightarrow> ([], used)
        | Some all \<Rightarrow>
            let used = fold (\<lambda>w. idle_used w now) first used;
                (out, used) = idle all now timeout used in
            (filter (\<lambda>ws. \<not> idle_inUse (again (ws_id ws)) ws all \<and> stops ws) out, used)))"

section \<open>What is stopped\<close>

lemma idle_used_max:
  "w \<noteq> [] \<Longrightarrow> read_time (idle_used w t m) w = max t (read_time m w)"
  "v \<noteq> w \<Longrightarrow> read_time (idle_used w t m) v = read_time m v"
  by (auto simp: idle_used_def read_time_def max_def split: option.splits)

lemma last_uses_mono: "read_time late h \<le> read_time (last_uses used all late) h"
proof (induction all arbitrary: late)
  case (Cons ws all)
  let ?l = "if read_time late (holder_of ws) < read_time used (ws_id ws)
       then late(holder_of ws \<mapsto> read_time used (ws_id ws)) else late"
  have "read_time late h \<le> read_time ?l h" by (auto simp: read_time_def split: option.splits)
  then show ?case using Cons [of ?l] by simp
qed simp

lemma last_uses_ge:
  "ws \<in> set all \<Longrightarrow> read_time used (ws_id ws) \<le> read_time (last_uses used all late) (holder_of ws)"
proof (induction all arbitrary: late)
  case (Cons x all)
  let ?l = "if read_time late (holder_of x) < read_time used (ws_id x)
       then late(holder_of x \<mapsto> read_time used (ws_id x)) else late"
  have "read_time used (ws_id x) \<le> read_time ?l (holder_of x)"
    by (auto simp: read_time_def split: option.splits)
  then show ?case using Cons last_uses_mono [of ?l "holder_of x" used all] by force
qed simp

lemma read_time_0 [simp]: "m k = None \<or> m k = Some 0 \<longleftrightarrow> read_time m k = 0"
  by (auto simp: read_time_def split: option.splits)

lemma idle_loop_out:
  "ws \<in> set (fst (idle_loop now timeout late all used)) \<Longrightarrow>
    ws \<in> set all \<and> ws_state ws = StateRunning \<and> ws_worktree_of ws = []
    \<and> read_time late (ws_id ws) \<noteq> 0 \<and> now - read_time late (ws_id ws) \<ge> timeout"
proof (induction all arbitrary: used)
  case (Cons x all)
  then show ?case
    by (auto simp: Let_def case_prod_beta simp del: not_None_eq split: if_splits)
qed simp

lemma idle_out:
  assumes "ws \<in> set (fst (idle all now timeout used))"
  shows "ws \<in> set all" "ws_state ws = StateRunning" "ws_worktree_of ws = []"
    and "x \<in> set all \<Longrightarrow> holder_of x = ws_id ws \<Longrightarrow> now - read_time used (ws_id x) \<ge> timeout"
proof -
  let ?late = "last_uses used all (\<lambda>_. None)"
  have i: "ws \<in> set all \<and> ws_state ws = StateRunning \<and> ws_worktree_of ws = []
      \<and> read_time ?late (ws_id ws) \<noteq> 0 \<and> now - read_time ?late (ws_id ws) \<ge> timeout"
    using idle_loop_out assms unfolding idle_def by blast
  then show "ws \<in> set all" "ws_state ws = StateRunning" "ws_worktree_of ws = []" by auto
  show "now - read_time used (ws_id x) \<ge> timeout" if "x \<in> set all" "holder_of x = ws_id ws"
    using last_uses_ge [OF that(1), of used "\<lambda>_. None"] that(2) i by simp
qed

lemma fold_idle_used:
  "w \<in> set first \<Longrightarrow> w \<noteq> [] \<Longrightarrow> now \<le> read_time (fold (\<lambda>w. idle_used w now) first used) w"
proof (induction first arbitrary: used)
  case (Cons v first)
  have mono: "read_time m w \<le> read_time (fold (\<lambda>w. idle_used w now) vs m) w" for m vs
  proof (induction vs arbitrary: m)
    case (Cons u vs)
    have "read_time m w \<le> read_time (idle_used u now m) w"
      using idle_used_max(1) [of u now m] \<open>w \<noteq> []\<close> idle_used_max(2) [of w u now m] by (cases "u = w") auto
    then show ?case using Cons [of "idle_used u now m"] by simp
  qed simp
  show ?case
  proof (cases "v = w")
    case True
    then show ?thesis using mono [of "idle_used w now used" first] idle_used_max(1) [OF Cons.prems(2), of now used]
      by simp
  qed (use Cons in simp)
qed simp

lemma sweep_facts:
  assumes "ws \<in> set (fst (sweep timeout (Some all) first again stops now used))" "0 < timeout"
  shows "ws_state ws = StateRunning" "ws_worktree_of ws = []"
    and "x \<in> set all \<Longrightarrow> holder_of x = ws_id ws \<Longrightarrow> ws_id x \<noteq> [] \<Longrightarrow>
      ws_id x \<notin> set first \<and> \<not> again (ws_id ws) (ws_id x) \<and> timeout \<le> now - read_time used (ws_id x)"
proof -
  let ?used = "fold (\<lambda>w. idle_used w now) first used"
  have i: "ws \<in> set (fst (idle all now timeout ?used))" and u: "\<not> idle_inUse (again (ws_id ws)) ws all"
    using assms by (auto simp: sweep_def Let_def split: if_splits prod.splits)
  show "ws_state ws = StateRunning" "ws_worktree_of ws = []" using idle_out(2,3) [OF i] by auto
  have grows: "read_time m v \<le> read_time (fold (\<lambda>w. idle_used w now) vs m) v" for m vs v
  proof (induction vs arbitrary: m)
    case (Cons y vs)
    have "read_time m v \<le> read_time (idle_used y now m) v"
      by (cases "y = []"; cases "y = v") (auto simp: idle_used_def read_time_def split: option.splits)
    then show ?case using Cons [of "idle_used y now m"] by simp
  qed simp
  show "ws_id x \<notin> set first \<and> \<not> again (ws_id ws) (ws_id x) \<and> timeout \<le> now - read_time used (ws_id x)"
    if x: "x \<in> set all" "holder_of x = ws_id ws" "ws_id x \<noteq> []"
  proof -
    have t: "timeout \<le> now - read_time ?used (ws_id x)" using idle_out(4) [OF i x(1,2)] .
    then have "ws_id x \<notin> set first" using fold_idle_used [OF _ x(3), of first now used] assms(2) by fastforce
    moreover have "\<not> again (ws_id ws) (ws_id x)"
      using u x by (auto simp: idle_inUse_def list_ex_iff holder_of_def split: if_splits)
    ultimately show ?thesis using t grows [of used "ws_id x" first] by simp
  qed
qed

text \<open>
  C32. A sweep stops a workspace only if it is running and not a worktree, and if neither it nor a
  worktree it holds had a run at either of the two looks or was used within the timeout.
\<close>

theorem sweep_stops:
  assumes "ws \<in> set (fst (sweep timeout (Some all) first again stops now used))" "0 < timeout"
  shows "ws_state ws = StateRunning \<and> ws_worktree_of ws = []
    \<and> (\<forall>x \<in> set all. holder_of x = ws_id ws \<and> ws_id x \<noteq> [] \<longrightarrow>
        ws_id x \<notin> set first \<and> \<not> again (ws_id ws) (ws_id x) \<and> timeout \<le> now - read_time used (ws_id x))"
  using sweep_facts [OF assms] by blast

theorem sweep_stops_witness:
  "let ws = \<lparr>ws_id = ''w'', ws_worktree_of = [], ws_state = StateRunning\<rparr>;
       tree = \<lparr>ws_id = ''t'', ws_worktree_of = ''w'', ws_state = StateRunning\<rparr> in
   fst (sweep 10 (Some [ws, tree]) [] (\<lambda>_ _. False) (\<lambda>_. True) 100 [''w'' \<mapsto> 5, ''t'' \<mapsto> 60]) = [ws]
   \<and> 10 \<le> 100 - read_time [''w'' \<mapsto> 5, ''t'' \<mapsto> 60] ''t''"
proof -
  let ?ws = "\<lparr>ws_id = ''w'', ws_worktree_of = [], ws_state = StateRunning\<rparr>"
  let ?tree = "\<lparr>ws_id = ''t'', ws_worktree_of = ''w'', ws_state = StateRunning\<rparr>"
  let ?used = "[''w'' \<mapsto> 5, ''t'' \<mapsto> 60] :: last_used"
  have s: "fst (sweep 10 (Some [?ws, ?tree]) [] (\<lambda>_ _. False) (\<lambda>_. True) 100 ?used) = [?ws]" by code_simp
  then show ?thesis
    using sweep_stops [of ?ws 10 "[?ws, ?tree]" "[]" "\<lambda>_ _. False" "\<lambda>_. True" 100 ?used]
    by (simp add: Let_def holder_of_def)
qed

end
