(* ===== verification/Run_Manager.thy ===== *)
theory Run_Manager
  imports Conversation Run_Store Idle_Workspaces
begin

text \<open>
  \<^verbatim>\<open>internal/server/run_manager.go\<close>: one agent run per session. \<open>runs\<close> is the state under the
  manager's lock (the three maps and the stopped flag) with the objects the maps point to: an
  \<^verbatim>\<open>*activeRun\<close> is an index into \<open>rn_heap\<close>. What a run's goroutine has done so far is its
  \<open>phase\<close>; the sections the goroutines execute under a lock are the operations below, and
  \<open>rm_do\<close> interleaves them. The agent loop is present through its queues, which is all the manager
  sees of it: it takes messages from them and puts them back, and other goroutines add to them.
\<close>

section \<open>State\<close>

record queuedMessages =
  qm_steering :: "message list"
  qm_followUps :: "message list"

definition no_queued :: queuedMessages where
  "no_queued = \<lparr>qm_steering = [], qm_followUps = []\<rparr>"

record job =
  j_message :: message
  j_compact :: bool
  j_instructions :: string

text \<open>
  The phases of a run's goroutine: claimed and being built; built, with its agent still its own;
  recorded in its \<open>activeRun\<close>; driving the loop; with the loop returned; with the end of the run
  recorded; with the undelivered messages read; over.
\<close>

datatype phase =
    Building
  | Built string agent_queues
  | Begun
  | Driving
  | Returned "err option"
  | Recorded
  | Collected queuedMessages
  | PhaseOver

record activeRun =
  ar_session :: string
  ar_workspace :: string
  ar_cancelled :: bool
  ar_done :: bool
  ar_id :: string
  ar_agent :: "agent_queues option"
  ar_model :: string
  ar_images :: bool
  ar_aborted :: bool
  ar_compact :: bool
  ar_phase :: phase

record runs =
  rn_stopped :: bool
  rn_bySession :: "string \<rightharpoonup> nat"
  rn_byID :: "string \<rightharpoonup> nat"
  rn_pending :: "string \<rightharpoonup> queuedMessages"
  rn_heap :: "nat \<Rightarrow> activeRun"
  rn_next :: nat
  rn_idle :: last_used
  rn_table :: run_table
  rn_children :: "string list"

definition zero_run :: activeRun where
  "zero_run = \<lparr>ar_session = [], ar_workspace = [], ar_cancelled = False, ar_done = False, ar_id = [],
     ar_agent = None, ar_model = [], ar_images = False, ar_aborted = False, ar_compact = False, ar_phase = PhaseOver\<rparr>"

definition newRuns :: runs where
  "newRuns = \<lparr>rn_stopped = False, rn_bySession = (\<lambda>_. None), rn_byID = (\<lambda>_. None), rn_pending = (\<lambda>_. None),
     rn_heap = (\<lambda>_. zero_run), rn_next = 0, rn_idle = (\<lambda>_. None), rn_table = [], rn_children = []\<rparr>"

datatype run_error =
    ShuttingDown
  | AlreadyRunning string
  | NoRun string
  | NoImageInput string
  | NothingToCompact
  | RunOver string run_state
  | StoreFailed err

definition upd_run :: "nat \<Rightarrow> (activeRun \<Rightarrow> activeRun) \<Rightarrow> runs \<Rightarrow> runs" where
  "upd_run ref f r = r\<lparr>rn_heap := (rn_heap r)(ref := f (rn_heap r ref))\<rparr>"

section \<open>The operations\<close>

definition reserve :: "string \<Rightarrow> string \<Rightarrow> bool \<Rightarrow> runs \<Rightarrow> (run_error + nat) \<times> runs" where
  "reserve sid w cmpct r =
    (if rn_stopped r then (Inl ShuttingDown, r)
     else if rn_bySession r sid \<noteq> None then (Inl (AlreadyRunning sid), r)
     else
       let ref = rn_next r in
       (Inr ref, r\<lparr>rn_heap := (rn_heap r)(ref := zero_run\<lparr>ar_session := sid, ar_workspace := w, ar_compact := cmpct,
                     ar_phase := Building\<rparr>),
                  rn_next := Suc ref, rn_bySession := (rn_bySession r)(sid \<mapsto> ref)\<rparr>))"

definition drop_session :: "nat \<Rightarrow> runs \<Rightarrow> runs" where
  "drop_session ref r =
    (let sid = ar_session (rn_heap r ref) in
     if rn_bySession r sid = Some ref then r\<lparr>rn_bySession := (rn_bySession r)(sid := None)\<rparr> else r)"

definition forget :: "int \<Rightarrow> nat \<Rightarrow> runs \<Rightarrow> runs" where
  "forget now ref r =
    (let a = rn_heap r ref;
         r = r\<lparr>rn_idle := idle_used (ar_workspace a) now (rn_idle r)\<rparr>;
         r = drop_session ref r in
     if ar_id a \<noteq> [] then r\<lparr>rn_byID := (rn_byID r)(ar_id a := None)\<rparr> else r)"

definition abandon :: "int \<Rightarrow> nat \<Rightarrow> runs \<Rightarrow> runs" where
  "abandon now ref r =
    upd_run ref (\<lambda>a. a\<lparr>ar_cancelled := True, ar_done := True, ar_phase := PhaseOver\<rparr>) (forget now ref r)"

definition pendingFor :: "string \<Rightarrow> runs \<Rightarrow> queuedMessages" where
  "pendingFor sid r = (case rn_pending r sid of Some q \<Rightarrow> q | None \<Rightarrow> no_queued)"

definition takePending :: "string \<Rightarrow> runs \<Rightarrow> queuedMessages \<times> runs" where
  "takePending sid r = (pendingFor sid r, r\<lparr>rn_pending := (rn_pending r)(sid := None)\<rparr>)"

definition finish :: "int \<Rightarrow> nat \<Rightarrow> queuedMessages \<Rightarrow> runs \<Rightarrow> runs" where
  "finish now ref queued r =
    (let a = rn_heap r ref;
         r = r\<lparr>rn_idle := idle_used (ar_workspace a) now (rn_idle r)\<rparr>;
         r = (if qm_steering queued \<noteq> [] \<or> qm_followUps queued \<noteq> []
              then r\<lparr>rn_pending := (rn_pending r)(ar_session a \<mapsto> queued)\<rparr> else r);
         r = drop_session ref r in
     r\<lparr>rn_byID := (rn_byID r)(ar_id a := None)\<rparr>)"

definition active :: "string \<Rightarrow> runs \<Rightarrow> nat option" where
  "active sid r = rn_bySession r sid"

definition workspacesInUse :: "runs \<Rightarrow> string \<Rightarrow> bool" where
  "workspacesInUse r w \<longleftrightarrow>
     w \<noteq> [] \<and> list_ex (\<lambda>ref. rn_bySession r (ar_session (rn_heap r ref)) = Some ref
       \<and> ar_workspace (rn_heap r ref) = w) [0..<rn_next r]"

definition abortRun :: "nat \<Rightarrow> runs \<Rightarrow> runs" where
  "abortRun ref r =
    (upd_run ref (\<lambda>a. a\<lparr>ar_aborted := True, ar_cancelled := True\<rparr>) r)
      \<lparr>rn_children := rn_children r @ [ar_session (rn_heap r ref)]\<rparr>"

text \<open>What a new run's agent starts with: the messages an earlier run left undelivered.\<close>

definition refill :: "queuedMessages \<Rightarrow> agent_queues" where
  "refill q = fold (\<lambda>m a. snd (FollowUp m a)) (qm_followUps q)
     (fold (\<lambda>m a. snd (Steer m a)) (qm_steering q) new_queues)"

text \<open>
  What stands between the claim and the start: the session's row, the workspace, the configuration
  (the model's name and whether it reads images), the provider, the stored conversation and whether
  a compaction would find anything.
\<close>

record building =
  b_chat :: bool
  b_executor :: "err option"
  b_config :: "err + string \<times> bool"
  b_provider :: "err option"
  b_load :: "err option"
  b_compactable :: bool

definition build_error :: "building \<Rightarrow> job \<Rightarrow> run_error option" where
  "build_error b work =
    (case (if b_chat b then None else b_executor b) of
       Some e \<Rightarrow> Some (StoreFailed e)
     | None \<Rightarrow>
         (case b_config b of
            Inl e \<Rightarrow> Some (StoreFailed e)
          | Inr (model, images) \<Rightarrow>
              if m_images (j_message work) \<noteq> [] \<and> \<not> images then Some (NoImageInput model)
              else
                (case b_provider b of
                   Some e \<Rightarrow> Some (StoreFailed e)
                 | None \<Rightarrow>
                     (case b_load b of
                        Some e \<Rightarrow> Some (StoreFailed e)
                      | None \<Rightarrow> if j_compact work \<and> \<not> b_compactable b then Some NothingToCompact else None))))"

text \<open>The agent is filled from what is pending, unless the run is a compaction.\<close>

definition built :: "string \<Rightarrow> nat \<Rightarrow> runs \<Rightarrow> runs" where
  "built runID ref r =
    (if ar_compact (rn_heap r ref) then upd_run ref (\<lambda>a. a\<lparr>ar_phase := Built runID new_queues\<rparr>) r
     else
       let (queued, r) = takePending (ar_session (rn_heap r ref)) r in
       upd_run ref (\<lambda>a. a\<lparr>ar_phase := Built runID (refill queued)\<rparr>) r)"

definition activeRun_begin :: "string \<Rightarrow> agent_queues \<Rightarrow> string \<times> bool \<Rightarrow> activeRun \<Rightarrow> activeRun" where
  "activeRun_begin runID loop model a =
     a\<lparr>ar_id := runID, ar_agent := Some loop, ar_model := fst model, ar_images := snd model\<rparr>"

definition registered :: "nat \<Rightarrow> runs \<Rightarrow> runs" where
  "registered ref r =
     r\<lparr>rn_byID := (rn_byID r)(ar_id (rn_heap r ref) \<mapsto> ref)\<rparr>"

definition run_outcome :: "err option \<Rightarrow> bool \<Rightarrow> run_state \<times> string" where
  "run_outcome e aborted =
    (case e of
       None \<Rightarrow> (RunDone, [])
     | Some e \<Rightarrow> if aborted then (RunAborted, []) else (RunError, err_text e))"

text \<open>
  \<^verbatim>\<open>retryFinish\<close>: \<open>outcomes\<close> are the outcomes of the attempts, each with whether the context ended
  while the next was waited for. \<^const>\<open>None\<close> means the loop has not returned within them.
\<close>

fun retryFinish :: "(err option \<times> err option) list \<Rightarrow> err option option" where
  "retryFinish [] = None"
| "retryFinish ((e, ended) # outcomes) =
    (case e of
       None \<Rightarrow> Some None
     | Some e \<Rightarrow> (case ended of Some c \<Rightarrow> Some (Some (ErrJoin e c)) | None \<Rightarrow> retryFinish outcomes))"

record finishRetries =
  fr_stopped :: bool
  fr_next :: nat
  fr_cancels :: "nat list"
  fr_cancelled :: "nat list"

definition newFinishRetries :: finishRetries where
  "newFinishRetries = \<lparr>fr_stopped = False, fr_next = 0, fr_cancels = [], fr_cancelled = []\<rparr>"

definition fr_start :: "finishRetries \<Rightarrow> bool \<times> finishRetries" where
  "fr_start f =
    (if fr_stopped f then (False, f)
     else (True, f\<lparr>fr_next := Suc (fr_next f), fr_cancels := fr_cancels f @ [fr_next f]\<rparr>))"

definition fr_ended :: "nat \<Rightarrow> finishRetries \<Rightarrow> finishRetries" where
  "fr_ended i f = f\<lparr>fr_cancels := filter (\<lambda>j. j \<noteq> i) (fr_cancels f)\<rparr>"

definition fr_stop :: "finishRetries \<Rightarrow> finishRetries" where
  "fr_stop f =
    (if fr_stopped f then f
     else f\<lparr>fr_stopped := True, fr_cancelled := fr_cancelled f @ fr_cancels f\<rparr>)"

section \<open>Handlers\<close>

text \<open>
  A message for the run in progress; \<open>found\<close> is the outcome of looking for the session when there is
  none. The run is looked up first and gets the message later: \<open>deliver\<close> is that second half.
\<close>

definition deliver :: "string \<Rightarrow> nat \<Rightarrow> message \<Rightarrow> bool \<Rightarrow> runs \<Rightarrow> (run_error + run) \<times> runs" where
  "deliver sid ref m steer r =
    (let a = rn_heap r ref in
     (case ar_agent a of
        None \<Rightarrow> (Inl (NoRun sid), r)
      | Some loop \<Rightarrow>
          if m_images m \<noteq> [] \<and> \<not> ar_images a then (Inl (NoImageInput (ar_model a)), r)
          else
            (case get_Run (ar_id a) (rn_table r) of
               Inl e \<Rightarrow> (Inl (StoreFailed e), r)
             | Inr row \<Rightarrow>
                 let (accepted, loop) = (if steer then Steer m loop else FollowUp m loop) in
                 if accepted then (Inr row, upd_run ref (\<lambda>a. a\<lparr>ar_agent := Some loop\<rparr>) r)
                 else (Inl (NoRun sid), r))))"

definition enqueue ::
  "err option \<Rightarrow> string \<Rightarrow> message \<Rightarrow> bool \<Rightarrow> runs \<Rightarrow> (run_error + run) \<times> runs" where
  "enqueue found sid m steer r =
    (case active sid r of
       Some ref \<Rightarrow>
         if ar_agent (rn_heap r ref) \<noteq> None then deliver sid ref m steer r
         else (Inl (case found of Some e \<Rightarrow> StoreFailed e | None \<Rightarrow> NoRun sid), r)
     | None \<Rightarrow> (Inl (case found of Some e \<Rightarrow> StoreFailed e | None \<Rightarrow> NoRun sid), r))"

text \<open>
  The first half of \<^verbatim>\<open>abort\<close>: a run the manager knows is told to stop and waited for; a row with no
  run is recorded as aborted when it says running.
\<close>

definition abort_begin :: "int \<Rightarrow> string \<Rightarrow> runs \<Rightarrow> (run_error + nat option) \<times> runs" where
  "abort_begin now runID r =
    (case rn_byID r runID of
       Some ref \<Rightarrow> (Inr (Some ref), abortRun ref r)
     | None \<Rightarrow>
         (case get_Run runID (rn_table r) of
            Inl e \<Rightarrow> (Inl (StoreFailed e), r)
          | Inr row \<Rightarrow>
              if r_state row = RunRunning then
                (case FinishRun runID RunAborted [] now (rn_table r) of
                   Inl e \<Rightarrow> (Inl (StoreFailed e), r)
                 | Inr t \<Rightarrow> (Inr None, r\<lparr>rn_table := t\<rparr>))
              else (Inl (RunOver runID (r_state row)), r)))"

text \<open>
  \<^verbatim>\<open>stopAll\<close> marks the manager stopped and takes the runs there are under the lock; then it aborts
  and waits for one after the other, as \<^verbatim>\<open>stop\<close> does for the run of one session.
\<close>

definition stopAll_begin :: "runs \<Rightarrow> nat list \<times> runs" where
  "stopAll_begin r =
    (filter (\<lambda>ref. rn_bySession r (ar_session (rn_heap r ref)) = Some ref) [0..<rn_next r],
     r\<lparr>rn_stopped := True\<rparr>)"

section \<open>Interleaving\<close>

text \<open>What the agent loop itself does with its queues.\<close>

datatype loop_action = TakeSteering | TakeNext queue_mode | PutBack origin "message list" | CloseQueues

fun loop_do :: "loop_action \<Rightarrow> agent_queues \<Rightarrow> agent_queues" where
  "loop_do TakeSteering q = snd (drainSteering q)"
| "loop_do (TakeNext mode) q = snd (nextQueued mode q)"
| "loop_do (PutBack orig ms) q = unshift_to (Some orig) ms q"
| "loop_do CloseQueues q = closeQueues q"

datatype rm_action =
    Reserve string string bool
  | Abandon int nat
  | Start string int db nat
  | Begin "string \<times> bool" nat
  | Register nat
  | Loop loop_action nat
  | Return "err option" nat
  | Record int nat
  | Collect nat
  | Finish int nat
  | Close nat
  | Enqueue string message bool
  | Deliver string nat message bool
  | Abort int string
  | StopAll
  | Stop nat

text \<open>
  One step of one goroutine; \<^const>\<open>None\<close> when that goroutine is not at that point. \<^verbatim>\<open>Close\<close> is the
  closing of the channel the others wait on, the last thing a run does. A handler that looked a run
  up may act on it at any later time: \<open>Deliver\<close> and \<open>Stop\<close> name the run, not the session.
\<close>

fun rm_do :: "rm_action \<Rightarrow> runs \<Rightarrow> runs option" where
  "rm_do (Reserve sid w cmpct) r =
    (case reserve sid w cmpct r of (Inr _, r) \<Rightarrow> Some r | (Inl _, r) \<Rightarrow> Some r)"
| "rm_do (Abandon now ref) r =
    (if ar_phase (rn_heap r ref) = Building then Some (abandon now ref r) else None)"
| "rm_do (Start runID now d ref) r =
    (if ar_phase (rn_heap r ref) = Building \<and> runID \<noteq> [] then
       (case StartRun runID now (ar_session (rn_heap r ref)) d (rn_table r) of
          Inl _ \<Rightarrow> Some (abandon now ref r)
        | Inr (_, t) \<Rightarrow> Some (built runID ref (r\<lparr>rn_table := t\<rparr>)))
     else None)"
| "rm_do (Begin model ref) r =
    (case ar_phase (rn_heap r ref) of
       Built runID loop \<Rightarrow> Some (upd_run ref (\<lambda>a. (activeRun_begin runID loop model a)\<lparr>ar_phase := Begun\<rparr>) r)
     | _ \<Rightarrow> None)"
| "rm_do (Register ref) r =
    (if ar_phase (rn_heap r ref) = Begun
     then Some (upd_run ref (\<lambda>a. a\<lparr>ar_phase := Driving\<rparr>) (registered ref r)) else None)"
| "rm_do (Loop act ref) r =
    (if ar_phase (rn_heap r ref) = Driving
     then Some (upd_run ref (\<lambda>a. a\<lparr>ar_agent := map_option (loop_do act) (ar_agent a)\<rparr>) r) else None)"
| "rm_do (Return e ref) r =
    (if ar_phase (rn_heap r ref) = Driving
     then Some (upd_run ref (\<lambda>a. a\<lparr>ar_phase := Returned e\<rparr>) r) else None)"
| "rm_do (Record now ref) r =
    (case ar_phase (rn_heap r ref) of
       Returned e \<Rightarrow>
         let a = rn_heap r ref; (state, message) = run_outcome e (ar_aborted a);
             r = (case FinishRun (ar_id a) state message now (rn_table r) of
                    Inr t \<Rightarrow> r\<lparr>rn_table := t\<rparr> | Inl _ \<Rightarrow> r) in
         Some (upd_run ref (\<lambda>a. a\<lparr>ar_phase := Recorded\<rparr>) r)
     | _ \<Rightarrow> None)"
| "rm_do (Collect ref) r =
    (if ar_phase (rn_heap r ref) = Recorded then
       let q = (case ar_agent (rn_heap r ref) of
                  Some loop \<Rightarrow> \<lparr>qm_steering = PendingSteering loop, qm_followUps = PendingFollowUps loop\<rparr>
                | None \<Rightarrow> no_queued) in
       Some (upd_run ref (\<lambda>a. a\<lparr>ar_phase := Collected q\<rparr>) r)
     else None)"
| "rm_do (Finish now ref) r =
    (case ar_phase (rn_heap r ref) of
       Collected q \<Rightarrow> Some (upd_run ref (\<lambda>a. a\<lparr>ar_phase := PhaseOver, ar_cancelled := True\<rparr>) (finish now ref q r))
     | _ \<Rightarrow> None)"
| "rm_do (Close ref) r =
    (if ref < rn_next r \<and> ar_phase (rn_heap r ref) = PhaseOver
     then Some (upd_run ref (\<lambda>a. a\<lparr>ar_done := True\<rparr>) r) else None)"
| "rm_do (Enqueue sid m steer) r = Some (snd (enqueue None sid m steer r))"
| "rm_do (Deliver sid ref m steer) r = Some (snd (deliver sid ref m steer r))"
| "rm_do (Abort now runID) r = Some (snd (abort_begin now runID r))"
| "rm_do StopAll r = Some (snd (stopAll_begin r))"
| "rm_do (Stop ref) r = (if ref < rn_next r then Some (abortRun ref r) else None)"

fun rm_exec :: "rm_action list \<Rightarrow> runs \<Rightarrow> runs option" where
  "rm_exec [] r = Some r"
| "rm_exec (a # as) r = (case rm_do a r of None \<Rightarrow> None | Some r \<Rightarrow> rm_exec as r)"

inductive rm_step :: "runs \<Rightarrow> runs \<Rightarrow> bool" where
  act: "rm_do a r = Some r' \<Longrightarrow> rm_step r r'"

inductive_cases rm_stepE: "rm_step r r'"

end
