(* ===== verification/Run_Manager_Laws.thy ===== *)
theory Run_Manager_Laws
  imports Run_Manager
begin

text \<open>
  The invariant of the run manager and what follows from it in every reachable state: at most one
  live run per session, and a map of run ids that names exactly the runs that can be aborted. The
  rest is about the messages a run leaves behind.
\<close>

section \<open>The invariant\<close>

definition live :: "activeRun \<Rightarrow> bool" where
  "live a \<longleftrightarrow> ar_phase a \<noteq> PhaseOver"

definition known :: "activeRun \<Rightarrow> bool" where
  "known a = (case ar_phase a of Driving \<Rightarrow> True | Returned _ \<Rightarrow> True | Recorded \<Rightarrow> True | Collected _ \<Rightarrow> True | _ \<Rightarrow> False)"

definition run_id_of :: "activeRun \<Rightarrow> string" where
  "run_id_of a = (case ar_phase a of Built i _ \<Rightarrow> i | _ \<Rightarrow> ar_id a)"

definition unnamed :: "activeRun \<Rightarrow> bool" where
  "unnamed a = (case ar_phase a of Building \<Rightarrow> True | Built _ _ \<Rightarrow> True | _ \<Rightarrow> False)"

definition named :: "activeRun \<Rightarrow> bool" where
  "named a \<longleftrightarrow> ar_phase a \<noteq> Building \<and> ar_phase a \<noteq> PhaseOver"

definition rm_inv :: "runs \<Rightarrow> bool" where
  "rm_inv r \<longleftrightarrow>
     (\<forall>sid ref. rn_bySession r sid = Some ref \<longrightarrow> live (rn_heap r ref) \<and> ar_session (rn_heap r ref) = sid)
     \<and> (\<forall>ref. live (rn_heap r ref) \<longrightarrow> ref < rn_next r \<and> rn_bySession r (ar_session (rn_heap r ref)) = Some ref)
     \<and> (\<forall>i ref. rn_byID r i = Some ref \<longleftrightarrow> known (rn_heap r ref) \<and> ar_id (rn_heap r ref) = i)
     \<and> (\<forall>ref. run_id_of (rn_heap r ref) \<noteq> [] \<longrightarrow> find_run (run_id_of (rn_heap r ref)) (rn_table r) \<noteq> None)
     \<and> (\<forall>ref ref'. run_id_of (rn_heap r ref) \<noteq> [] \<longrightarrow> run_id_of (rn_heap r ref) = run_id_of (rn_heap r ref') \<longrightarrow> ref = ref')
     \<and> (\<forall>ref. unnamed (rn_heap r ref) \<longrightarrow> ar_id (rn_heap r ref) = [] \<and> ar_agent (rn_heap r ref) = None)
     \<and> (\<forall>ref. named (rn_heap r ref) \<longrightarrow> run_id_of (rn_heap r ref) \<noteq> [])"

lemma known_live: "known a \<Longrightarrow> live a"
  by (auto simp: known_def live_def)

lemma known_id: "known a \<Longrightarrow> run_id_of a = ar_id a \<and> named a"
  by (auto simp: known_def named_def run_id_of_def split: phase.splits)

text \<open>They read the phase and the id alone.\<close>

lemma phase_frame [simp]:
  "run_id_of (a\<lparr>ar_agent := g\<rparr>) = run_id_of a" "run_id_of (a\<lparr>ar_aborted := b, ar_cancelled := c\<rparr>) = run_id_of a"
  "run_id_of (a\<lparr>ar_done := b\<rparr>) = run_id_of a"
  by (simp_all add: run_id_of_def cong: phase.case_cong)

lemma rm_inv_start: "rm_inv newRuns"
  by (simp add: rm_inv_def newRuns_def zero_run_def live_def known_def run_id_of_def unnamed_def named_def)

text \<open>A change of one object that the maps do not see.\<close>

lemma rm_inv_upd:
  assumes "rm_inv r"
    and "live (f (rn_heap r ref)) = live (rn_heap r ref)" "known (f (rn_heap r ref)) = known (rn_heap r ref)"
    and "ar_session (f (rn_heap r ref)) = ar_session (rn_heap r ref)" "ar_id (f (rn_heap r ref)) = ar_id (rn_heap r ref)"
    and "run_id_of (f (rn_heap r ref)) = run_id_of (rn_heap r ref)"
    and "unnamed (f (rn_heap r ref)) \<Longrightarrow> unnamed (rn_heap r ref) \<and> ar_agent (f (rn_heap r ref)) = ar_agent (rn_heap r ref)"
    and "named (f (rn_heap r ref)) \<Longrightarrow> named (rn_heap r ref)"
  shows "rm_inv (upd_run ref f r)"
proof -
  let ?h = "(rn_heap r)(ref := f (rn_heap r ref))"
  have e: "live (?h x) = live (rn_heap r x)" "known (?h x) = known (rn_heap r x)"
    "ar_session (?h x) = ar_session (rn_heap r x)" "ar_id (?h x) = ar_id (rn_heap r x)"
    "run_id_of (?h x) = run_id_of (rn_heap r x)" for x
    using assms(2-6) by auto
  have u: "unnamed (?h x) \<Longrightarrow> unnamed (rn_heap r x) \<and> ar_agent (?h x) = ar_agent (rn_heap r x)"
    "named (?h x) \<Longrightarrow> named (rn_heap r x)" for x
    using assms(7,8) by (auto split: if_splits)
  show ?thesis using assms(1) u unfolding rm_inv_def upd_run_def by (simp add: e del: fun_upd_apply)
qed

lemma rm_inv_table:
  assumes "rm_inv r" "\<And>i. find_run i (rn_table r) \<noteq> None \<Longrightarrow> find_run i t \<noteq> None"
  shows "rm_inv (r\<lparr>rn_table := t\<rparr>)"
  using assms unfolding rm_inv_def by (simp del: not_None_eq)

lemma rm_inv_frame [simp]:
  "rm_inv (r\<lparr>rn_idle := i\<rparr>) = rm_inv r" "rm_inv (r\<lparr>rn_pending := p\<rparr>) = rm_inv r"
  "rm_inv (r\<lparr>rn_children := c\<rparr>) = rm_inv r" "rm_inv (r\<lparr>rn_stopped := b\<rparr>) = rm_inv r"
  by (simp_all add: rm_inv_def)

text \<open>The parts of the invariant, for the proofs that use one of them.\<close>

lemma rm_invD:
  assumes "rm_inv r"
  shows bySession_live: "rn_bySession r sid = Some ref \<Longrightarrow> live (rn_heap r ref) \<and> ar_session (rn_heap r ref) = sid"
    and live_bySession: "live (rn_heap r ref) \<Longrightarrow> ref < rn_next r \<and> rn_bySession r (ar_session (rn_heap r ref)) = Some ref"
    and byID_known: "rn_byID r i = Some ref \<longleftrightarrow> known (rn_heap r ref) \<and> ar_id (rn_heap r ref) = i"
    and id_stored: "run_id_of (rn_heap r ref) \<noteq> [] \<Longrightarrow> find_run (run_id_of (rn_heap r ref)) (rn_table r) \<noteq> None"
    and id_unique: "run_id_of (rn_heap r ref) \<noteq> [] \<Longrightarrow> run_id_of (rn_heap r ref) = run_id_of (rn_heap r ref') \<Longrightarrow> ref = ref'"
    and unnamed_id: "unnamed (rn_heap r ref) \<Longrightarrow> ar_id (rn_heap r ref) = [] \<and> ar_agent (rn_heap r ref) = None"
    and named_id: "named (rn_heap r ref) \<Longrightarrow> run_id_of (rn_heap r ref) \<noteq> []"
  using assms unfolding rm_inv_def by blast+

lemmas phase_defs = live_def known_def run_id_of_def unnamed_def named_def

section \<open>Every step keeps it\<close>

lemma upd_run_sel [simp]:
  "rn_bySession (upd_run ref f r) = rn_bySession r" "rn_byID (upd_run ref f r) = rn_byID r"
  "rn_pending (upd_run ref f r) = rn_pending r" "rn_table (upd_run ref f r) = rn_table r"
  "rn_next (upd_run ref f r) = rn_next r" "rn_stopped (upd_run ref f r) = rn_stopped r"
  "rn_heap (upd_run ref f r) = (rn_heap r)(ref := f (rn_heap r ref))"
  by (simp_all add: upd_run_def)

lemma reserve_inv:
  assumes "rm_inv r"
  shows "rm_inv (snd (reserve sid w c r))"
proof (cases "rn_stopped r \<or> rn_bySession r sid \<noteq> None")
  case False
  let ?h = "(rn_heap r)(rn_next r := zero_run\<lparr>ar_session := sid, ar_workspace := w, ar_compact := c, ar_phase := Building\<rparr>)"
  have new: "\<not> live (rn_heap r (rn_next r))" using live_bySession [OF assms, of "rn_next r"] by auto
  then have nk: "\<not> known (rn_heap r (rn_next r))" using known_live by blast
  have other: "live (rn_heap r ref) \<Longrightarrow> ref \<noteq> rn_next r \<and> ar_session (rn_heap r ref) \<noteq> sid" for ref
    using live_bySession [OF assms, of ref] False by auto
  have bs: "rn_bySession r s = Some ref \<Longrightarrow> ref \<noteq> rn_next r" for s ref
    using bySession_live [OF assms] new by blast
  show ?thesis using assms False new nk other bs
    unfolding rm_inv_def reserve_def Let_def
    by (auto simp: zero_run_def phase_defs less_Suc_eq split: if_splits)
qed (auto simp: reserve_def assms)

lemma named_run_id: "rm_inv r \<Longrightarrow> ar_id (rn_heap r ref) \<noteq> [] \<Longrightarrow> run_id_of (rn_heap r ref) = ar_id (rn_heap r ref)"
  using unnamed_id [of r ref] by (auto simp: run_id_of_def unnamed_def split: phase.splits)

lemma known_unique:
  assumes "rm_inv r" "known (rn_heap r x)" "ar_id (rn_heap r x) = ar_id (rn_heap r y)"
  shows "x = y"
  using id_unique [OF assms(1), of x y] named_id [OF assms(1), of x] known_id [OF assms(2)]
    named_run_id [OF assms(1)] assms(3) by metis

lemma live_unique:
  assumes "rm_inv r" "live (rn_heap r x)" "live (rn_heap r y)" "ar_session (rn_heap r x) = ar_session (rn_heap r y)"
  shows "x = y"
  using live_bySession [OF assms(1)] assms(2-4) by (metis option.inject)

lemma over_inv:
  assumes inv: "rm_inv r" "live (rn_heap r ref)" "\<not> live (f (rn_heap r ref))"
    and f: "run_id_of (f (rn_heap r ref)) = run_id_of (rn_heap r ref)"
    and r': "rn_heap r' = (rn_heap r)(ref := f (rn_heap r ref))" "rn_next r' = rn_next r" "rn_table r' = rn_table r"
      "rn_bySession r' = (rn_bySession r)(ar_session (rn_heap r ref) := None)"
      "rn_byID r' = (rn_byID r)(ar_id (rn_heap r ref) := None)"
  shows "rm_inv r'"
proof -
  let ?a = "rn_heap r ref" and ?h = "(rn_heap r)(ref := f (rn_heap r ref))"
  have nk: "\<not> known (f ?a)" "\<not> unnamed (f ?a)" "\<not> named (f ?a)"
    using inv(3) by (auto simp: phase_defs)
  have ids: "run_id_of (?h x) = run_id_of (rn_heap r x)" for x using f by simp
  show ?thesis
    unfolding rm_inv_def r'
  proof (intro conjI allI impI)
    fix sid x assume x: "((rn_bySession r)(ar_session ?a := None)) sid = Some x"
    then have "live (rn_heap r x)" "ar_session (rn_heap r x) = sid" "x \<noteq> ref"
      using bySession_live [OF inv(1)] by (auto split: if_splits)
    then show "live (?h x)" "ar_session (?h x) = sid" by auto
  next
    fix x assume "live (?h x)"
    then have x: "x \<noteq> ref" "live (rn_heap r x)" using inv(3) by (auto split: if_splits)
    then show "x < rn_next r" "((rn_bySession r)(ar_session ?a := None)) (ar_session (?h x)) = Some x"
      using live_bySession [OF inv(1) x(2)] live_unique [OF inv(1) x(2) inv(2)] by auto
  next
    fix i x
    show "((rn_byID r)(ar_id ?a := None)) i = Some x \<longleftrightarrow> known (?h x) \<and> ar_id (?h x) = i"
      using byID_known [OF inv(1), of i x] known_unique [OF inv(1), of x ref] nk by auto
  next
    fix x assume "run_id_of (?h x) \<noteq> []"
    then show "find_run (run_id_of (?h x)) (rn_table r) \<noteq> None" using id_stored [OF inv(1), of x] ids by simp
  next
    fix x y assume "run_id_of (?h x) \<noteq> []" "run_id_of (?h x) = run_id_of (?h y)"
    then show "x = y" using id_unique [OF inv(1), of x y] ids by simp
  next
    fix x assume "unnamed (?h x)"
    then show "ar_id (?h x) = []" "ar_agent (?h x) = None"
      using unnamed_id [OF inv(1), of x] nk by (auto split: if_splits)
  next
    fix x assume "named (?h x)"
    then show "run_id_of (?h x) \<noteq> []" using named_id [OF inv(1), of x] nk by (auto split: if_splits)
  qed
qed

text \<open>A run that gets its row, its agent or its place among the ids.\<close>

lemma named_known: "known a \<Longrightarrow> \<not> unnamed a"
  by (auto simp: known_def unnamed_def split: phase.splits)

lemma named_inv:
  assumes inv: "rm_inv r" and a: "a = rn_heap r ref" "live a" "live b" "ar_session b = ar_session a" "\<not> known a"
    and id: "run_id_of b \<noteq> []" "find_run (run_id_of b) (rn_table r') \<noteq> None"
      "run_id_of b = run_id_of a \<or> find_run (run_id_of b) (rn_table r) = None"
    and b: "unnamed b \<Longrightarrow> ar_id b = [] \<and> ar_agent b = None" "\<not> unnamed b \<Longrightarrow> ar_id b = run_id_of b"
    and r': "rn_heap r' = (rn_heap r)(ref := b)" "rn_next r' = rn_next r" "rn_bySession r' = rn_bySession r"
      "rn_byID r' = (if known b then (rn_byID r)(ar_id b \<mapsto> ref) else rn_byID r)"
      "\<And>i. find_run i (rn_table r) \<noteq> None \<Longrightarrow> find_run i (rn_table r') \<noteq> None"
  shows "rm_inv r'"
proof -
  let ?h = "(rn_heap r)(ref := b)"
  have fresh: "x = ref" if "run_id_of (rn_heap r x) = run_id_of b" for x
    using that id_unique [OF inv, of x ref] id_stored [OF inv, of x] id(1,3) a(1) by metis
  show ?thesis
    unfolding rm_inv_def r'(1-4)
  proof (intro conjI allI impI)
    fix sid x assume x: "rn_bySession r sid = Some x"
    then show "live (?h x)" "ar_session (?h x) = sid" using bySession_live [OF inv x] a by auto
  next
    fix x assume "live (?h x)"
    then have "live (rn_heap r x)" using a by (auto split: if_splits)
    then show "x < rn_next r" "rn_bySession r (ar_session (?h x)) = Some x"
      using live_bySession [OF inv, of x] a by auto
  next
    fix i x
    have k: "known (rn_heap r x) \<Longrightarrow> ar_id (rn_heap r x) = ar_id b \<Longrightarrow> known b \<Longrightarrow> x = ref"
      using fresh [of x] b(2) named_known [of b] known_id [of "rn_heap r x"] by metis
    show "(if known b then (rn_byID r)(ar_id b \<mapsto> ref) else rn_byID r) i = Some x \<longleftrightarrow> known (?h x) \<and> ar_id (?h x) = i"
      using byID_known [OF inv, of i x] k a(1,5) by (auto split: if_splits)
  next
    fix x assume "run_id_of (?h x) \<noteq> []"
    then show "find_run (run_id_of (?h x)) (rn_table r') \<noteq> None"
      using id_stored [OF inv, of x] r'(5) id(2) by (auto simp del: not_None_eq split: if_splits)
  next
    fix x y assume "run_id_of (?h x) \<noteq> []" "run_id_of (?h x) = run_id_of (?h y)"
    then show "x = y" using id_unique [OF inv, of x y] fresh by (metis fun_upd_apply)
  next
    fix x assume "unnamed (?h x)"
    then show "ar_id (?h x) = []" "ar_agent (?h x) = None"
      using unnamed_id [OF inv, of x] b(1) by (auto split: if_splits)
  next
    fix x assume "named (?h x)"
    then show "run_id_of (?h x) \<noteq> []" using named_id [OF inv, of x] id(1) by (cases "x = ref") auto
  qed
qed

lemma abandon_inv:
  assumes inv: "rm_inv r" "ar_phase (rn_heap r ref) = Building"
  shows "rm_inv (abandon now ref r)"
proof -
  let ?a = "rn_heap r ref"
  have l: "live ?a" "ar_id ?a = []" using inv unnamed_id [OF inv(1), of ref] by (auto simp: phase_defs)
  have "rn_bySession r (ar_session ?a) = Some ref" using live_bySession [OF inv(1) l(1)] by simp
  moreover have "rn_byID r [] = None"
    using byID_known [OF inv(1), of "[]"] named_id [OF inv(1)] known_id by (cases "rn_byID r []") force+
  ultimately have "rn_heap (abandon now ref r) = (rn_heap r)(ref := ?a\<lparr>ar_cancelled := True, ar_done := True, ar_phase := PhaseOver\<rparr>)"
      "rn_bySession (abandon now ref r) = (rn_bySession r)(ar_session ?a := None)"
      "rn_byID (abandon now ref r) = (rn_byID r)(ar_id ?a := None)"
      "rn_next (abandon now ref r) = rn_next r" "rn_table (abandon now ref r) = rn_table r"
    using l(2) by (simp_all add: abandon_def forget_def drop_session_def Let_def fun_upd_idem)
  then show ?thesis using inv(2) l
    by (intro over_inv [OF inv(1), of ref "\<lambda>a. a\<lparr>ar_cancelled := True, ar_done := True, ar_phase := PhaseOver\<rparr>"])
      (simp_all add: live_def run_id_of_def)
qed

lemma built_sel [simp]:
  "rn_bySession (built i ref r) = rn_bySession r" "rn_byID (built i ref r) = rn_byID r"
  "rn_table (built i ref r) = rn_table r" "rn_next (built i ref r) = rn_next r"
  "rn_heap (built i ref r) = (rn_heap r)(ref := (rn_heap r ref)\<lparr>ar_phase := Built i
     (if ar_compact (rn_heap r ref) then new_queues else refill (pendingFor (ar_session (rn_heap r ref)) r))\<rparr>)"
  by (simp_all add: built_def takePending_def Let_def)

lemma start_inv:
  assumes inv: "rm_inv r" "ar_phase (rn_heap r ref) = Building" "runID \<noteq> []"
    and t: "StartRun runID now sid d (rn_table r) = Inr (row, t)"
  shows "rm_inv (built runID ref (r\<lparr>rn_table := t\<rparr>))"
proof -
  have "find_run runID (rn_table r) = None" "t = row # rn_table r" "r_id row = runID" using StartRun_row [OF t] by auto
  moreover have "ar_id (rn_heap r ref) = [] \<and> ar_agent (rn_heap r ref) = None"
    using unnamed_id [OF inv(1), of ref] inv(2) by (simp add: unnamed_def)
  ultimately show ?thesis using inv(2,3)
    by (intro named_inv [OF inv(1) refl, of ref "rn_heap (built runID ref (r\<lparr>rn_table := t\<rparr>)) ref"])
      (simp_all add: phase_defs)
qed

lemma begin_inv:
  assumes inv: "rm_inv r" "ar_phase (rn_heap r ref) = Built runID loop"
  shows "rm_inv (upd_run ref (\<lambda>a. (activeRun_begin runID loop model a)\<lparr>ar_phase := Begun\<rparr>) r)"
proof -
  have "runID \<noteq> []" using named_id [OF inv(1), of ref] inv(2) by (simp add: phase_defs)
  moreover have "find_run runID (rn_table r) \<noteq> None" using id_stored [OF inv(1), of ref] inv(2) calculation by (simp add: run_id_of_def)
  ultimately show ?thesis using inv(2)
    by (intro named_inv [OF inv(1) refl, of ref "(activeRun_begin runID loop model (rn_heap r ref))\<lparr>ar_phase := Begun\<rparr>"])
      (simp_all add: phase_defs activeRun_begin_def)
qed

lemma register_inv:
  assumes inv: "rm_inv r" "ar_phase (rn_heap r ref) = Begun"
  shows "rm_inv (upd_run ref (\<lambda>a. a\<lparr>ar_phase := Driving\<rparr>) (registered ref r))"
proof -
  have "ar_id (rn_heap r ref) \<noteq> []" using named_id [OF inv(1), of ref] inv(2) by (simp add: phase_defs)
  moreover have "find_run (ar_id (rn_heap r ref)) (rn_table r) \<noteq> None"
    using id_stored [OF inv(1), of ref] inv(2) calculation by (simp add: run_id_of_def)
  ultimately show ?thesis using inv(2)
    by (intro named_inv [OF inv(1) refl, of ref "(rn_heap r ref)\<lparr>ar_phase := Driving\<rparr>"])
      (simp_all add: phase_defs registered_def)
qed

lemma finish_inv:
  assumes inv: "rm_inv r" "ar_phase (rn_heap r ref) = Collected q"
  shows "rm_inv (upd_run ref (\<lambda>a. a\<lparr>ar_phase := PhaseOver, ar_cancelled := True\<rparr>) (finish now ref q r))"
proof -
  have l: "live (rn_heap r ref)" using inv(2) by (simp add: live_def)
  then have "rn_bySession r (ar_session (rn_heap r ref)) = Some ref" using live_bySession [OF inv(1)] by simp
  then show ?thesis using inv(2) l
    by (intro over_inv [OF inv(1), of ref "\<lambda>a. a\<lparr>ar_phase := PhaseOver, ar_cancelled := True\<rparr>"])
      (simp_all add: live_def run_id_of_def finish_def drop_session_def Let_def)
qed

lemma deliver_cases:
  "snd (deliver sid ref m steer r) = r \<or> (\<exists>loop. ar_agent (rn_heap r ref) = Some loop \<and>
     snd (deliver sid ref m steer r) =
       upd_run ref (\<lambda>a. a\<lparr>ar_agent := Some (snd (if steer then Steer m loop else FollowUp m loop))\<rparr>) r)"
  by (auto simp: deliver_def Let_def case_prod_beta split: option.splits sum.splits)

lemma deliver_inv:
  assumes r: "rm_inv r"
  shows "rm_inv (snd (deliver sid ref m steer r))"
proof (cases "snd (deliver sid ref m steer r) = r")
  case False
  then obtain loop where a: "ar_agent (rn_heap r ref) = Some loop"
    "snd (deliver sid ref m steer r) = upd_run ref (\<lambda>a. a\<lparr>ar_agent := Some (snd (if steer then Steer m loop else FollowUp m loop))\<rparr>) r"
    using deliver_cases by blast
  then have "\<not> unnamed (rn_heap r ref)" using unnamed_id [OF r, of ref] by auto
  then show ?thesis unfolding a(2) by (intro rm_inv_upd [OF r]) (simp_all add: live_def known_def unnamed_def named_def)
qed (simp add: r)

lemma enqueue_inv: "rm_inv r \<Longrightarrow> rm_inv (snd (enqueue found sid m steer r))"
  by (auto simp: enqueue_def deliver_inv split: option.splits)

lemma abortRun_inv: "rm_inv r \<Longrightarrow> rm_inv (abortRun ref r)"
  unfolding abortRun_def by (subst rm_inv_frame(3), rule rm_inv_upd) (simp_all add: live_def known_def unnamed_def named_def)

lemma finish_row_inv:
  assumes "rm_inv r" "FinishRun i st e now (rn_table r) = Inr t"
  shows "rm_inv (r\<lparr>rn_table := t\<rparr>)"
proof (rule rm_inv_table [OF assms(1)])
  fix j assume "find_run j (rn_table r) \<noteq> None"
  then show "find_run j t \<noteq> None" using FinishRun_row(1) [OF assms(2)] FinishRun_row(2) [OF assms(2), of j] by (cases "j = i") auto
qed

lemma abort_inv: "rm_inv r \<Longrightarrow> rm_inv (snd (abort_begin now i r))"
  by (auto simp: abort_begin_def abortRun_inv finish_row_inv split: option.splits sum.splits)

lemma rm_do_inv:
  assumes "rm_inv r" "rm_do a r = Some r'"
  shows "rm_inv r'"
proof (cases a)
  case (Reserve sid w c)
  then show ?thesis using assms reserve_inv [OF assms(1), of sid w c] by (auto split: prod.splits sum.splits)
next
  case (Start i now d ref)
  then show ?thesis using assms abandon_inv [OF assms(1)] start_inv [OF assms(1)]
    by (auto split: if_splits sum.splits prod.splits)
next
  case (Record now ref)
  then obtain e where e: "ar_phase (rn_heap r ref) = Returned e" using assms(2) by (auto split: phase.splits)
  let ?t = "FinishRun (ar_id (rn_heap r ref)) (fst (run_outcome e (ar_aborted (rn_heap r ref))))
    (snd (run_outcome e (ar_aborted (rn_heap r ref)))) now (rn_table r)"
  let ?r = "case ?t of Inr t \<Rightarrow> r\<lparr>rn_table := t\<rparr> | Inl _ \<Rightarrow> r"
  have "rm_inv ?r" "rn_heap ?r = rn_heap r" using assms(1) finish_row_inv [OF assms(1)] by (auto split: sum.splits)
  moreover have "r' = upd_run ref (\<lambda>a. a\<lparr>ar_phase := Recorded\<rparr>) ?r" using assms(2) e Record by (simp add: Let_def case_prod_beta)
  ultimately show ?thesis using e by (auto intro!: rm_inv_upd simp: phase_defs)
next
  case (Finish now ref)
  then show ?thesis using assms finish_inv [OF assms(1)] by (auto split: phase.splits)
next
  case (Collect ref)
  then show ?thesis using assms by (auto intro!: rm_inv_upd simp: phase_defs Let_def split: if_splits)
next
  case (Loop act ref)
  then show ?thesis using assms by (auto intro!: rm_inv_upd simp: phase_defs split: if_splits)
next
  case (Return e ref)
  then show ?thesis using assms by (auto intro!: rm_inv_upd simp: phase_defs split: if_splits)
next
  case (Close ref)
  then show ?thesis using assms by (auto intro!: rm_inv_upd simp: phase_defs split: if_splits)
qed (use assms in \<open>auto simp: abandon_inv begin_inv register_inv enqueue_inv deliver_inv abort_inv abortRun_inv
    stopAll_begin_def split: if_splits phase.splits\<close>)

interpretation manager: transition_system newRuns rm_step rm_inv
  by unfold_locales (auto intro: rm_inv_start rm_do_inv elim: rm_stepE)

lemma rm_exec_reachable: "rm_exec as r = Some r' \<Longrightarrow> reachable newRuns rm_step r \<Longrightarrow> reachable newRuns rm_step r'"
proof (induction as arbitrary: r)
  case (Cons a as)
  then obtain r1 where r1: "rm_do a r = Some r1" "rm_exec as r1 = Some r'" by (auto split: option.splits)
  from reach_step [OF Cons.prems(2) rm_step.act [OF r1(1)]] show ?case by (rule Cons.IH [OF r1(2)])
qed simp

section \<open>Shutting down\<close>

lemma op_frame [simp]:
  "rn_stopped (drop_session ref r) = rn_stopped r" "rn_next (drop_session ref r) = rn_next r"
  "rn_stopped (abandon now ref r) = rn_stopped r" "rn_next (abandon now ref r) = rn_next r"
  "rn_stopped (finish now ref q r) = rn_stopped r" "rn_next (finish now ref q r) = rn_next r"
  "rn_stopped (built i ref r) = rn_stopped r" "rn_stopped (registered ref r) = rn_stopped r"
  "rn_next (registered ref r) = rn_next r"
  "rn_stopped (abortRun ref r) = rn_stopped r" "rn_next (abortRun ref r) = rn_next r"
  by (simp_all add: drop_session_def abandon_def forget_def finish_def built_def takePending_def registered_def
      abortRun_def Let_def)

lemma heap_frame [simp]:
  "rn_heap (drop_session ref r) = rn_heap r" "rn_heap (registered ref r) = rn_heap r"
  "rn_heap (finish now ref q r) = rn_heap r" "rn_heap (forget now ref r) = rn_heap r"
  by (simp_all add: drop_session_def registered_def finish_def forget_def Let_def)

lemma enqueue_frame [simp]:
  "rn_stopped (snd (deliver sid ref m steer r)) = rn_stopped r" "rn_next (snd (deliver sid ref m steer r)) = rn_next r"
  "rn_stopped (snd (enqueue found sid m steer r)) = rn_stopped r" "rn_next (snd (enqueue found sid m steer r)) = rn_next r"
proof -
  show d: "rn_stopped (snd (deliver sid ref m steer r)) = rn_stopped r"
    "rn_next (snd (deliver sid ref m steer r)) = rn_next r" for sid ref
    using deliver_cases [of sid ref m steer r] by auto
  show "rn_stopped (snd (enqueue found sid m steer r)) = rn_stopped r"
    "rn_next (snd (enqueue found sid m steer r)) = rn_next r"
    by (simp_all add: enqueue_def d split: option.splits)
qed

lemma stopped_do:
  assumes "rm_do a r = Some r'" "rn_stopped r"
  shows "rn_stopped r' \<and> rn_next r' = rn_next r"
  using assms
  by (cases a) (auto simp: reserve_def stopAll_begin_def abort_begin_def Let_def case_prod_beta
      split: if_splits phase.splits sum.splits option.splits)

lemma stopped_steps:
  assumes "steps rm_step r r'" "rn_stopped r"
  shows "rn_stopped r' \<and> rn_next r' = rn_next r"
  using assms by (induction rule: steps.induct) (auto elim!: rm_stepE dest: stopped_do)

text \<open>A run that is over stays over.\<close>

lemma over_do:
  assumes "rm_do a r = Some r'" "\<not> live (rn_heap r x)" "x < rn_next r"
  shows "\<not> live (rn_heap r' x)"
proof -
  have d: "\<not> live (rn_heap (snd (deliver sid ref m steer r)) x)" for sid ref m steer
    using deliver_cases [of sid ref m steer r] assms(2) by (auto simp: live_def)
  show ?thesis using assms
    by (cases a) (auto simp: d [unfolded live_def not_not] reserve_def stopAll_begin_def abort_begin_def enqueue_def abandon_def abortRun_def
        live_def Let_def case_prod_beta split: if_splits phase.splits sum.splits option.splits)
qed

lemma over_steps:
  assumes "steps rm_step r r'" "rn_stopped r" "\<not> live (rn_heap r x)" "x < rn_next r"
  shows "\<not> live (rn_heap r' x)"
  using assms
proof (induction rule: steps.induct)
  case (steps_step r t u)
  then show ?case using stopped_steps [OF steps_step.hyps(1)] by (auto elim!: rm_stepE dest: over_do)
qed

section \<open>Undelivered messages\<close>


section \<open>The properties\<close>

lemma manager_maps:
  assumes "reachable newRuns rm_step r"
  shows "\<And>x y. live (rn_heap r x) \<Longrightarrow> live (rn_heap r y) \<Longrightarrow> ar_session (rn_heap r x) = ar_session (rn_heap r y) \<Longrightarrow> x = y"
    and "\<And>sid x. active sid r = Some x \<longleftrightarrow> live (rn_heap r x) \<and> ar_session (rn_heap r x) = sid"
    and "\<And>i x. rn_byID r i = Some x \<longleftrightarrow> known (rn_heap r x) \<and> ar_id (rn_heap r x) = i"
    and "\<And>i x. rn_byID r i = Some x \<Longrightarrow> \<exists>row. get_Run i (rn_table r) = Inr row"
proof -
  note inv = manager.reachable_inv [OF assms]
  show "\<And>x y. live (rn_heap r x) \<Longrightarrow> live (rn_heap r y) \<Longrightarrow> ar_session (rn_heap r x) = ar_session (rn_heap r y) \<Longrightarrow> x = y"
    by (rule live_unique [OF inv])
  show "\<And>sid x. active sid r = Some x \<longleftrightarrow> live (rn_heap r x) \<and> ar_session (rn_heap r x) = sid"
    using bySession_live [OF inv] live_bySession [OF inv] by (auto simp: active_def)
  show id: "\<And>i x. rn_byID r i = Some x \<longleftrightarrow> known (rn_heap r x) \<and> ar_id (rn_heap r x) = i"
    by (rule byID_known [OF inv])
  show "\<exists>row. get_Run i (rn_table r) = Inr row" if "rn_byID r i = Some x" for i x
    using that id known_id [of "rn_heap r x"] named_id [OF inv, of x] id_stored [OF inv, of x]
    by (auto simp: get_Run_def split: option.splits)
qed

text \<open>
  C3. In every state the manager can reach, two runs that are not over belong to different sessions,
  the map by session names exactly the runs that are not over, and the map by id exactly those whose
  loop has been handed to its goroutine and not been forgotten; the id of each has a row.
\<close>

theorem one_run_per_session:
  assumes "reachable newRuns rm_step r"
  shows "(\<forall>x y. live (rn_heap r x) \<and> live (rn_heap r y) \<and> ar_session (rn_heap r x) = ar_session (rn_heap r y) \<longrightarrow> x = y)
    \<and> (\<forall>sid x. active sid r = Some x \<longleftrightarrow> live (rn_heap r x) \<and> ar_session (rn_heap r x) = sid)
    \<and> (\<forall>i x. rn_byID r i = Some x \<longleftrightarrow> known (rn_heap r x) \<and> ar_id (rn_heap r x) = i)
    \<and> (\<forall>i x. rn_byID r i = Some x \<longrightarrow> (\<exists>row. get_Run i (rn_table r) = Inr row))"
  using manager_maps [OF assms] by (intro conjI allI impI) (blast, blast, blast, blast)

definition a_session :: session where
  "a_session = \<lparr>s_id = ''s'', s_workspace = ''w'', s_title = [], s_untitled = True, s_session_kind = None, s_head = [],
     s_parent = [], s_tools = None, s_profile = [], s_overrides = [], s_pinned = False, s_archived = False,
     s_created = 0, s_updated = 0\<rparr>"

definition a_db :: db where
  "a_db = \<lparr>d_sessions = [a_session], d_entries = []\<rparr>"

definition started :: "string \<Rightarrow> bool \<Rightarrow> nat \<Rightarrow> rm_action list" where
  "started i c ref = [Reserve ''s'' ''w'' c, Start i 1 a_db ref, Begin (''m'', False) ref, Register ref]"


theorem one_run_per_session_witness:
  "\<exists>r. rm_exec (started ''a'' False 0) newRuns = Some r \<and> active ''s'' r = Some 0 \<and> rn_byID r ''a'' = Some 0
     \<and> (\<exists>row. get_Run ''a'' (rn_table r) = Inr row)"
proof -
  have "case rm_exec (started ''a'' False 0) newRuns of
      Some r \<Rightarrow> rn_byID r ''a'' = Some 0 \<and> active ''s'' r = Some 0 | None \<Rightarrow> False" by code_simp
  then obtain r where r: "rm_exec (started ''a'' False 0) newRuns = Some r" "rn_byID r ''a'' = Some 0" "active ''s'' r = Some 0"
    by (auto split: option.splits)
  show ?thesis
    using r one_run_per_session [OF rm_exec_reachable [OF r(1) reach_start]] by blast
qed

lemma after_stopAll:
  assumes "reachable newRuns rm_step r" "stopAll_begin r = (waited, r1)" "steps rm_step r1 r2"
  shows "live (rn_heap r2 x) \<Longrightarrow> x \<in> set waited"
    and "reserve sid w c r2 = (Inl ShuttingDown, r2)"
proof -
  note inv = manager.reachable_inv [OF assms(1)]
  have r1: "r1 = r\<lparr>rn_stopped := True\<rparr>" "waited = filter (\<lambda>x. rn_bySession r (ar_session (rn_heap r x)) = Some x) [0..<rn_next r]"
    using assms(2) by (simp_all add: stopAll_begin_def)
  have inv2: "rm_inv r2" using manager.steps_inv [OF assms(3)] inv r1(1) by simp
  note nxt = stopped_steps [OF assms(3)]
  show "x \<in> set waited" if "live (rn_heap r2 x)"
    using over_steps [OF assms(3), of x] nxt live_bySession [OF inv2 that] live_bySession [OF inv, of x] that
    by (auto simp: r1)
  show "reserve sid w c r2 = (Inl ShuttingDown, r2)" using nxt by (simp add: r1 reserve_def)
qed

text \<open>
  C19. Once the manager shuts down no run begins: whatever else happens then, a run that is not over is
  one of the runs the shutdown aborts and waits for, and a request for a new one is refused.
\<close>

theorem no_run_after_stopAll:
  assumes "reachable newRuns rm_step r" "stopAll_begin r = (waited, r1)" "steps rm_step r1 r2"
  shows "(\<forall>x. live (rn_heap r2 x) \<longrightarrow> x \<in> set waited) \<and> (\<forall>sid w c. reserve sid w c r2 = (Inl ShuttingDown, r2))"
  using after_stopAll [OF assms] by blast

theorem no_run_after_stopAll_witness: "reserve ''s'' ''w'' False (snd (stopAll_begin newRuns))
    = (Inl ShuttingDown, snd (stopAll_begin newRuns))"
  using no_run_after_stopAll [OF reach_start _ steps_refl, of "fst (stopAll_begin newRuns)" "snd (stopAll_begin newRuns)"]
  by simp









end
