(* ===== verification/Event_Bus.thy ===== *)
theory Event_Bus
  imports Prelude
begin

text \<open>
  \<^verbatim>\<open>internal/event/bus.go\<close>: the bus that fans the events of the runs out to the clients watching
  them. A subscription has a channel of 256 slots; a client that falls further behind loses events
  and is told how many. An event is its topic and the rest of it; the notice the bus sends of its
  own accord is a constructor of its own, so a lost event cannot be taken for one. (Encoding that
  notice is encoding one integer, which cannot fail.)
\<close>

section \<open>State\<close>

definition subscriberBuffer :: nat where
  "subscriberBuffer = 256"

record bus_event =
  be_topic :: string
  be_type :: string
  be_data :: string

datatype notice = Published bus_event | BusDropped nat

record subscription =
  sub_ch :: "notice list"
  sub_topics :: "string list"
  sub_dropped :: nat
  sub_closed :: bool

record bus =
  b_next :: int
  b_subs :: "int list"
  b_heap :: "int \<Rightarrow> subscription"

definition no_subscription :: subscription where
  "no_subscription = \<lparr>sub_ch = [], sub_topics = [], sub_dropped = 0, sub_closed = True\<rparr>"

definition NewBus :: bus where
  "NewBus = \<lparr>b_next = 0, b_subs = [], b_heap = (\<lambda>_. no_subscription)\<rparr>"

section \<open>One subscription\<close>

text \<open>A send on the buffered channel that does not wait: whether it went through, and the channel.\<close>

definition try_send :: "notice \<Rightarrow> subscription \<Rightarrow> bool \<times> subscription" where
  "try_send n s =
    (if length (sub_ch s) < subscriberBuffer then (True, s\<lparr>sub_ch := sub_ch s @ [n]\<rparr>) else (False, s))"

definition reportDropped :: "subscription \<Rightarrow> bool \<times> subscription" where
  "reportDropped s =
    (let (sent, s) = try_send (BusDropped (sub_dropped s)) s in
     if sent then (True, s\<lparr>sub_dropped := 0\<rparr>) else (False, s))"

definition wants :: "subscription \<Rightarrow> bus_event \<Rightarrow> bool" where
  "wants s e \<longleftrightarrow> \<not> sub_closed s \<and> be_topic e \<in> set (sub_topics s)"

definition sub_deliver :: "bus_event \<Rightarrow> subscription \<Rightarrow> subscription" where
  "sub_deliver e s =
    (if \<not> wants s e then s
     else
       let (blocked, s) = (if sub_dropped s > 0 then (let (ok, s) = reportDropped s in (\<not> ok, s)) else (False, s)) in
       if blocked then s\<lparr>sub_dropped := Suc (sub_dropped s)\<rparr>
       else
         let (sent, s) = try_send (Published e) s in
         if sent then s else s\<lparr>sub_dropped := Suc (sub_dropped s)\<rparr>)"

definition sub_Subscribe :: "string list \<Rightarrow> subscription \<Rightarrow> subscription" where
  "sub_Subscribe topics s = s\<lparr>sub_topics := topics\<rparr>"

definition Topics :: "subscription \<Rightarrow> string list" where
  "Topics s = remdups (sub_topics s)"

definition sub_close :: "subscription \<Rightarrow> subscription" where
  "sub_close s = (if sub_closed s then s else s\<lparr>sub_closed := True\<rparr>)"

text \<open>The client takes the next event from the channel, if one is there.\<close>

definition sub_read :: "subscription \<Rightarrow> notice option \<times> subscription" where
  "sub_read s = (case sub_ch s of [] \<Rightarrow> (None, s) | n # ch \<Rightarrow> (Some n, s\<lparr>sub_ch := ch\<rparr>))"





section \<open>The bus\<close>

definition Subscribe :: "string list \<Rightarrow> bus \<Rightarrow> int \<times> bus" where
  "Subscribe topics b =
    (let i = b_next b + 1 in
     (i, b\<lparr>b_next := i, b_subs := b_subs b @ [i],
           b_heap := (b_heap b)(i := \<lparr>sub_ch = [], sub_topics = topics, sub_dropped = 0, sub_closed = False\<rparr>)\<rparr>))"

definition Subscribers :: "bus \<Rightarrow> nat" where
  "Subscribers b = length (b_subs b)"

text \<open>
  \<^verbatim>\<open>Emit\<close> takes the subscriptions under the lock and delivers to each of them afterwards;
  \<open>emit_to\<close> is the delivery to one, which other operations may precede.
\<close>

definition emit_snapshot :: "bus \<Rightarrow> int list" where
  "emit_snapshot b = b_subs b"

definition emit_to :: "bus_event \<Rightarrow> int \<Rightarrow> bus \<Rightarrow> bus" where
  "emit_to e i b = b\<lparr>b_heap := (b_heap b)(i := sub_deliver e (b_heap b i))\<rparr>"

definition Emit :: "bus_event \<Rightarrow> bus \<Rightarrow> bus" where
  "Emit e b = fold (emit_to e) (emit_snapshot b) b"

text \<open>\<^verbatim>\<open>Close\<close>: first out of the map, then closed.\<close>

definition unlist :: "int \<Rightarrow> bus \<Rightarrow> bus" where
  "unlist i b = b\<lparr>b_subs := removeAll i (b_subs b)\<rparr>"

definition bus_sub :: "int \<Rightarrow> (subscription \<Rightarrow> subscription) \<Rightarrow> bus \<Rightarrow> bus" where
  "bus_sub i f b = b\<lparr>b_heap := (b_heap b)(i := f (b_heap b i))\<rparr>"

definition Close :: "int \<Rightarrow> bus \<Rightarrow> bus" where
  "Close i b = bus_sub i sub_close (unlist i b)"

lemmas [bus_defs] = subscriberBuffer_def try_send_def reportDropped_def wants_def sub_deliver_def
  sub_Subscribe_def sub_close_def sub_read_def Subscribe_def emit_to_def unlist_def bus_sub_def

text \<open>
  The steps of the goroutines that share the bus. A delivery names any subscription there has been:
  the snapshot it comes from may be older than a \<^verbatim>\<open>Close\<close>.
\<close>

inductive bus_step :: "bus \<Rightarrow> bus \<Rightarrow> bool" where
  subscribe: "bus_step b (snd (Subscribe topics b))"
| emit: "i \<le> b_next b \<Longrightarrow> bus_step b (emit_to e i b)"
| resubscribe: "i \<le> b_next b \<Longrightarrow> bus_step b (bus_sub i (sub_Subscribe topics) b)"
| read: "i \<le> b_next b \<Longrightarrow> bus_step b (bus_sub i (snd \<circ> sub_read) b)"
| close_first: "bus_step b (unlist i b)"
| close_then: "i \<notin> set (b_subs b) \<Longrightarrow> bus_step b (bus_sub i sub_close b)"

inductive_cases bus_stepE: "bus_step b b'"

section \<open>The invariant\<close>

definition bus_inv :: "bus \<Rightarrow> bool" where
  "bus_inv b \<longleftrightarrow> 0 \<le> b_next b \<and> distinct (b_subs b)
     \<and> (\<forall>i \<in> set (b_subs b). 0 < i \<and> i \<le> b_next b \<and> \<not> sub_closed (b_heap b i))
     \<and> (\<forall>i. length (sub_ch (b_heap b i)) \<le> subscriberBuffer)
     \<and> (\<forall>i > b_next b. sub_closed (b_heap b i))"

lemma deliver_bound: "length (sub_ch s) \<le> subscriberBuffer \<Longrightarrow> length (sub_ch (sub_deliver e s)) \<le> subscriberBuffer"
  by (simp add: bus_defs Let_def)

lemma deliver_closed [simp]: "sub_closed (sub_deliver e s) = sub_closed s"
  by (simp add: bus_defs Let_def)

lemma bus_inv_sub:
  assumes "bus_inv b" "sub_closed (f (b_heap b i)) = sub_closed (b_heap b i) \<or> i \<notin> set (b_subs b) \<and> sub_closed (f (b_heap b i))"
    and "length (sub_ch (f (b_heap b i))) \<le> subscriberBuffer"
  shows "bus_inv (bus_sub i f b)"
  using assms by (auto simp: bus_inv_def bus_sub_def)

lemma bus_inv_step:
  assumes "bus_inv b" "bus_step b b'"
  shows "bus_inv b'"
proof -
  have bnd: "length (sub_ch (b_heap b i)) \<le> subscriberBuffer" for i using assms(1) by (simp add: bus_inv_def)
  note sub = bus_inv_sub [OF assms(1)]
  from assms(2) show ?thesis
  proof (cases rule: bus_step.cases)
    case (subscribe topics)
    then show ?thesis using assms(1) by (force simp: bus_inv_def bus_defs Let_def)
  next
    case (emit i e)
    then show ?thesis
      using sub [of "sub_deliver e" i] deliver_bound [OF bnd [of i], of e] by (simp add: emit_to_def bus_sub_def)
  next
    case (resubscribe i topics)
    then show ?thesis using sub [of "sub_Subscribe topics" i] bnd by (simp add: sub_Subscribe_def)
  next
    case (read i)
    have "length (sub_ch (snd (sub_read (b_heap b i)))) \<le> length (sub_ch (b_heap b i))"
      "sub_closed (snd (sub_read (b_heap b i))) = sub_closed (b_heap b i)"
      by (simp_all add: sub_read_def split: list.splits)
    then show ?thesis using read sub [of "snd \<circ> sub_read" i] order_trans [OF _ bnd] by simp
  next
    case (close_first i)
    then show ?thesis using assms(1) by (auto simp: bus_inv_def unlist_def distinct_removeAll)
  next
    case (close_then i)
    then show ?thesis using sub [of sub_close i] bnd by (simp add: sub_close_def)
  qed
qed

lemma bus_inv_start: "bus_inv NewBus"
  by (simp add: bus_inv_def NewBus_def no_subscription_def subscriberBuffer_def)

interpretation event_bus: transition_system NewBus bus_step bus_inv
  by unfold_locales (rule bus_inv_start, rule bus_inv_step)

section \<open>What is lost is counted\<close>







section \<open>The properties\<close>


lemma bus_facts:
  assumes "reachable NewBus bus_step b"
  shows "distinct (b_subs b)" "i \<in> set (b_subs b) \<Longrightarrow> \<not> sub_closed (b_heap b i)"
    and "length (sub_ch (b_heap b i)) \<le> 256"
    and "i \<in> set (b_subs b) \<Longrightarrow> be_topic e \<in> set (sub_topics (b_heap b i)) \<Longrightarrow> length (sub_ch (b_heap b i)) < 255
      \<Longrightarrow> Published e \<in> set (sub_ch (b_heap (Emit e b) i))"
    and "sub_closed (b_heap b i) \<Longrightarrow> b_heap (Emit e b) i = b_heap b i"
proof -
  have inv: "bus_inv b" by (rule event_bus.reachable_inv [OF assms])
  show d: "distinct (b_subs b)" and o: "i \<in> set (b_subs b) \<Longrightarrow> \<not> sub_closed (b_heap b i)"
    and "length (sub_ch (b_heap b i)) \<le> 256"
    using inv by (auto simp: bus_inv_def subscriberBuffer_def)
  have f: "b_heap (fold (emit_to e) is b) i = (if i \<in> set is then sub_deliver e (b_heap b i) else b_heap b i)"
    if "distinct is" for "is" b
    using that by (induction "is" arbitrary: b) (auto simp: emit_to_def)
  show "Published e \<in> set (sub_ch (b_heap (Emit e b) i))"
    if "i \<in> set (b_subs b)" "be_topic e \<in> set (sub_topics (b_heap b i))" "length (sub_ch (b_heap b i)) < 255"
    using that o [OF that(1)] by (simp add: Emit_def emit_snapshot_def f [OF d] bus_defs Let_def)
  show "b_heap (Emit e b) i = b_heap b i" if "sub_closed (b_heap b i)"
    using that by (simp add: Emit_def emit_snapshot_def f [OF d] sub_deliver_def wants_def)
qed

text \<open>
  C30. In every state the bus can reach, the subscriptions it lists are open and have different ids,
  no channel holds more than 256 events, an emission reaches every listed subscription that wants it
  and fewer than 255 behind, and one to a closed subscription is not sent.
\<close>

theorem bus_delivers:
  assumes "reachable NewBus bus_step b"
  shows "distinct (b_subs b) \<and> length (sub_ch (b_heap b i)) \<le> 256
    \<and> (i \<in> set (b_subs b) \<longrightarrow> \<not> sub_closed (b_heap b i))
    \<and> (i \<in> set (b_subs b) \<and> be_topic e \<in> set (sub_topics (b_heap b i)) \<and> length (sub_ch (b_heap b i)) < 255
        \<longrightarrow> Published e \<in> set (sub_ch (b_heap (Emit e b) i)))
    \<and> (sub_closed (b_heap b i) \<longrightarrow> b_heap (Emit e b) i = b_heap b i)"
  using bus_facts [OF assms] by blast

theorem bus_delivers_witness:
  "Published \<lparr>be_topic = ''t'', be_type = ''x'', be_data = []\<rparr>
     \<in> set (sub_ch (b_heap (Emit \<lparr>be_topic = ''t'', be_type = ''x'', be_data = []\<rparr> (snd (Subscribe [''t''] NewBus))) 1))"
proof -
  have r: "reachable NewBus bus_step (snd (Subscribe [''t''] NewBus))"
    by (rule reach_step [where step = bus_step, OF reach_start]) (rule bus_step.subscribe)
  show ?thesis using bus_delivers [OF r, of 1] by (simp add: Subscribe_def NewBus_def)
qed

end
