(* ===== verification/Search_Cache.thy ===== *)
theory Search_Cache
  imports Prelude
begin

text \<open>
  \<^verbatim>\<open>internal/search/cache.go\<close>: the cache of search results and pages. Go keeps a map from keys to the
  elements of a linked list whose front is the entry used last; an element is an index into
  \<open>c_heap\<close>, so that the map and the list share it the way the pointers do. A time is a number of
  nanoseconds, and a cache's size a natural number (the sources pass positive constants).
\<close>

section \<open>State and operations\<close>

record 'v cacheEntry =
  ce_key :: string
  ce_value :: 'v
  ce_expires :: int

record 'v cache =
  c_size :: nat
  c_ttl :: int
  c_entries :: "string \<rightharpoonup> nat"
  c_order :: "nat list"
  c_heap :: "nat \<rightharpoonup> 'v cacheEntry"
  c_next :: nat

definition NewCache :: "nat \<Rightarrow> int \<Rightarrow> 'v cache" where
  "NewCache n ttl = \<lparr>c_size = n, c_ttl = ttl, c_entries = (\<lambda>_. None), c_order = [], c_heap = (\<lambda>_. None), c_next = 0\<rparr>"

definition move_to_front :: "nat \<Rightarrow> 'v cache \<Rightarrow> 'v cache" where
  "move_to_front el c = c\<lparr>c_order := el # remove1 el (c_order c)\<rparr>"

definition cache_Get :: "string \<Rightarrow> int \<Rightarrow> 'v cache \<Rightarrow> 'v option \<times> 'v cache" where
  "cache_Get key now c =
    (case c_entries c key of
       None \<Rightarrow> (None, c)
     | Some el \<Rightarrow>
         let entry = the (c_heap c el) in
         if \<not> now < ce_expires entry
         then (None, c\<lparr>c_order := remove1 el (c_order c), c_entries := (c_entries c)(key := None)\<rparr>)
         else (Some (ce_value entry), move_to_front el c))"

function cache_evict :: "'v cache \<Rightarrow> 'v cache" where
  "cache_evict c =
    (if length (c_order c) > c_size c then
       let oldest = last (c_order c) in
       cache_evict (c\<lparr>c_order := butlast (c_order c),
                      c_entries := (c_entries c)(ce_key (the (c_heap c oldest)) := None)\<rparr>)
     else c)"
  by pat_completeness auto
termination by (relation "measure (length \<circ> c_order)") auto

declare cache_evict.simps [simp del]

definition cache_Put :: "string \<Rightarrow> 'v \<Rightarrow> int \<Rightarrow> 'v cache \<Rightarrow> 'v cache" where
  "cache_Put key val now c =
    (case c_entries c key of
       Some el \<Rightarrow>
         move_to_front el (c\<lparr>c_heap := (c_heap c)(el \<mapsto> (the (c_heap c el))\<lparr>ce_value := val, ce_expires := now + c_ttl c\<rparr>)\<rparr>)
     | None \<Rightarrow>
         let el = c_next c in
         cache_evict (c\<lparr>c_heap := (c_heap c)(el \<mapsto> \<lparr>ce_key = key, ce_value = val, ce_expires = now + c_ttl c\<rparr>),
                        c_next := Suc el, c_order := el # c_order c, c_entries := (c_entries c)(key \<mapsto> el)\<rparr>))"

definition cache_Len :: "'v cache \<Rightarrow> nat" where
  "cache_Len c = length (c_order c)"

section \<open>The specification\<close>

text \<open>
  A cache is a list of entries with different keys, the one used last in front; storing keeps the
  first \<open>size\<close> of them.
\<close>

definition spec_get :: "string \<Rightarrow> int \<Rightarrow> 'v cacheEntry list \<Rightarrow> 'v option \<times> 'v cacheEntry list" where
  "spec_get key now es =
    (case List.find (\<lambda>e. ce_key e = key) es of
       None \<Rightarrow> (None, es)
     | Some e \<Rightarrow>
         if now < ce_expires e then (Some (ce_value e), e # filter (\<lambda>e. ce_key e \<noteq> key) es)
         else (None, filter (\<lambda>e. ce_key e \<noteq> key) es))"

definition spec_put :: "nat \<Rightarrow> int \<Rightarrow> string \<Rightarrow> 'v \<Rightarrow> int \<Rightarrow> 'v cacheEntry list \<Rightarrow> 'v cacheEntry list" where
  "spec_put n ttl key val now es =
     take n (\<lparr>ce_key = key, ce_value = val, ce_expires = now + ttl\<rparr> # filter (\<lambda>e. ce_key e \<noteq> key) es)"

definition cache_abs :: "'v cache \<Rightarrow> 'v cacheEntry list" where
  "cache_abs c = map (\<lambda>el. the (c_heap c el)) (c_order c)"

text \<open>The map and the list hold the same elements; and the list is not longer than the size.\<close>

definition linked :: "'v cache \<Rightarrow> bool" where
  "linked c \<longleftrightarrow> distinct (c_order c) \<and> (\<forall>el \<in> set (c_order c). el < c_next c \<and> c_heap c el \<noteq> None)
     \<and> (\<forall>k el. c_entries c k = Some el \<longleftrightarrow> el \<in> set (c_order c) \<and> ce_key (the (c_heap c el)) = k)"

definition cache_inv :: "'v cache \<Rightarrow> bool" where
  "cache_inv c \<longleftrightarrow> linked c \<and> length (c_order c) \<le> c_size c"

section \<open>The code implements the specification\<close>

lemma remove1_filter: "distinct xs \<Longrightarrow> remove1 x xs = filter (\<lambda>y. y \<noteq> x) xs"
  by (simp add: distinct_remove1_removeAll removeAll_filter_not_eq eq_commute)

lemma linkedD:
  assumes "linked c"
  shows entry_in: "c_entries c k = Some el \<Longrightarrow> el \<in> set (c_order c) \<and> ce_key (the (c_heap c el)) = k"
    and in_entry: "el \<in> set (c_order c) \<Longrightarrow> c_entries c (ce_key (the (c_heap c el))) = Some el"
    and linked_order: "distinct (c_order c)"
    and linked_heap: "el \<in> set (c_order c) \<Longrightarrow> el < c_next c \<and> c_heap c el \<noteq> None"
  using assms unfolding linked_def by blast+

lemma linkedI:
  assumes "distinct (c_order c)"
    and "\<And>el. el \<in> set (c_order c) \<Longrightarrow> el < c_next c \<and> c_heap c el \<noteq> None"
    and "\<And>k el. c_entries c k = Some el \<Longrightarrow> el \<in> set (c_order c) \<and> ce_key (the (c_heap c el)) = k"
    and "\<And>el. el \<in> set (c_order c) \<Longrightarrow> c_entries c (ce_key (the (c_heap c el))) = Some el"
  shows "linked c"
  using assms unfolding linked_def by blast

lemma inv_keys:
  assumes "linked c" "x \<in> set (c_order c)" "y \<in> set (c_order c)"
    and "ce_key (the (c_heap c x)) = ce_key (the (c_heap c y))"
  shows "x = y"
  using in_entry [OF assms(1,2)] in_entry [OF assms(1,3)] assms(4) by (metis option.inject)

lemma abs_remove:
  assumes "linked c" "c_entries c key = Some el"
  shows "map (\<lambda>el. the (c_heap c el)) (remove1 el (c_order c)) = filter (\<lambda>e. ce_key e \<noteq> key) (cache_abs c)"
proof -
  note el = entry_in [OF assms]
  have "filter (\<lambda>y. y \<noteq> el) (c_order c) = filter (\<lambda>y. ce_key (the (c_heap c y)) \<noteq> key) (c_order c)"
    using inv_keys [OF assms(1)] el by (intro filter_cong) auto
  then show ?thesis using linked_order [OF assms(1)] by (simp add: cache_abs_def remove1_filter filter_map comp_def)
qed

lemma abs_find:
  assumes "linked c"
  shows "List.find (\<lambda>e. ce_key e = key) (cache_abs c) = map_option (\<lambda>el. the (c_heap c el)) (c_entries c key)"
proof (cases "c_entries c key")
  case None
  then have "\<forall>e \<in> set (cache_abs c). ce_key e \<noteq> key" using in_entry [OF assms] by (auto simp: cache_abs_def)
  then show ?thesis using None by (auto simp: find_None_iff)
next
  case (Some el)
  note el = entry_in [OF assms Some]
  then have "List.find (\<lambda>e. ce_key e = key) (cache_abs c) \<noteq> None" by (auto simp: find_None_iff cache_abs_def)
  then obtain e where e: "List.find (\<lambda>e. ce_key e = key) (cache_abs c) = Some e" by blast
  then have "e \<in> set (cache_abs c)" "ce_key e = key" by (auto simp: find_Some_iff)
  then obtain el' where "el' \<in> set (c_order c)" "e = the (c_heap c el')" "ce_key e = key"
    by (auto simp: cache_abs_def)
  then have "el' = el" using inv_keys [OF assms] el by auto
  then show ?thesis using e Some \<open>e = the (c_heap c el')\<close> by simp
qed

lemma front_linked:
  assumes "linked c" "el \<in> set (c_order c)"
  shows "linked (move_to_front el c)" "cache_abs (move_to_front el c) =
      the (c_heap c el) # filter (\<lambda>e. ce_key e \<noteq> ce_key (the (c_heap c el))) (cache_abs c)"
    and "length (c_order (move_to_front el c)) = length (c_order c)"
proof -
  have s: "set (el # remove1 el (c_order c)) = set (c_order c)"
    using assms linked_order [OF assms(1)] by auto
  show "length (c_order (move_to_front el c)) = length (c_order c)"
    using assms(2) length_pos_if_in_set [OF assms(2)] by (simp add: move_to_front_def length_remove1)
  show "linked (move_to_front el c)"
    using s linked_order [OF assms(1)] entry_in [OF assms(1)] in_entry [OF assms(1)] linked_heap [OF assms(1)]
    by (intro linkedI) (auto simp: move_to_front_def)
  show "cache_abs (move_to_front el c) =
    the (c_heap c el) # filter (\<lambda>e. ce_key e \<noteq> ce_key (the (c_heap c el))) (cache_abs c)"
    using abs_remove [OF assms(1) in_entry [OF assms]] by (simp add: move_to_front_def cache_abs_def)
qed

lemma drop_linked:
  assumes "linked c" "el \<in> set (c_order c)" "mset order' = mset (c_order c) - {#el#}"
  shows "linked (c\<lparr>c_order := order', c_entries := (c_entries c)(ce_key (the (c_heap c el)) := None)\<rparr>)"
proof -
  have m: "mset (c_order c) = add_mset el (mset order')" using assms(2,3) by simp
  then have "mset (c_order c) = mset (el # order')" by simp
  from mset_eq_setD [OF this] mset_eq_imp_distinct_iff [OF this]
  have d: "distinct order'" "el \<notin> set order'" "set (c_order c) = insert el (set order')"
    using linked_order [OF assms(1)] by simp_all
  show ?thesis
  proof (rule linkedI; (unfold cache.select_convs cache.update_convs)?)
    fix x assume x: "x \<in> set (c_order (c\<lparr>c_order := order', c_entries := (c_entries c)(ce_key (the (c_heap c el)) := None)\<rparr>))"
    then have "x \<in> set (c_order c)" "x \<noteq> el" using d by auto
    then show "c_entries (c\<lparr>c_order := order', c_entries := (c_entries c)(ce_key (the (c_heap c el)) := None)\<rparr>)
          (ce_key (the (c_heap (c\<lparr>c_order := order', c_entries := (c_entries c)(ce_key (the (c_heap c el)) := None)\<rparr>) x))) = Some x"
      and "x < c_next (c\<lparr>c_order := order', c_entries := (c_entries c)(ce_key (the (c_heap c el)) := None)\<rparr>)
        \<and> c_heap (c\<lparr>c_order := order', c_entries := (c_entries c)(ce_key (the (c_heap c el)) := None)\<rparr>) x \<noteq> None"
      using in_entry [OF assms(1), of x] inv_keys [OF assms(1), of x el] linked_heap [OF assms(1), of x] assms(2) by auto
  next
    fix k x assume "c_entries (c\<lparr>c_order := order', c_entries := (c_entries c)(ce_key (the (c_heap c el)) := None)\<rparr>) k = Some x"
    then have "c_entries c k = Some x" "k \<noteq> ce_key (the (c_heap c el))" by (auto split: if_splits)
    then show "x \<in> set (c_order (c\<lparr>c_order := order', c_entries := (c_entries c)(ce_key (the (c_heap c el)) := None)\<rparr>))
        \<and> ce_key (the (c_heap (c\<lparr>c_order := order', c_entries := (c_entries c)(ce_key (the (c_heap c el)) := None)\<rparr>) x)) = k"
      using entry_in [OF assms(1), of k x] d by auto
  qed (use d in simp)
qed

lemma get_refines:
  assumes inv: "cache_inv c" and g: "cache_Get key now c = (r, c')"
  shows "spec_get key now (cache_abs c) = (r, cache_abs c') \<and> cache_inv c' \<and> c_size c' = c_size c \<and> c_ttl c' = c_ttl c"
proof -
  have l: "linked c" and len: "length (c_order c) \<le> c_size c" using inv by (auto simp: cache_inv_def)
  show ?thesis
  proof (cases "c_entries c key")
    case None
    then show ?thesis using abs_find [OF l, of key] assms by (auto simp: cache_Get_def spec_get_def)
  next
    case (Some el)
    note f = abs_find [OF l, of key]
    have el: "el \<in> set (c_order c)" "ce_key (the (c_heap c el)) = key" using entry_in [OF l Some] by auto
    show ?thesis
    proof (cases "now < ce_expires (the (c_heap c el))")
      case True
      then have c': "r = Some (ce_value (the (c_heap c el)))" "c' = move_to_front el c"
        using g Some by (simp_all add: cache_Get_def)
      have "c_size (move_to_front el c) = c_size c" "c_ttl (move_to_front el c) = c_ttl c" by (simp_all add: move_to_front_def)
      then show ?thesis using front_linked [OF l el(1)] f el Some True len
        unfolding c' by (simp add: spec_get_def cache_inv_def)
    next
      case False
      then have c': "r = None" "c' = c\<lparr>c_order := remove1 el (c_order c), c_entries := (c_entries c)(key := None)\<rparr>"
        using g Some by (simp_all add: cache_Get_def)
      have "linked c'" using drop_linked [OF l el(1), of "remove1 el (c_order c)"] el(2) by (simp add: c')
      then show ?thesis using abs_remove [OF l Some] f Some False len
        by (simp add: c' spec_get_def cache_abs_def cache_inv_def length_remove1 le_diff_conv)
    qed
  qed
qed

lemma evict_abs: "cache_abs (cache_evict c) = take (c_size c) (cache_abs c) \<and> c_size (cache_evict c) = c_size c
    \<and> c_ttl (cache_evict c) = c_ttl c"
proof (induction c rule: cache_evict.induct)
  case (1 c)
  have b: "length (c_order c) > n \<Longrightarrow> take n (map f (butlast (c_order c))) = take n (map f (c_order c))" for n and f :: "nat \<Rightarrow> 'a cacheEntry"
    by (simp add: map_butlast take_butlast)
  show ?case using 1 b [of "c_size c" "\<lambda>el. the (c_heap c el)"]
    by (subst (1 2 3) cache_evict.simps) (auto simp: cache_abs_def Let_def)
qed

lemma evict_linked: "linked c \<Longrightarrow> cache_inv (cache_evict c)"
proof (induction c rule: cache_evict.induct)
  case (1 c)
  show ?case
  proof (cases "length (c_order c) > c_size c")
    case True
    then have ne: "c_order c \<noteq> []" by auto
    have "mset (butlast (c_order c)) = mset (c_order c) - {#last (c_order c)#}"
      using ne by (metis add_mset_remove_trivial append_butlast_last_id mset.simps(2) mset_append union_mset_add_mset_right add.right_neutral mset.simps(1))
    then show ?thesis using "1.IH" [OF True refl] drop_linked [OF "1.prems" last_in_set [OF ne]] True
      by (subst cache_evict.simps) (simp add: Let_def)
  next
    case False
    then show ?thesis using "1.prems" by (subst cache_evict.simps) (simp add: cache_inv_def)
  qed
qed

lemma put_refines:
  assumes inv: "cache_inv c"
  shows "cache_abs (cache_Put key val now c) = spec_put (c_size c) (c_ttl c) key val now (cache_abs c)
    \<and> cache_inv (cache_Put key val now c) \<and> c_size (cache_Put key val now c) = c_size c
    \<and> c_ttl (cache_Put key val now c) = c_ttl c"
proof -
  have l: "linked c" and len: "length (c_order c) \<le> c_size c" using inv by (auto simp: cache_inv_def)
  let ?e = "\<lparr>ce_key = key, ce_value = val, ce_expires = now + c_ttl c\<rparr>"
  show ?thesis
  proof (cases "c_entries c key")
    case None
    let ?c = "c\<lparr>c_heap := (c_heap c)(c_next c \<mapsto> ?e), c_next := Suc (c_next c), c_order := c_next c # c_order c,
      c_entries := (c_entries c)(key \<mapsto> c_next c)\<rparr>"
    have new: "c_next c \<notin> set (c_order c)" using linked_heap [OF l] by blast
    have keys: "x \<in> set (c_order c) \<Longrightarrow> ce_key (the (c_heap c x)) \<noteq> key" for x using in_entry [OF l, of x] None by auto
    have "linked ?c"
    proof (rule linkedI)
      fix k x assume "c_entries ?c k = Some x"
      then show "x \<in> set (c_order ?c) \<and> ce_key (the (c_heap ?c x)) = k"
        using entry_in [OF l, of k x] new by (auto split: if_splits)
    next
      fix x assume "x \<in> set (c_order ?c)"
      then show "c_entries ?c (ce_key (the (c_heap ?c x))) = Some x" "x < c_next ?c \<and> c_heap ?c x \<noteq> None"
        using in_entry [OF l, of x] keys [of x] new linked_heap [OF l, of x] by auto
    qed (use new linked_order [OF l] in simp)
    moreover have "cache_abs ?c = ?e # cache_abs c" using new by (simp add: cache_abs_def cong: map_cong)
    moreover have "filter (\<lambda>e. ce_key e \<noteq> key) (cache_abs c) = cache_abs c" using keys by (auto simp: cache_abs_def filter_id_conv)
    ultimately show ?thesis using None evict_abs [of ?c] evict_linked [of ?c]
      by (simp add: cache_Put_def spec_put_def Let_def)
  next
    case (Some el)
    have el: "el \<in> set (c_order c)" "ce_key (the (c_heap c el)) = key" using entry_in [OF l Some] by auto
    let ?c = "c\<lparr>c_heap := (c_heap c)(el \<mapsto> (the (c_heap c el))\<lparr>ce_value := val, ce_expires := now + c_ttl c\<rparr>)\<rparr>"
    have k: "ce_key (the (c_heap ?c x)) = ce_key (the (c_heap c x))" for x by simp
    have "linked ?c"
      using linked_order [OF l] entry_in [OF l] in_entry [OF l] linked_heap [OF l] k by (intro linkedI) auto
    note fr = front_linked [OF this, of el]
    have "filter (\<lambda>e. ce_key e \<noteq> key) (map (\<lambda>x. the (c_heap ?c x)) xs) = filter (\<lambda>e. ce_key e \<noteq> key) (map (\<lambda>x. the (c_heap c x)) xs)" for xs
      using el(2) by (induction xs) auto
    then have "filter (\<lambda>e. ce_key e \<noteq> key) (cache_abs ?c) = filter (\<lambda>e. ce_key e \<noteq> key) (cache_abs c)"
      by (simp add: cache_abs_def)
    moreover have e: "the (c_heap ?c el) = ?e" using el(2) by (cases "the (c_heap c el)") simp
    ultimately have ab: "cache_abs (move_to_front el ?c) = ?e # filter (\<lambda>e. ce_key e \<noteq> key) (cache_abs c)"
      using fr(2) el(1) by (simp del: fun_upd_apply)
    have n: "length (c_order (move_to_front el ?c)) = length (c_order c)" using fr(3) el(1) by simp
    have "length (cache_abs (move_to_front el ?c)) \<le> c_size c" using n len by (simp add: cache_abs_def)
    then have "take (c_size c) (cache_abs (move_to_front el ?c)) = cache_abs (move_to_front el ?c)" by simp
    moreover have "cache_Put key val now c = move_to_front el ?c" using Some by (simp add: cache_Put_def)
    moreover have "c_size (move_to_front el ?c) = c_size c" "c_ttl (move_to_front el ?c) = c_ttl c"
      by (simp_all add: move_to_front_def)
    ultimately show ?thesis using ab n fr(1) el(1) len by (simp add: spec_put_def cache_inv_def)
  qed
qed

section \<open>What a client relies on\<close>

datatype 'v cache_op = OpGet string int | OpPut string 'v int

fun op_key :: "'v cache_op \<Rightarrow> string" where
  "op_key (OpGet k _) = k"
| "op_key (OpPut k _ _) = k"

text \<open>The last value stored under a key, and when.\<close>

fun last_put :: "string \<Rightarrow> 'v cache_op list \<Rightarrow> ('v \<times> int) option" where
  "last_put k [] = None"
| "last_put k (x # xs) =
    (case last_put k xs of
       Some p \<Rightarrow> Some p
     | None \<Rightarrow> (case x of OpPut j v now \<Rightarrow> if j = k then Some (v, now) else None | OpGet _ _ \<Rightarrow> None))"

fun run_ops :: "(string \<Rightarrow> int \<Rightarrow> 's \<Rightarrow> 'v option \<times> 's) \<Rightarrow> (string \<Rightarrow> 'v \<Rightarrow> int \<Rightarrow> 's \<Rightarrow> 's) \<Rightarrow> 'v cache_op list \<Rightarrow> 's \<Rightarrow> 's" where
  "run_ops get put [] s = s"
| "run_ops get put (OpGet k now # xs) s = run_ops get put xs (snd (get k now s))"
| "run_ops get put (OpPut k v now # xs) s = run_ops get put xs (put k v now s)"

locale keyed_cache =
  fixes get :: "string \<Rightarrow> int \<Rightarrow> 's \<Rightarrow> 'v option \<times> 's"
    and put :: "string \<Rightarrow> 'v \<Rightarrow> int \<Rightarrow> 's \<Rightarrow> 's"
    and inv :: "'s \<Rightarrow> bool"
    and ttl :: int
  assumes inv_get: "inv s \<Longrightarrow> inv (snd (get k now s))"
    and inv_put: "inv s \<Longrightarrow> inv (put k v now s)"
    and get_put_same: "inv s \<Longrightarrow> fst (get k t (put k v now s)) = Some w \<Longrightarrow> w = v \<and> t < now + ttl"
    and get_put_other: "inv s \<Longrightarrow> j \<noteq> k \<Longrightarrow> fst (get j t (put k v now s)) = Some w \<Longrightarrow> fst (get j t s) = Some w"
    and get_get: "inv s \<Longrightarrow> fst (get j t (snd (get k now s))) = Some w \<Longrightarrow> fst (get j t s) = Some w"
begin

lemma run_inv: "inv s \<Longrightarrow> inv (run_ops get put xs s)"
proof (induction xs arbitrary: s)
  case (Cons x xs)
  then show ?case by (cases x) (simp_all add: inv_get inv_put)
qed simp

lemma served:
  "inv s \<Longrightarrow> fst (get k t (run_ops get put xs s)) = Some w \<Longrightarrow>
    (case last_put k xs of Some (v, now) \<Rightarrow> w = v \<and> t < now + ttl | None \<Rightarrow> fst (get k t s) = Some w)"
proof (induction xs arbitrary: s)
  case (Cons x xs)
  show ?case
  proof (cases x)
    case (OpGet j now)
    then show ?thesis using Cons.IH [OF inv_get [of s j now]] Cons.prems get_get [of s k t j now w]
      by (auto split: option.splits)
  next
    case (OpPut j v now)
    then show ?thesis using Cons.IH [OF inv_put [of s j v now]] Cons.prems
        get_put_same [of s k t v now w] get_put_other [of s k j t v now w]
      by (auto split: option.splits if_splits)
  qed
qed simp

end

lemma spec_get_some: "fst (spec_get k t es) = Some w \<longleftrightarrow>
    (\<exists>e. List.find (\<lambda>e. ce_key e = k) es = Some e \<and> t < ce_expires e \<and> w = ce_value e)"
  by (auto simp: spec_get_def split: option.splits)

lemma find_key: "List.find (\<lambda>e. ce_key e = k) es = Some e \<Longrightarrow> ce_key e = k"
  by (auto simp: find_Some_iff)

lemma find_take: "List.find P (take n xs) = Some x \<Longrightarrow> List.find P xs = Some x"
  by (induction xs arbitrary: n) (auto simp: take_Cons split: nat.splits if_splits)

lemma find_filter_key: "List.find (\<lambda>e. ce_key e = k) (filter (\<lambda>e. ce_key e \<noteq> j) es) =
    (if j = k then None else List.find (\<lambda>e. ce_key e = k) es)"
  by (induction es) (auto simp: find_None_iff)

lemma spec_get_put_same: "fst (spec_get k t (spec_put n ttl k v now es)) = Some w \<Longrightarrow> w = v \<and> t < now + ttl"
  by (auto simp: spec_get_some spec_put_def dest!: find_take)

lemma spec_get_put_other:
  "j \<noteq> k \<Longrightarrow> fst (spec_get j t (spec_put n ttl k v now es)) = Some w \<Longrightarrow> fst (spec_get j t es) = Some w"
  by (auto simp: spec_get_some spec_put_def find_filter_key dest!: find_take)

lemma spec_get_get:
  "fst (spec_get j t (snd (spec_get k now es))) = Some w \<Longrightarrow> fst (spec_get j t es) = Some w"
  by (cases "j = k") (auto simp: spec_get_some spec_get_def find_filter_key dest: find_key split: option.splits if_splits)

lemma get_spec: "cache_inv c \<Longrightarrow> fst (cache_Get k t c) = fst (spec_get k t (cache_abs c)) \<and> cache_inv (snd (cache_Get k t c))
    \<and> cache_abs (snd (cache_Get k t c)) = snd (spec_get k t (cache_abs c)) \<and> c_ttl (snd (cache_Get k t c)) = c_ttl c
    \<and> c_size (snd (cache_Get k t c)) = c_size c"
  using get_refines [of c k t "fst (cache_Get k t c)" "snd (cache_Get k t c)"] by (metis fst_conv prod.collapse snd_conv)

lemma put_get_hit:
  assumes "cache_inv c" "0 < c_size c" "t < now + c_ttl c"
  shows "fst (cache_Get k t (cache_Put k v now c)) = Some v"
proof -
  obtain m where "c_size c = Suc m" using assms(2) gr0_conv_Suc by auto
  then have "fst (spec_get k t (spec_put (c_size c) (c_ttl c) k v now (cache_abs c))) = Some v"
    using assms(3) by (simp add: spec_get_def spec_put_def)
  then show ?thesis using put_refines [OF assms(1), of k v now] get_spec [of "cache_Put k v now c" k t] by simp
qed

interpretation lru: keyed_cache cache_Get cache_Put "\<lambda>c. cache_inv c \<and> c_ttl c = ttl" ttl for ttl
proof unfold_locales
  fix s :: "'v cache" and j k t now v w
  assume s: "cache_inv s \<and> c_ttl s = ttl"
  note g = get_spec [of s k now] and p = put_refines [of s k v now]
  show "cache_inv (snd (cache_Get k now s)) \<and> c_ttl (snd (cache_Get k now s)) = ttl" using g s by simp
  show "cache_inv (cache_Put k v now s) \<and> c_ttl (cache_Put k v now s) = ttl" using p s by simp
  show "w = v \<and> t < now + ttl" if "fst (cache_Get k t (cache_Put k v now s)) = Some w"
    using that p s get_spec [of "cache_Put k v now s" k t] by (auto dest: spec_get_put_same)
  show "fst (cache_Get j t s) = Some w" if "j \<noteq> k" "fst (cache_Get j t (cache_Put k v now s)) = Some w"
    using that p s get_spec [of "cache_Put k v now s" j t] get_spec [of s j t] by (auto dest: spec_get_put_other)
  show "fst (cache_Get j t s) = Some w" if "fst (cache_Get j t (snd (cache_Get k now s))) = Some w"
    using that g s get_spec [of "snd (cache_Get k now s)" j t] get_spec [of s j t] spec_get_get [of j t k now "cache_abs s" w] by auto
qed

section \<open>The properties\<close>

lemma cache_refinement:
  "cache_inv (NewCache n ttl) \<and> cache_abs (NewCache n ttl) = []"
  "cache_inv c \<Longrightarrow> cache_Get key now c = (r, c') \<Longrightarrow> spec_get key now (cache_abs c) = (r, cache_abs c') \<and> cache_inv c'"
  "cache_inv c \<Longrightarrow> cache_abs (cache_Put key val now c) = spec_put (c_size c) (c_ttl c) key val now (cache_abs c)
     \<and> cache_inv (cache_Put key val now c)"
  "cache_inv c \<Longrightarrow> cache_Len c = length (cache_abs c) \<and> cache_Len c \<le> c_size c"
  using get_refines [of c key now r c'] put_refines [of c key val now]
  by (auto simp: NewCache_def cache_abs_def cache_inv_def linked_def cache_Len_def)

text \<open>
  C15. The map and the list of the cache implement the specification: a list of entries with the one
  used last in front, of which a store keeps the first \<open>c_size\<close>. A new cache is the empty list, and
  every operation keeps the map and the list in step and the bound on their length.
\<close>

theorem cache_refines:
  "cache_inv (NewCache n ttl) \<and> cache_abs (NewCache n ttl) = []
   \<and> (cache_inv c \<longrightarrow>
       (cache_Get key now c = (r, c') \<longrightarrow> spec_get key now (cache_abs c) = (r, cache_abs c') \<and> cache_inv c')
     \<and> cache_abs (cache_Put key val now c) = spec_put (c_size c) (c_ttl c) key val now (cache_abs c)
     \<and> cache_inv (cache_Put key val now c)
     \<and> cache_Len c = length (cache_abs c) \<and> cache_Len c \<le> c_size c)"
  using cache_refinement(1) [where n = n and ttl = ttl] cache_refinement(2) [where c = c and key = key and now = now and r = r and c' = c']
    cache_refinement(3) [where c = c and key = key and val = val and now = now] cache_refinement(4) [where c = c]
  by blast

theorem cache_refines_witness:
  "cache_abs (cache_Put ''k'' True 5 (NewCache 2 10)) = spec_put 2 10 ''k'' True 5 []"
proof -
  have "c_size (NewCache 2 10 :: bool cache) = 2" "c_ttl (NewCache 2 10 :: bool cache) = 10" by (simp_all add: NewCache_def)
  then show ?thesis
    using cache_refines [where n = 2 and ttl = 10 and c = "NewCache 2 10 :: bool cache" and key = "''k''" and val = True and now = 5]
    by (metis (full_types))
qed

text \<open>
  The cache serves only what was stored last under the key, and only before it expires, whatever
  was looked up, stored and evicted in between.
\<close>

lemma cache_serves_last_put:
  assumes "fst (cache_Get k t (run_ops cache_Get cache_Put xs (NewCache n ttl))) = Some w"
  shows "\<exists>now. last_put k xs = Some (w, now) \<and> t < now + ttl"
proof -
  have "cache_inv (NewCache n ttl) \<and> c_ttl (NewCache n ttl) = ttl"
    by (simp add: cache_inv_def linked_def NewCache_def)
  from lru.served [OF this assms] show ?thesis
    by (auto simp: cache_Get_def NewCache_def split: option.splits)
qed

section \<open>What is kept\<close>

text \<open>\<open>kept K e es\<close>: the entry is there, behind entries whose keys are in \<open>K\<close> only.\<close>

definition kept :: "string set \<Rightarrow> 'v cacheEntry \<Rightarrow> 'v cacheEntry list \<Rightarrow> bool" where
  "kept K e es \<longleftrightarrow> distinct (map ce_key es) \<and> (\<exists>pre post. es = pre @ e # post \<and> ce_key ` set pre \<subseteq> K)"

lemma kept_take:
  assumes "kept K e es" "finite K" "card K < n"
  shows "kept K e (take n es)"
proof -
  obtain pre post where es: "es = pre @ e # post" "ce_key ` set pre \<subseteq> K" "distinct (map ce_key es)"
    using assms(1) by (auto simp: kept_def)
  then have "length pre = card (ce_key ` set pre)" using distinct_card [of "map ce_key pre"] by simp
  also have "\<dots> \<le> card K" by (rule card_mono [OF assms(2) es(2)])
  finally have "take n es = pre @ e # take (n - Suc (length pre)) post" using assms(3) es(1) by (simp add: take_Cons')
  moreover have "distinct (map ce_key (take n es))" using es(3) by (metis distinct_take take_map)
  ultimately show ?thesis using es(2) unfolding kept_def by blast
qed

lemma keptI: "distinct (map ce_key (pre @ e # post)) \<Longrightarrow> ce_key ` set pre \<subseteq> K \<Longrightarrow> kept K e (pre @ e # post)"
  unfolding kept_def by blast

lemma keptE:
  assumes "kept K e es"
  obtains pre post where "es = pre @ e # post" "distinct (map ce_key (pre @ e # post))" "ce_key ` set pre \<subseteq> K"
  using assms unfolding kept_def by blast

lemma kept_filter: "kept K e es \<Longrightarrow> ce_key e \<noteq> j \<Longrightarrow> kept K e (filter (\<lambda>e. ce_key e \<noteq> j) es)"
proof (erule keptE)
  fix pre post
  assume es: "es = pre @ e # post" "distinct (map ce_key (pre @ e # post))" "ce_key ` set pre \<subseteq> K" and e: "ce_key e \<noteq> j"
  have "kept K e (filter (\<lambda>e. ce_key e \<noteq> j) pre @ e # filter (\<lambda>e. ce_key e \<noteq> j) post)"
    using es(2,3) by (intro keptI) (auto simp: distinct_map_filter)
  then show ?thesis using es(1) e by simp
qed

lemma kept_front: "kept K e es \<Longrightarrow> ce_key x \<in> K \<Longrightarrow> ce_key x \<notin> ce_key ` set es \<Longrightarrow> kept K e (x # es)"
proof (erule keptE)
  fix pre post
  assume "es = pre @ e # post" "distinct (map ce_key (pre @ e # post))" "ce_key ` set pre \<subseteq> K"
    "ce_key x \<in> K" "ce_key x \<notin> ce_key ` set es"
  then show ?thesis using keptI [of "x # pre" e post K] by auto
qed

lemma kept_find: "kept K e es \<Longrightarrow> List.find (\<lambda>x. ce_key x = ce_key e) es = Some e"
proof (erule keptE)
  fix pre post assume es: "es = pre @ e # post" "distinct (map ce_key (pre @ e # post))"
  then have "ce_key e \<notin> ce_key ` set pre" by auto
  then show ?thesis unfolding es(1) by (induction pre) auto
qed

lemma kept_put:
  assumes "kept K e es" "finite K" "card K < n" "ce_key e \<notin> K" "j \<in> K"
  shows "kept K e (spec_put n ttl j v now es)"
  unfolding spec_put_def using assms by (intro kept_take kept_front kept_filter) auto

lemma kept_get:
  assumes "kept K e es" "ce_key e \<notin> K" "j \<in> K"
  shows "kept K e (snd (spec_get j now es))"
proof (cases "List.find (\<lambda>x. ce_key x = j) es")
  case (Some x)
  have "kept K e (filter (\<lambda>e. ce_key e \<noteq> j) es)" using assms by (intro kept_filter) auto
  moreover have "kept K e (x # filter (\<lambda>e. ce_key e \<noteq> j) es)"
    using calculation find_key [OF Some] assms(3) by (intro kept_front) auto
  ultimately show ?thesis using Some by (simp add: spec_get_def)
qed (use assms in \<open>simp add: spec_get_def\<close>)

lemma kept_hit:
  assumes "kept K e es" "now < ce_expires e"
  shows "kept K e (snd (spec_get (ce_key e) now es))" "fst (spec_get (ce_key e) now es) = Some (ce_value e)"
proof -
  have "distinct (map ce_key (e # filter (\<lambda>x. ce_key x \<noteq> ce_key e) es))"
    using assms(1) by (auto simp: kept_def distinct_map_filter)
  then have "kept K e (e # filter (\<lambda>x. ce_key x \<noteq> ce_key e) es)" unfolding kept_def
    by (metis append_Nil empty_set empty_subsetI image_empty)
  then show "kept K e (snd (spec_get (ce_key e) now es))" "fst (spec_get (ce_key e) now es) = Some (ce_value e)"
    using kept_find [OF assms(1)] assms(2) by (simp_all add: spec_get_def)
qed

lemma abs_keys: "cache_inv c \<Longrightarrow> distinct (map ce_key (cache_abs c))"
  using inv_keys [of c] by (auto simp: cache_inv_def cache_abs_def distinct_map inj_on_def linked_order)

text \<open>
  A stored value is found again until it expires, as long as fewer than \<open>c_size\<close> other keys have
  been used since and none of the lookups of its own key came after it expired.
\<close>

lemma cache_keeps_recent:
  assumes "cache_inv c" "card (op_key ` set xs - {k}) < c_size c" "t < now + c_ttl c"
    and "\<And>x. x \<in> set xs \<Longrightarrow> op_key x = k \<Longrightarrow> \<exists>u. x = OpGet k u \<and> u < now + c_ttl c"
  shows "fst (cache_Get k t (run_ops cache_Get cache_Put xs (cache_Put k v now c))) = Some v"
proof -
  let ?K = "op_key ` set xs - {k}" and ?e = "\<lparr>ce_key = k, ce_value = v, ce_expires = now + c_ttl c\<rparr>"
  have run: "fst (cache_Get k t (run_ops cache_Get cache_Put ys d)) = Some v"
    if "cache_inv d" "c_size d = c_size c" "kept ?K ?e (cache_abs d)" "set ys \<subseteq> set xs" for d ys
    using that
  proof (induction ys arbitrary: d)
    case Nil
    then show ?case using kept_hit(2) [of ?K ?e "cache_abs d" t] get_spec [of d k t] assms(3) by simp
  next
    case (Cons y ys)
    have mem: "y \<in> set xs" using Cons.prems by simp
    show ?case
    proof (cases y)
      case (OpGet j u)
      have "kept ?K ?e (snd (spec_get j u (cache_abs d)))"
        using Cons.prems(3) assms(4) [OF mem] mem OpGet kept_hit(1) [of ?K ?e "cache_abs d" u] kept_get [of ?K ?e "cache_abs d" j u]
        by (cases "j = k") force+
      then show ?thesis using Cons get_spec [of d j u] OpGet by simp
    next
      case (OpPut j w u)
      then have "j \<in> ?K" using assms(4) [OF mem] mem by force
      then have "kept ?K ?e (spec_put (c_size d) (c_ttl d) j w u (cache_abs d))"
        using Cons.prems assms(2) by (intro kept_put) auto
      then show ?thesis using Cons put_refines [of d j w u] OpPut by simp
    qed
  qed
  have n: "0 < c_size c" using assms(2) by simp
  have "distinct (map ce_key (spec_put (c_size c) (c_ttl c) k v now (cache_abs c)))"
    using abs_keys [of "cache_Put k v now c"] put_refines [OF assms(1), of k v now] by simp
  moreover obtain m where "c_size c = Suc m" using n gr0_conv_Suc by auto
  ultimately have "kept ?K ?e (spec_put (c_size c) (c_ttl c) k v now (cache_abs c))"
    using keptI [of "[]" ?e "take m (filter (\<lambda>e. ce_key e \<noteq> k) (cache_abs c))" ?K] by (simp add: spec_put_def)
  then show ?thesis using put_refines [OF assms(1), of k v now] by (intro run) auto
qed

end
