(* ===== verification/Search_Usage.thy ===== *)
theory Search_Usage
  imports Prelude
begin

text \<open>
  \<^verbatim>\<open>internal/search/usage.go\<close>: the quotas and cooldowns of the search backends. A time is a number of
  nanoseconds since the start of the year 1 in UTC, Go's zero time; \<open>date_only\<close> and \<open>year_month\<close> are
  what \<^verbatim>\<open>Format\<close> makes of it. The tracker writes every change through to a store; the writes it
  makes, in their order, are part of its state.
\<close>

section \<open>Dates\<close>

definition second_ns :: int where
  "second_ns = 1000000000"

definition civil :: "int \<Rightarrow> int \<times> int \<times> int" where
  "civil t =
    (let z = t div (86400 * second_ns) + 306;
         era = z div 146097;
         doe = z mod 146097;
         yoe = (doe - doe div 1460 + doe div 36524 - doe div 146096) div 365;
         doy = doe - (365 * yoe + yoe div 4 - yoe div 100);
         mp = (5 * doy + 2) div 153;
         d = doy - (153 * mp + 2) div 5 + 1;
         m = (if mp < 10 then mp + 3 else mp - 9) in
     (yoe + era * 400 + (if m \<le> 2 then 1 else 0), m, d))"

definition padded :: "nat \<Rightarrow> int \<Rightarrow> string" where
  "padded w n = replicate (w - length (itoa n)) (CHR ''0'') @ itoa n"

definition year_month :: "int \<Rightarrow> string" where
  "year_month t = (let (y, m, d) = civil t in padded 4 y @ ''-'' @ padded 2 m)"

definition date_only :: "int \<Rightarrow> string" where
  "date_only t = (let (y, m, d) = civil t in padded 4 y @ ''-'' @ padded 2 m @ ''-'' @ padded 2 d)"

section \<open>The tracker\<close>

definition cooldownBase :: int where
  "cooldownBase = 15 * 60 * second_ns"

definition cooldownMax :: int where
  "cooldownMax = 6 * 3600 * second_ns"

definition maxRetryWait :: int where
  "maxRetryWait = 24 * 3600 * second_ns"

record quota =
  l_day :: int
  l_month :: int

record bucket_usage =
  u_day :: string
  u_day_used :: nat
  u_month :: string
  u_month_used :: nat
  u_cooldown :: int
  u_streak :: nat

record tracker =
  tr_usage :: "string \<rightharpoonup> bucket_usage"
  tr_store :: bool
  tr_writes :: "(string \<times> bucket_usage) list"


definition rolled :: "int \<Rightarrow> bucket_usage option \<Rightarrow> bucket_usage" where
  "rolled now u =
    (let day = date_only now; month = year_month now;
         u = (case u of Some u \<Rightarrow> u
              | None \<Rightarrow> \<lparr>u_day = day, u_day_used = 0, u_month = month, u_month_used = 0, u_cooldown = 0, u_streak = 0\<rparr>);
         u = (if u_day u \<noteq> day then u\<lparr>u_day := day, u_day_used := 0\<rparr> else u) in
     if u_month u \<noteq> month then u\<lparr>u_month := month, u_month_used := 0\<rparr> else u)"

definition tracker_entry :: "string \<Rightarrow> int \<Rightarrow> tracker \<Rightarrow> bucket_usage \<times> tracker" where
  "tracker_entry name now t =
    (let u = rolled now (tr_usage t name) in (u, t\<lparr>tr_usage := (tr_usage t)(name \<mapsto> u)\<rparr>))"

definition Usage :: "string \<Rightarrow> int \<Rightarrow> tracker \<Rightarrow> bucket_usage \<times> tracker" where
  "Usage name now t = tracker_entry name now t"

definition ceil_minutes :: "int \<Rightarrow> int" where
  "ceil_minutes d = - (- d div (60 * second_ns))"

definition Blocked :: "string \<Rightarrow> quota \<Rightarrow> int \<Rightarrow> tracker \<Rightarrow> string \<times> tracker" where
  "Blocked name limit now t =
    (let (u, t) = Usage name now t in
     (if now < u_cooldown u then ''cooling down '' @ itoa (ceil_minutes (u_cooldown u - now)) @ ''m''
      else if l_day limit > 0 \<and> int (u_day_used u) \<ge> l_day limit then ''daily quota spent''
      else if l_month limit > 0 \<and> int (u_month_used u) \<ge> l_month limit then ''monthly quota spent''
      else [], t))"

definition tracker_update :: "string \<Rightarrow> int \<Rightarrow> (bucket_usage \<Rightarrow> bucket_usage) \<Rightarrow> tracker \<Rightarrow> tracker" where
  "tracker_update name now change t =
    (let (u, t) = tracker_entry name now t; u = change u;
         t = t\<lparr>tr_usage := (tr_usage t)(name \<mapsto> u)\<rparr> in
     if tr_store t then t\<lparr>tr_writes := tr_writes t @ [(name, u)]\<rparr> else t)"

definition RecordUse :: "string \<Rightarrow> int \<Rightarrow> tracker \<Rightarrow> tracker" where
  "RecordUse name now = tracker_update name now (\<lambda>u.
     u\<lparr>u_day_used := Suc (u_day_used u), u_month_used := Suc (u_month_used u), u_streak := 0, u_cooldown := 0\<rparr>)"

definition cooldown_backoff :: "nat \<Rightarrow> int" where
  "cooldown_backoff streak = min (cooldownBase * 2 ^ min (streak - 1) 10) cooldownMax"

definition RecordFailure :: "string \<Rightarrow> int \<Rightarrow> int \<Rightarrow> tracker \<Rightarrow> tracker" where
  "RecordFailure name now until = tracker_update name now (\<lambda>u.
     let streak = Suc (u_streak u); due = now + cooldown_backoff streak in
     u\<lparr>u_streak := streak, u_cooldown := (if until > due then until else due)\<rparr>)"

text \<open>
  \<^verbatim>\<open>RetryDeadline\<close> caps what the headers of an answer name; the reading of the headers is \<open>named\<close>.
\<close>

definition RetryDeadline :: "int \<Rightarrow> int \<Rightarrow> int" where
  "RetryDeadline named now = (if named > now + maxRetryWait then now + maxRetryWait else named)"

lemmas [search_defs] = tracker_entry_def Usage_def Blocked_def tracker_update_def RecordUse_def RecordFailure_def

section \<open>Histories\<close>


















section \<open>The property\<close>




text \<open>
  The cooldown after a failure: at least 15 minutes, doubled with each failure in a row, and at most
  six hours unless the backend named a later time.
\<close>

lemma cooldown_backoff_bounds: "cooldownBase \<le> cooldown_backoff n" "cooldown_backoff n \<le> cooldownMax"
  "n \<le> m \<Longrightarrow> cooldown_backoff n \<le> cooldown_backoff m"
proof -
  have "(1::int) \<le> 2 ^ k" for k :: nat by simp
  then have "cooldownBase * 1 \<le> cooldownBase * 2 ^ k" for k :: nat
    by (intro mult_left_mono) (simp_all add: cooldownBase_def second_ns_def)
  then show "cooldownBase \<le> cooldown_backoff n"
    by (simp add: cooldown_backoff_def) (simp add: cooldownBase_def cooldownMax_def second_ns_def)
  show "cooldown_backoff n \<le> cooldownMax" by (simp add: cooldown_backoff_def)
  assume "n \<le> m"
  then have "(2::int) ^ min (n - 1) 10 \<le> 2 ^ min (m - 1) 10" by (intro power_increasing) auto
  then have "cooldownBase * 2 ^ min (n - 1) 10 \<le> cooldownBase * 2 ^ min (m - 1) 10"
    by (intro mult_left_mono) (simp_all add: cooldownBase_def second_ns_def)
  then show "cooldown_backoff n \<le> cooldown_backoff m" by (auto simp: cooldown_backoff_def min_def)
qed

end
