(* ===== verification/Search_Engine.thy ===== *)
theory Search_Engine
  imports Search_Cache Search_Usage
begin

text \<open>
  \<^verbatim>\<open>internal/search/engine.go\<close>, with \<^verbatim>\<open>Dedupe\<close>, \<^verbatim>\<open>Truncate\<close>, \<^verbatim>\<open>FormatResults\<close> and \<^verbatim>\<open>Describe\<close>:
  a search of the web through a chain of providers, and of a source directly. The services behind
  the backends, the stored keys, the settings and the clock are the environment; the calls of the
  clock are counted, so that two readings may differ. The requests the engine sends are part of its
  state, as the list of the backends asked. \<^verbatim>\<open>page\<close> stands for \<^verbatim>\<open>NormalizeURL\<close> and \<^verbatim>\<open>clean\<close> for
  \<^verbatim>\<open>Clean\<close>, whose work is the parsing of URLs and markup.
\<close>

section \<open>Results\<close>

record result =
  re_title :: string
  re_url :: string
  re_description :: string

fun dedupe_loop :: "(string \<Rightarrow> string) \<Rightarrow> string list \<Rightarrow> result list \<Rightarrow> result list" where
  "dedupe_loop page seen [] = []"
| "dedupe_loop page seen (r # rs) =
    (if re_url r = [] \<or> re_title r = [] then dedupe_loop page seen rs
     else if page (re_url r) \<in> set seen then dedupe_loop page seen rs
     else r # dedupe_loop page (page (re_url r) # seen) rs)"

definition Dedupe :: "(string \<Rightarrow> string) \<Rightarrow> result list \<Rightarrow> result list" where
  "Dedupe page rs = dedupe_loop page [] rs"

fun valid_utf8 :: "string \<Rightarrow> bool" where
  "valid_utf8 s = (utf8 s = s)"

function cut_valid :: "string \<Rightarrow> string" where
  "cut_valid s = (if valid_utf8 s \<or> s = [] then s else cut_valid (butlast s))"
  by pat_completeness auto
termination by (relation "measure length") auto

declare cut_valid.simps [simp del]

definition last_space :: "string \<Rightarrow> nat option" where
  "last_space s =
    (case index_of (\<lambda>c. c = CHR '' '') (rev s) of None \<Rightarrow> None | Some i \<Rightarrow> Some (length s - Suc i))"

definition CharsPerToken :: nat where
  "CharsPerToken = 4"

definition search_Truncate :: "string \<Rightarrow> nat \<Rightarrow> string" where
  "search_Truncate s tokens =
    (let limit = tokens * CharsPerToken in
     if length s \<le> limit then s
     else
       let slice = cut_valid (take limit s);
           slice = (case last_space slice of
                      Some pos \<Rightarrow> if pos > limit * 6 div 10 then take pos slice else slice | None \<Rightarrow> slice) in
       rev (dropWhile (\<lambda>c. c \<in> {CHR '' '', CHR 0x09, CHR 0x0A}) (rev slice)) @ [CHR 0xE2, CHR 0x80, CHR 0xA6])"

definition result_block :: "(string \<Rightarrow> string) \<Rightarrow> nat \<Rightarrow> nat \<times> result \<Rightarrow> string" where
  "result_block clean tokens ir =
    (let r = snd ir; d = search_Truncate (clean (re_description r)) tokens in
     join_str nl ([itoa (int (fst ir) + 1) @ ''. '' @ clean (re_title r), ''   '' @ re_url r]
       @ (if d \<noteq> [] then [''   '' @ d] else [])))"

definition FormatResults :: "(string \<Rightarrow> string) \<Rightarrow> nat \<Rightarrow> result list \<Rightarrow> string" where
  "FormatResults clean tokens rs =
    (if rs = [] then ''No results.'' else join_str (nl @ nl) (map (result_block clean tokens) (zip [0..<length rs] rs)))"

section \<open>Errors\<close>

text \<open>
  What a backend fails with: an answer the service is to blame for, with its status, message and the
  deadline its headers name (0 when they name none), or a fault of the transport, described.
\<close>

datatype search_error = HTTPError int string int | TransportError string

fun contains :: "string \<Rightarrow> string \<Rightarrow> bool" where
  "contains p [] = (p = [])"
| "contains p (c # s) = (prefix p (c # s) \<or> contains p s)"

fun search_Describe :: "search_error \<Rightarrow> string" where
  "search_Describe (HTTPError status msg _) =
    (if status > 0 \<and> \<not> contains (itoa status) msg then msg @ '' - '' @ itoa status else msg)"
| "search_Describe (TransportError d) = d"

fun failureReason :: "search_error \<Rightarrow> string" where
  "failureReason (HTTPError status msg named) =
    (if status = 429 then ''rate limited'' else if status > 0 then ''HTTP '' @ itoa status
     else search_Describe (HTTPError status msg named))"
| "failureReason (TransportError d) = d"

fun retryDeadline :: "search_error \<Rightarrow> int" where
  "retryDeadline (HTTPError _ _ named) = named"
| "retryDeadline (TransportError _) = 0"

section \<open>The engine\<close>

record backend =
  bk_name :: string
  bk_web :: bool
  bk_key :: string
  bk_key_required :: bool
  bk_bucket :: string
  bk_limit :: quota
  bk_pool :: nat
  bk_interval :: int

record query =
  qu_text :: string
  qu_limit :: nat
  qu_key :: string

record options =
  op_order :: "string list option"
  op_limits :: "(string \<times> quota) list"

text \<open>
  The environment: the answer of a backend at its \<open>n\<close>-th request, with whether the search was
  cancelled by then, the stored keys, the settings, the clock and the place SearXNG is looked for.
\<close>

record search_env =
  se_backends :: "backend list"
  se_ask :: "string \<Rightarrow> query \<Rightarrow> nat \<Rightarrow> search_error + result list"
  se_cancelled :: "nat \<Rightarrow> string option"
  se_key :: "string \<Rightarrow> string + string"
  se_options :: "string + options"
  se_now :: "nat \<Rightarrow> int"
  se_page :: "string \<Rightarrow> string"
  se_clean :: "string \<Rightarrow> string"
  se_searxng :: string

record cached =
  ca_provider :: string
  ca_results :: "result list"

record engine =
  en_tracker :: tracker
  en_cache :: "cached cache"
  en_tick :: nat
  en_asked :: "string list"

definition cacheSize :: nat where
  "cacheSize = 512"

definition cacheTTL :: int where
  "cacheTTL = 24 * 3600 * second_ns"

definition poolSize :: nat where
  "poolSize = 30"

definition descriptionTokens :: nat where
  "descriptionTokens = 100"

definition DefaultCount :: int where
  "DefaultCount = 10"

definition MaxCount :: int where
  "MaxCount = 25"

definition MaxQueryRunes :: nat where
  "MaxQueryRunes = 500"

definition SourceWeb :: string where
  "SourceWeb = ''web''"

definition find_backend :: "backend list \<Rightarrow> string \<Rightarrow> backend option" where
  "find_backend bs name = List.find (\<lambda>b. bk_name b = name) bs"

fun register :: "backend list \<Rightarrow> backend list \<Rightarrow> string + backend list" where
  "register done' [] = Inr done'"
| "register done' (b # bs) =
    (if bk_name b = [] \<or> bk_name b = SourceWeb
       then Inl (''search backend '' @ itoa (int (length done')) @ '': invalid name '' @ bk_name b)
     else if find_backend done' (bk_name b) \<noteq> None then Inl (''search backend '' @ bk_name b @ '' registered twice'')
     else register (done' @ [if bk_web b \<and> bk_bucket b = [] then b\<lparr>bk_bucket := bk_name b\<rparr> else b]) bs)"

definition NewEngine :: "tracker \<Rightarrow> backend list \<Rightarrow> string + backend list \<times> engine" where
  "NewEngine tr bs =
    (case register [] bs of
       Inl e \<Rightarrow> Inl e
     | Inr bs \<Rightarrow> Inr (bs, \<lparr>en_tracker = tr, en_cache = NewCache cacheSize cacheTTL, en_tick = 0, en_asked = []\<rparr>))"

definition Web :: "backend list \<Rightarrow> string list" where
  "Web bs = map bk_name (filter bk_web bs)"

definition Sources :: "backend list \<Rightarrow> string list" where
  "Sources bs = SourceWeb # map bk_name (filter (\<lambda>b. \<not> bk_web b) bs)"

definition DefaultLimits :: "backend list \<Rightarrow> string \<rightharpoonup> quota" where
  "DefaultLimits bs = map_of (rev (map (\<lambda>b. (bk_bucket b, bk_limit b)) (filter (\<lambda>b. bk_bucket b \<noteq> []) bs)))"

definition KeyNames :: "backend list \<Rightarrow> string list" where
  "KeyNames bs = fold (\<lambda>b names. if bk_key b \<noteq> [] \<and> bk_key b \<notin> set names then names @ [bk_key b] else names) bs []"

definition zero_quota :: quota where
  "zero_quota = \<lparr>l_day = 0, l_month = 0\<rparr>"

text \<open>The settings in force: the order, and the quota of every bucket.\<close>

definition engine_options :: "search_env \<Rightarrow> string + string list \<times> (string \<Rightarrow> quota)" where
  "engine_options env =
    (case se_options env of
       Inl e \<Rightarrow> Inl (''read search settings: '' @ e)
     | Inr opts \<Rightarrow>
         let order = (case op_order opts of None \<Rightarrow> Web (se_backends env) | Some names \<Rightarrow> names);
             limits = DefaultLimits (se_backends env) ++ map_of (op_limits opts) in
         Inr (order, \<lambda>b. case limits b of Some l \<Rightarrow> l | None \<Rightarrow> zero_quota))"

definition engine_key :: "search_env \<Rightarrow> backend \<Rightarrow> string + string" where
  "engine_key env b =
    (if bk_key b = [] then Inr []
     else case se_key env (bk_key b) of
       Inl e \<Rightarrow> Inl (''read the '' @ bk_key b @ '' search key: '' @ e) | Inr k \<Rightarrow> Inr k)"

definition now_of :: "search_env \<Rightarrow> engine \<Rightarrow> int \<times> engine" where
  "now_of env st = (se_now env (en_tick st), st\<lparr>en_tick := Suc (en_tick st)\<rparr>)"

definition engine_blocked :: "search_env \<Rightarrow> string \<Rightarrow> quota \<Rightarrow> engine \<Rightarrow> string \<times> engine" where
  "engine_blocked env bucket limit st =
    (let (now, st) = now_of env st; (reason, tr) = Blocked bucket limit now (en_tracker st) in
     (reason, st\<lparr>en_tracker := tr\<rparr>))"

definition engine_ask :: "search_env \<Rightarrow> backend \<Rightarrow> query \<Rightarrow> engine \<Rightarrow> (search_error + result list) \<times> engine" where
  "engine_ask env b q st =
    (se_ask env (bk_name b) q (length (en_asked st)), st\<lparr>en_asked := en_asked st @ [bk_name b]\<rparr>)"

definition engine_failure :: "search_env \<Rightarrow> string \<Rightarrow> search_error \<Rightarrow> engine \<Rightarrow> engine" where
  "engine_failure env bucket e st =
    (let (now, st) = now_of env st in
     st\<lparr>en_tracker := RecordFailure bucket now (RetryDeadline (retryDeadline e) now) (en_tracker st)\<rparr>)"

definition engine_use :: "search_env \<Rightarrow> string \<Rightarrow> engine \<Rightarrow> engine" where
  "engine_use env bucket st =
    (let (now, st) = now_of env st in st\<lparr>en_tracker := RecordUse bucket now (en_tracker st)\<rparr>)"

definition engine_get :: "search_env \<Rightarrow> string \<Rightarrow> engine \<Rightarrow> cached option \<times> engine" where
  "engine_get env key st =
    (let (now, st) = now_of env st; (hit, c) = cache_Get key now (en_cache st) in (hit, st\<lparr>en_cache := c\<rparr>))"

definition engine_put :: "search_env \<Rightarrow> string \<Rightarrow> cached \<Rightarrow> engine \<Rightarrow> engine" where
  "engine_put env key v st =
    (let (now, st) = now_of env st in st\<lparr>en_cache := cache_Put key v now (en_cache st)\<rparr>)"

section \<open>The web\<close>

record attempt =
  at_provider :: string
  at_error :: string

text \<open>One turn of the loop over the providers.\<close>

datatype web_turn = Answered "result list" | Passed string | Stopped string

definition web_try ::
  "search_env \<Rightarrow> (string \<Rightarrow> quota) \<Rightarrow> string \<Rightarrow> string \<Rightarrow> engine \<Rightarrow> web_turn \<times> engine" where
  "web_try env limits text name st =
    (case find_backend (se_backends env) name of
       None \<Rightarrow> (Passed ''unknown provider'', st)
     | Some b \<Rightarrow>
         if \<not> bk_web b then (Passed ''unknown provider'', st)
         else
           (case engine_key env b of
              Inl e \<Rightarrow> (Stopped e, st)
            | Inr key \<Rightarrow>
                if bk_key_required b \<and> key = [] then (Passed ''no API key'', st)
                else
                  let (reason, st) = engine_blocked env (bk_bucket b) (limits (bk_bucket b)) st in
                  if reason \<noteq> [] then (Passed reason, st)
                  else
                    let asked = length (en_asked st);
                        (answer, st) = engine_ask env b \<lparr>qu_text = text, qu_limit = poolSize, qu_key = key\<rparr> st in
                    (case answer of
                       Inl e \<Rightarrow>
                         (case se_cancelled env asked of
                            Some c \<Rightarrow> (Stopped c, st)
                          | None \<Rightarrow> (Passed (failureReason e), engine_failure env (bk_bucket b) e st))
                     | Inr results \<Rightarrow>
                         let st = engine_use env (bk_bucket b) st; found = Dedupe (se_page env) results in
                         (if found = [] then Passed ''no results'' else Answered found, st))))"

fun web_loop ::
  "search_env \<Rightarrow> (string \<Rightarrow> quota) \<Rightarrow> string \<Rightarrow> string list \<Rightarrow> attempt list \<Rightarrow> engine
    \<Rightarrow> (string + (string \<times> result list) option \<times> attempt list) \<times> engine" where
  "web_loop env limits text [] attempts st = (Inr (None, attempts), st)"
| "web_loop env limits text (name # order) attempts st =
    (case web_try env limits text name st of
       (Stopped e, st) \<Rightarrow> (Inl e, st)
     | (Answered found, st) \<Rightarrow> (Inr (Some (name, found), attempts), st)
     | (Passed reason, st) \<Rightarrow>
         web_loop env limits text order (attempts @ [\<lparr>at_provider = name, at_error = reason\<rparr>]) st)"

definition recovery :: "search_env \<Rightarrow> string" where
  "recovery env = ''Set EIKA_SEARXNG_URL to a reachable SearXNG JSON API (currently '' @ se_searxng env @ ''), ''
     @ ''or add an Exa, Tavily, or Brave API key under Settings, Search.''"

definition noProvider :: "search_env \<Rightarrow> attempt list \<Rightarrow> string" where
  "noProvider env attempts =
    (let detail = join_str ''; '' (map (\<lambda>a. at_provider a @ '': '' @ at_error a) attempts) in
     ''web search failed: no provider returned results (''
       @ (if detail = [] then ''no providers configured'' else detail) @ ''). '' @ recovery env)"

definition notices :: "search_env \<Rightarrow> string \<Rightarrow> attempt list \<Rightarrow> string list \<Rightarrow> string list" where
  "notices env provider attempts order =
    (if provider = ''searxng'' then []
     else
       (case List.find (\<lambda>a. at_provider a = ''searxng'') attempts of
          Some a \<Rightarrow> [''SearXNG unavailable ('' @ at_error a @ ''); used '' @ provider @ '' fallback. '' @ recovery env]
        | None \<Rightarrow>
            (case (index_of (\<lambda>n. n = ''searxng'') order, index_of (\<lambda>n. n = provider) order) of
               (Some s, Some p) \<Rightarrow>
                 if attempts = [] \<and> s < p
                 then [''Using cached '' @ provider
                   @ '' fallback results; SearXNG did not answer when this query was cached. '' @ recovery env]
                 else []
             | _ \<Rightarrow> [])))"

record details =
  de_source :: string
  de_query :: string
  de_count :: nat
  de_providers :: "string list"
  de_attempts :: "attempt list"
  de_cached :: bool
  de_pool :: nat
  de_results :: "result list"

record outcome =
  ou_text :: string
  ou_error :: bool
  ou_details :: details

definition webOutcome :: "search_env \<Rightarrow> result list \<Rightarrow> nat \<Rightarrow> string list \<Rightarrow> details \<Rightarrow> outcome" where
  "webOutcome env pool n order d =
    (let results = take n pool;
         body = FormatResults (se_clean env) descriptionTokens results;
         ns = notices env (hd (de_providers d)) (de_attempts d) order in
     \<lparr>ou_text = (if ns \<noteq> [] then join_str nl (map (\<lambda>n. ''Notice: '' @ n) ns) @ nl @ nl @ body else body),
      ou_error = False, ou_details = d\<lparr>de_results := results\<rparr>\<rparr>)"

definition searchWeb ::
  "search_env \<Rightarrow> string \<Rightarrow> nat \<Rightarrow> string list \<Rightarrow> (string \<Rightarrow> quota) \<Rightarrow> details \<Rightarrow> engine \<Rightarrow> (string + outcome) \<times> engine" where
  "searchWeb env text n order limits d st =
    (if order = [] then
       (Inr \<lparr>ou_text = ''web search is turned off: no web provider is selected under Settings, Search. ''
               @ ''The other sources still work.'', ou_error = True, ou_details = d\<rparr>, st)
     else
       let key = SourceWeb @ ''|'' @ text; (hit, st) = engine_get env key st in
       (case hit of
          Some h \<Rightarrow>
            let d = d\<lparr>de_providers := [ca_provider h], de_cached := True, de_pool := length (ca_results h)\<rparr> in
            (Inr (webOutcome env (ca_results h) n order d), st)
        | None \<Rightarrow>
            (case web_loop env limits text order [] st of
               (Inl e, st) \<Rightarrow> (Inl e, st)
             | (Inr (None, attempts), st) \<Rightarrow>
                 (Inr \<lparr>ou_text = noProvider env attempts, ou_error = True, ou_details = d\<lparr>de_attempts := attempts\<rparr>\<rparr>, st)
             | (Inr (Some (name, found), attempts), st) \<Rightarrow>
                 let st = engine_put env key \<lparr>ca_provider = name, ca_results = found\<rparr> st;
                     d = d\<lparr>de_attempts := attempts, de_providers := [name], de_pool := length found\<rparr> in
                 (Inr (webOutcome env found n order d), st))))"

section \<open>A source\<close>

text \<open>\<open>paced\<close> is the outcome of waiting for the source's turn.\<close>

definition searchSource ::
  "search_env \<Rightarrow> string option \<Rightarrow> backend \<Rightarrow> string \<Rightarrow> nat \<Rightarrow> (string \<Rightarrow> quota) \<Rightarrow> details \<Rightarrow> engine
    \<Rightarrow> (string + outcome) \<times> engine" where
  "searchSource env paced b text n limits d st =
    (let fail = (\<lambda>msg st. (Inr \<lparr>ou_text = bk_name b @ '' search failed: '' @ msg, ou_error = True, ou_details = d\<rparr>, st));
         answer = (\<lambda>hit results st.
           (Inr \<lparr>ou_text = FormatResults (se_clean env) descriptionTokens (take n results), ou_error = False,
                 ou_details = d\<lparr>de_cached := hit, de_results := take n results\<rparr>\<rparr>, st)) in
     case engine_key env b of
       Inl e \<Rightarrow> (Inl e, st)
     | Inr key \<Rightarrow>
         if bk_key_required b \<and> key = []
           then fail (bk_name b @ '' needs a '' @ bk_key b @ '' key; add one under Settings, Search.'') st
         else
           let (reason, st) = (if bk_bucket b \<noteq> [] then engine_blocked env (bk_bucket b) (limits (bk_bucket b)) st else ([], st)) in
           if reason \<noteq> [] then fail (bk_bucket b @ '' '' @ reason @ ''.'') st
           else
             let ck = bk_name b @ ''|'' @ text;
                 (hit, st) = (if bk_pool b > 0 then engine_get env ck st else (None, st)) in
             (case hit of
                Some h \<Rightarrow> answer True (ca_results h) st
              | None \<Rightarrow>
                  (case (if bk_interval b > 0 then paced else None) of
                     Some e \<Rightarrow> (Inl e, st)
                   | None \<Rightarrow>
                       let (hit, st) = (if bk_interval b > 0 then engine_get env ck st else (None, st)) in
                       (case (if bk_pool b > 0 then hit else None) of
                          Some h \<Rightarrow> answer True (ca_results h) st
                        | None \<Rightarrow>
                            let limit = (if bk_pool b > 0 then bk_pool b else n); asked = length (en_asked st);
                                (result, st) = engine_ask env b \<lparr>qu_text = text, qu_limit = limit, qu_key = key\<rparr> st in
                            (case result of
                               Inl e \<Rightarrow>
                                 (case se_cancelled env asked of
                                    Some c \<Rightarrow> (Inl c, st)
                                  | None \<Rightarrow>
                                      let limited = (case e of HTTPError status _ _ \<Rightarrow> status = 403 \<or> status = 429 | _ \<Rightarrow> False);
                                          st = (if bk_bucket b \<noteq> [] \<and> limited then engine_failure env (bk_bucket b) e st else st) in
                                      fail (search_Describe e) st)
                             | Inr results \<Rightarrow>
                                 let st = (if bk_bucket b \<noteq> [] then engine_use env (bk_bucket b) st else st);
                                     st = (if bk_pool b > 0
                                           then engine_put env ck \<lparr>ca_provider = bk_name b, ca_results = results\<rparr> st else st) in
                                 answer False results st)))))"

section \<open>Search\<close>

record search_request =
  sq_query :: string
  sq_source :: string
  sq_count :: int

definition clamp_count :: "int \<Rightarrow> nat" where
  "clamp_count n = nat (max 1 (min (if n = 0 then DefaultCount else n) MaxCount))"

definition engine_Search ::
  "search_env \<Rightarrow> string option \<Rightarrow> search_request \<Rightarrow> engine \<Rightarrow> (string + outcome) \<times> engine" where
  "engine_Search env paced req st =
    (let (_, st) = now_of env st;
         source = (if trim_space (sq_source req) = [] then SourceWeb else trim_space (sq_source req));
         text = trim_space (sq_query req);
         n = clamp_count (sq_count req);
         d = \<lparr>de_source = source, de_query = text, de_count = n, de_providers = [], de_attempts = [],
              de_cached = False, de_pool = 0, de_results = []\<rparr>;
         fail = (\<lambda>msg. (Inr \<lparr>ou_text = source @ '' search failed: '' @ msg, ou_error = True, ou_details = d\<rparr>, st)) in
     if text = [] then fail ''query is empty.''
     else if length (runes text) > MaxQueryRunes
       then fail (''query is longer than '' @ itoa (int MaxQueryRunes) @ '' characters.'')
     else
       let b = find_backend (se_backends env) source;
           unknown = (source \<noteq> SourceWeb \<and> (case b of None \<Rightarrow> True | Some b \<Rightarrow> bk_web b)) in
       if unknown then fail (''unknown source; use one of '' @ join_str '', '' (Sources (se_backends env)) @ ''.'')
       else
         (case engine_options env of
            Inl e \<Rightarrow> (Inl e, st)
          | Inr (order, limits) \<Rightarrow>
              let (out, st) = (if source = SourceWeb then searchWeb env text n order limits d st
                               else searchSource env paced (the b) text n limits d st) in
              (case out of Inl e \<Rightarrow> (Inl e, st) | Inr r \<Rightarrow> (Inr r, snd (now_of env st)))))"

section \<open>Laws\<close>

lemma dedupe_distinct:
  "distinct (map (page \<circ> re_url) (dedupe_loop page seen rs)) \<and> set (map (page \<circ> re_url) (dedupe_loop page seen rs)) \<inter> set seen = {}
    \<and> subseq (dedupe_loop page seen rs) rs \<and> (\<forall>r \<in> set (dedupe_loop page seen rs). re_url r \<noteq> [] \<and> re_title r \<noteq> [])"
proof (induction rs arbitrary: seen)
  case (Cons r rs)
  show ?case using Cons [of seen] Cons [of "page (re_url r) # seen"] by (auto intro: subseq_Cons')
qed simp




section \<open>The property\<close>








end
