(* ===== verification/Netguard.thy ===== *)
theory Netguard
  imports Prelude "HOL-Library.Word"
begin

text \<open>
  \<^verbatim>\<open>internal/netguard\<close>: whether an address is on the public internet. An address is what
  \<^verbatim>\<open>net/netip\<close> holds: 32 bits, or 128 bits and a zone (empty for none). The predicates of that
  package the guard uses are written out on the words as the package computes them: a zone makes
  \<^verbatim>\<open>Contains\<close> false and an address different from the unspecified one.
\<close>

unbundle bit_operations_syntax

section \<open>Addresses\<close>

datatype addr = V4 "32 word" | V6 "128 word" string

datatype prefix_of = P4 "32 word" nat | P6 "128 word" nat

definition v4 :: "nat \<Rightarrow> nat \<Rightarrow> nat \<Rightarrow> nat \<Rightarrow> 32 word" where
  "v4 a b c d = word_of_nat (((a * 256 + b) * 256 + c) * 256 + d)"

text \<open>The top \<open>n\<close> bits of a 128-bit address.\<close>

definition top_bits :: "nat \<Rightarrow> 128 word \<Rightarrow> 128 word" where
  "top_bits n w = drop_bit (128 - n) w"

fun Is4In6 :: "addr \<Rightarrow> bool" where
  "Is4In6 (V6 w _) \<longleftrightarrow> drop_bit 32 w = 0xFFFF"
| "Is4In6 (V4 _) \<longleftrightarrow> False"

fun Unmap :: "addr \<Rightarrow> addr" where
  "Unmap (V6 w z) = (if Is4In6 (V6 w z) then V4 (ucast w) else V6 w z)"
| "Unmap (V4 a) = V4 a"

fun Contains :: "prefix_of \<Rightarrow> addr \<Rightarrow> bool" where
  "Contains (P4 p n) (V4 a) \<longleftrightarrow> drop_bit (32 - n) (a XOR p) = 0"
| "Contains (P6 p n) (V6 w z) \<longleftrightarrow> z = [] \<and> drop_bit (128 - n) (w XOR p) = 0"
| "Contains _ _ \<longleftrightarrow> False"

fun IsLoopback :: "addr \<Rightarrow> bool" where
  "IsLoopback (V4 a) \<longleftrightarrow> drop_bit 24 a = 127"
| "IsLoopback (V6 w z) \<longleftrightarrow> (if Is4In6 (V6 w z) then drop_bit 24 (ucast w :: 32 word) = 127 else w = 1)"

fun IsMulticast :: "addr \<Rightarrow> bool" where
  "IsMulticast (V4 a) \<longleftrightarrow> drop_bit 28 a = 0xE"
| "IsMulticast (V6 w z) \<longleftrightarrow> (if Is4In6 (V6 w z) then drop_bit 28 (ucast w :: 32 word) = 0xE else top_bits 8 w = 0xFF)"

fun IsLinkLocalUnicast :: "addr \<Rightarrow> bool" where
  "IsLinkLocalUnicast (V4 a) \<longleftrightarrow> drop_bit 16 a = 0xA9FE"
| "IsLinkLocalUnicast (V6 w z) \<longleftrightarrow>
    (if Is4In6 (V6 w z) then drop_bit 16 (ucast w :: 32 word) = 0xA9FE else top_bits 10 w = 0x3FA)"

definition private4 :: "32 word \<Rightarrow> bool" where
  "private4 a \<longleftrightarrow> drop_bit 24 a = 10 \<or> drop_bit 20 a = 0xAC1 \<or> drop_bit 16 a = 0xC0A8"

fun IsPrivate :: "addr \<Rightarrow> bool" where
  "IsPrivate (V4 a) \<longleftrightarrow> private4 a"
| "IsPrivate (V6 w z) \<longleftrightarrow> (if Is4In6 (V6 w z) then private4 (ucast w) else top_bits 7 w = 0x7E)"

fun IsGlobalUnicast :: "addr \<Rightarrow> bool" where
  "IsGlobalUnicast (V4 a) \<longleftrightarrow> a \<noteq> 0 \<and> a \<noteq> - 1
     \<and> \<not> IsLoopback (V4 a) \<and> \<not> IsMulticast (V4 a) \<and> \<not> IsLinkLocalUnicast (V4 a)"
| "IsGlobalUnicast (V6 w z) \<longleftrightarrow> \<not> (w = 0 \<and> z = [])
     \<and> \<not> IsLoopback (V6 w z) \<and> \<not> IsMulticast (V6 w z) \<and> \<not> IsLinkLocalUnicast (V6 w z)"

section \<open>The guard\<close>

definition nonPublic :: "prefix_of list" where
  "nonPublic =
    [P4 (v4 0 0 0 0) 8, P4 (v4 100 64 0 0) 10, P4 (v4 192 0 0 0) 24, P4 (v4 192 0 2 0) 24, P4 (v4 198 18 0 0) 15,
     P4 (v4 198 51 100 0) 24, P4 (v4 203 0 113 0) 24, P4 (v4 240 0 0 0) 4,
     P6 (push_bit 112 0xFEC0) 10, P6 (push_bit 96 0x20010DB8) 32]"

definition nat64 :: prefix_of where
  "nat64 = P6 (push_bit 96 0x64FF9B) 96"

text \<open>\<open>nat64\<close> holds no 32-bit address, so the function calls itself once at most.\<close>

definition public_plain :: "addr \<Rightarrow> bool" where
  "public_plain a \<longleftrightarrow> IsGlobalUnicast a \<and> \<not> IsPrivate a \<and> \<not> list_ex (\<lambda>p. Contains p a) nonPublic"

definition IsPublic :: "addr \<Rightarrow> bool" where
  "IsPublic a =
    (let a = Unmap a in
     case a of
       V6 w z \<Rightarrow> if Contains nat64 a then public_plain (V4 (ucast w)) else public_plain a
     | V4 _ \<Rightarrow> public_plain a)"

datatype guard_error = BadAddress string | PrivateAddress addr

text \<open>
  \<^verbatim>\<open>Control\<close>: the address the dialer is about to connect to; \<open>split\<close> and \<open>parse\<close> are
  \<^verbatim>\<open>net.SplitHostPort\<close> and \<^verbatim>\<open>netip.ParseAddr\<close>.
\<close>

definition Control :: "(string \<Rightarrow> string option) \<Rightarrow> (string \<Rightarrow> addr option) \<Rightarrow> string \<Rightarrow> guard_error option" where
  "Control split parse address =
    (case split address of
       None \<Rightarrow> Some (BadAddress address)
     | Some host \<Rightarrow>
         (case parse host of
            None \<Rightarrow> Some (BadAddress address)
          | Some a \<Rightarrow> if IsPublic a then None else Some (PrivateAddress a)))"

section \<open>Which addresses are refused\<close>










section \<open>The property\<close>



end
