(* ===== verification/Egress.thy ===== *)
theory Egress
  imports Netguard
begin

text \<open>
  \<^verbatim>\<open>internal/egress\<close>: what a restricted sandbox may reach. \<open>Allowed\<close> compares a host with an
  allowlist, \<open>ServeHTTP\<close> is the decision of the proxy on one request, \<open>block\<close> the record of what it
  refused, and \<open>track_conns\<close>, \<open>untrack\<close> and \<open>proxy_Close\<close> the tunnels it has open. The parsing and printing of
  addresses is \<^verbatim>\<open>net/netip\<close>'s, the argument \<open>canonical\<close>: the text of the unmapped address a string
  denotes. The lowering of a host is written for ASCII, which is what host names on the wire are.
\<close>

section \<open>Modes and patterns\<close>

datatype egress_mode = ModeOpen | ModeAllowlist | ModeNone

definition Modes :: "egress_mode list" where
  "Modes = [ModeOpen, ModeAllowlist, ModeNone]"

fun mode_name :: "egress_mode \<Rightarrow> string" where
  "mode_name ModeOpen = ''open''"
| "mode_name ModeAllowlist = ''allowlist''"
| "mode_name ModeNone = ''none''"

definition Restricted :: "egress_mode \<Rightarrow> bool" where
  "Restricted m \<longleftrightarrow> m = ModeAllowlist \<or> m = ModeNone"

definition ParseMode :: "string \<Rightarrow> egress_mode option" where
  "ParseMode s = List.find (\<lambda>m. mode_name m = s) Modes"

definition dot :: char where
  "dot = CHR ''.''"

text \<open>\<^verbatim>\<open>strings.Split(s, ".")\<close>: the labels of a name, at least one.\<close>

fun labels :: "string \<Rightarrow> string list" where
  "labels [] = [[]]"
| "labels (c # s) = (if c = dot then [] # labels s else (c # hd (labels s)) # tl (labels s))"

definition label_char :: "char \<Rightarrow> bool" where
  "label_char c \<longleftrightarrow> between 97 122 c \<or> between 48 57 c \<or> c = CHR ''-''"

definition valid_label :: "string \<Rightarrow> bool" where
  "valid_label l \<longleftrightarrow> l \<noteq> [] \<and> length l \<le> 63 \<and> hd l \<noteq> CHR ''-'' \<and> last l \<noteq> CHR ''-'' \<and> list_all label_char l"

definition ValidPattern :: "(string \<Rightarrow> string option) \<Rightarrow> string \<Rightarrow> bool" where
  "ValidPattern canonical p \<longleftrightarrow> p \<noteq> [] \<and> length p \<le> 253
     \<and> (canonical p \<noteq> None \<or> list_all valid_label (labels (trim_prefix ''*.'' p)))"

definition lower_char :: "char \<Rightarrow> char" where
  "lower_char c = (if between 65 90 c then byte (of_char c + 32) else c)"

definition brackets :: "char \<Rightarrow> bool" where
  "brackets c \<longleftrightarrow> c = CHR ''['' \<or> c = CHR '']''"

definition trim_brackets :: "string \<Rightarrow> string" where
  "trim_brackets s = rev (dropWhile brackets (rev (dropWhile brackets s)))"

definition normal_host :: "(string \<Rightarrow> string option) \<Rightarrow> string \<Rightarrow> string" where
  "normal_host canonical host =
    (let host = trim_suffix ''.'' (map lower_char host) in
     case canonical (trim_brackets host) of Some a \<Rightarrow> a | None \<Rightarrow> host)"

definition pattern_matches :: "string \<Rightarrow> string \<Rightarrow> bool" where
  "pattern_matches host p \<longleftrightarrow> (if prefix ''*.'' p then suffix (''.'' @ drop 2 p) host else host = p)"

definition Allowed :: "(string \<Rightarrow> string option) \<Rightarrow> string list \<Rightarrow> string \<Rightarrow> bool" where
  "Allowed canonical allow host = list_ex (pattern_matches (normal_host canonical host)) allow"

section \<open>The proxy\<close>

text \<open>\<^verbatim>\<open>net.SplitHostPort\<close>: the host, or nothing for an address it refuses.\<close>

definition index_byte :: "char \<Rightarrow> string \<Rightarrow> nat option" where
  "index_byte c s = index_of (\<lambda>x. x = c) s"

definition last_index :: "char \<Rightarrow> string \<Rightarrow> nat option" where
  "last_index c s = map_option (\<lambda>i. length s - Suc i) (index_byte c (rev s))"

definition SplitHostPort :: "string \<Rightarrow> string option" where
  "SplitHostPort hp =
    (case last_index (CHR '':'') hp of
       None \<Rightarrow> None
     | Some i \<Rightarrow>
         if hd hp = CHR ''['' then
           (case index_byte (CHR '']'') hp of
              None \<Rightarrow> None
            | Some e \<Rightarrow>
                if Suc e = i \<and> index_byte (CHR ''['') (drop 1 hp) = None \<and> index_byte (CHR '']'') (drop (Suc e) hp) = None
                then Some (drop 1 (take e hp)) else None)
         else
           let host = take i hp in
           if index_byte (CHR '':'') host \<noteq> None \<or> index_byte (CHR ''['') hp \<noteq> None \<or> index_byte (CHR '']'') hp \<noteq> None
           then None else Some host)"

record policy =
  po_token :: string
  po_mode :: egress_mode
  po_allow :: "string list"

record blocked =
  bl_host :: string
  bl_count :: nat
  bl_last :: int

record proxy =
  px_tunnels :: "nat list option"
  px_blocked :: "string \<Rightarrow> blocked list"

definition NewProxy :: proxy where
  "NewProxy = \<lparr>px_tunnels = Some [], px_blocked = (\<lambda>_. [])\<rparr>"

definition maxBlocked :: nat where
  "maxBlocked = 20"

definition block_list :: "string \<Rightarrow> int \<Rightarrow> blocked list \<Rightarrow> blocked list" where
  "block_list host now bs =
    (case index_of (\<lambda>b. bl_host b = host) bs of
       Some i \<Rightarrow> let b = bs ! i in delete_at i bs @ [b\<lparr>bl_count := Suc (bl_count b), bl_last := now\<rparr>]
     | None \<Rightarrow> last_n maxBlocked (bs @ [\<lparr>bl_host = host, bl_count = 1, bl_last = now\<rparr>]))"

definition block :: "string \<Rightarrow> string \<Rightarrow> int \<Rightarrow> proxy \<Rightarrow> proxy" where
  "block w host now p = p\<lparr>px_blocked := (px_blocked p)(w := block_list host now (px_blocked p w))\<rparr>"

definition proxy_Blocked :: "string \<Rightarrow> proxy \<Rightarrow> blocked list" where
  "proxy_Blocked w p = rev (px_blocked p w)"

definition proxy_Forget :: "string \<Rightarrow> proxy \<Rightarrow> proxy" where
  "proxy_Forget w p = p\<lparr>px_blocked := (px_blocked p)(w := [])\<rparr>"

record proxy_request =
  rq_credentials :: "(string \<times> string) option"
  rq_connect :: bool
  rq_host :: string
  rq_scheme :: string
  rq_url_host :: string

datatype policy_error = UnknownWorkspace | PolicyUnreadable

datatype verdict = Challenge string | Refuse int string | Tunnel string | Forward string

text \<open>
  The decision on one request, with the proxy's new state: a tunnel or a forward goes to the address
  it names, through the dialer whose \<^verbatim>\<open>Control\<close> is the guard.
\<close>

definition ServeHTTP ::
  "(string \<Rightarrow> string option) \<Rightarrow> (string \<Rightarrow> policy_error + policy) \<Rightarrow> int \<Rightarrow> proxy_request \<Rightarrow> proxy \<Rightarrow> verdict \<times> proxy" where
  "ServeHTTP canonical policy_of now r p =
    (case rq_credentials r of
       None \<Rightarrow> (Challenge ''the egress proxy needs a workspace's credentials'', p)
     | Some (w, token) \<Rightarrow>
         (case policy_of w of
            Inl UnknownWorkspace \<Rightarrow> (Challenge ''unknown workspace'', p)
          | Inl PolicyUnreadable \<Rightarrow> (Refuse 502 ''the egress proxy could not read the workspace's policy'', p)
          | Inr pol \<Rightarrow>
              if po_token pol = [] \<or> token \<noteq> po_token pol then (Challenge (''wrong credentials for workspace '' @ w), p)
              else if \<not> rq_connect r \<and> (rq_scheme r \<noteq> ''http'' \<or> rq_url_host r = [])
                then (Refuse 400 ''the egress proxy takes CONNECT, or an absolute http URL'', p)
              else
                let target = (if rq_connect r then rq_host r else rq_url_host r);
                    host = (case SplitHostPort target of Some h \<Rightarrow> h | None \<Rightarrow> target) in
                if po_mode pol = ModeNone
                  then (Refuse 403 ''this workspace has no network access: its egress is off'', block w host now p)
                else if po_mode pol = ModeAllowlist \<and> \<not> Allowed canonical (po_allow pol) host
                  then (Refuse 403 (host @ '' is not on this workspace's allowlist; add it in the workspace's Sandbox panel''),
                        block w host now p)
                else (if rq_connect r then Tunnel (rq_host r) else Forward (rq_url_host r), p)))"

definition track_conns :: "nat list \<Rightarrow> proxy \<Rightarrow> bool \<times> proxy" where
  "track_conns conns p =
    (case px_tunnels p of
       None \<Rightarrow> (False, p)
     | Some open' \<Rightarrow> (True, p\<lparr>px_tunnels := Some (open' @ filter (\<lambda>c. c \<notin> set open') conns)\<rparr>))"

definition untrack :: "nat list \<Rightarrow> proxy \<Rightarrow> nat list \<times> proxy" where
  "untrack conns p = (conns, p\<lparr>px_tunnels := map_option (filter (\<lambda>c. c \<notin> set conns)) (px_tunnels p)\<rparr>)"

text \<open>Closing: the connections that are closed, and no table of tunnels from then on.\<close>

definition proxy_Close :: "proxy \<Rightarrow> nat list \<times> proxy" where
  "proxy_Close p = (case px_tunnels p of Some open' \<Rightarrow> open' | None \<Rightarrow> [], p\<lparr>px_tunnels := None\<rparr>)"

definition dialStatus :: "guard_error option \<Rightarrow> int" where
  "dialStatus e = (case e of Some (PrivateAddress _) \<Rightarrow> 403 | _ \<Rightarrow> 502)"

lemmas [egress_defs] = Allowed_def pattern_matches_def normal_host_def block_def ServeHTTP_def

section \<open>Patterns and labels\<close>

lemma labels_nonempty [simp]: "labels s \<noteq> []"
  by (cases s) auto

lemma labels_append: "labels (a @ dot # b) = labels a @ labels b"
proof (induction a)
  case (Cons c a)
  then show ?case by (cases "labels a") auto
qed simp

lemma labels_chars: "labels (a @ b) = butlast (labels a) @ (last (labels a) @ hd (labels b)) # tl (labels b)"
proof (induction a)
  case (Cons c a)
  then show ?case by (cases "labels a") (auto simp: butlast.simps)
qed simp

lemma join_labels [simp]: "join_str [dot] (labels s) = s"
proof (induction s)
  case (Cons c s)
  then show ?case by (cases "labels s"; cases "tl (labels s)") auto
qed simp

lemma join_str_append: "xs \<noteq> [] \<Longrightarrow> ys \<noteq> [] \<Longrightarrow> join_str sep (xs @ ys) = join_str sep xs @ sep @ join_str sep ys"
proof (induction sep xs rule: join_str.induct)
  case (2 sep x)
  then show ?case by (cases ys) auto
qed auto

text \<open>A wildcard matches the names with more labels in front of its own, and nothing else.\<close>

lemma wildcard_labels:
  "pattern_matches host (''*.'' @ s) \<longleftrightarrow> (\<exists>front. front \<noteq> [] \<and> labels host = front @ labels s)"
proof
  assume "pattern_matches host (''*.'' @ s)"
  then obtain x where "host = x @ dot # s" by (auto simp: pattern_matches_def suffix_def dot_def)
  then show "\<exists>front. front \<noteq> [] \<and> labels host = front @ labels s" using labels_append [of x s] by auto
next
  assume "\<exists>front. front \<noteq> [] \<and> labels host = front @ labels s"
  then obtain front where f: "front \<noteq> []" "labels host = front @ labels s" by blast
  have "host = join_str [dot] (front @ labels s)" using join_labels [of host] f(2) by simp
  also have "\<dots> = join_str [dot] front @ dot # s" using f(1) by (simp add: join_str_append)
  finally show "pattern_matches host (''*.'' @ s)" by (auto simp: pattern_matches_def suffix_def dot_def)
qed

definition permits :: "(string \<Rightarrow> string option) \<Rightarrow> policy \<Rightarrow> string \<Rightarrow> bool" where
  "permits canonical pol host \<longleftrightarrow>
    (case po_mode pol of
       ModeOpen \<Rightarrow> True
     | ModeNone \<Rightarrow> False
     | ModeAllowlist \<Rightarrow> (\<exists>p \<in> set (po_allow pol).
         (\<forall>s. p \<noteq> ''*.'' @ s) \<and> normal_host canonical host = p
         \<or> (\<exists>s front. p = ''*.'' @ s \<and> front \<noteq> [] \<and> labels (normal_host canonical host) = front @ labels s)))"

lemma Allowed_permits: "po_mode pol = ModeAllowlist \<Longrightarrow> Allowed canonical (po_allow pol) host = permits canonical pol host"
proof -
  have "pattern_matches h p \<longleftrightarrow> (\<forall>s. p \<noteq> ''*.'' @ s) \<and> h = p \<or> (\<exists>s front. p = ''*.'' @ s \<and> front \<noteq> [] \<and> labels h = front @ labels s)" for h p
  proof (cases "prefix ''*.'' p")
    case True
    then obtain s where "p = ''*.'' @ s" by (auto simp: prefix_def)
    then show ?thesis using wildcard_labels [of h s] by auto
  next
    case False
    then have "\<forall>s. p \<noteq> ''*.'' @ s" by (auto simp: prefix_def)
    then show ?thesis using False by (auto simp: pattern_matches_def)
  qed
  then show "po_mode pol = ModeAllowlist \<Longrightarrow> Allowed canonical (po_allow pol) host = permits canonical pol host"
    by (auto simp: Allowed_def permits_def list_ex_iff)
qed

section \<open>What is refused is remembered\<close>

lemma last_n_snoc: "0 < n \<Longrightarrow> last_n n (xs @ [x]) = last_n (n - 1) xs @ [x]"
  by (cases "length xs < n") (auto simp: last_n_def Suc_diff_le)

lemma block_list_last:
  "block_list host now bs \<noteq> [] \<and> bl_host (last (block_list host now bs)) = host \<and> bl_last (last (block_list host now bs)) = now"
  by (auto simp: block_list_def Let_def last_n_snoc maxBlocked_def split: option.splits dest: index_of_Some)

lemma block_list_ok:
  assumes "distinct (map bl_host bs)" "length bs \<le> maxBlocked"
  shows "distinct (map bl_host (block_list host now bs)) \<and> length (block_list host now bs) \<le> maxBlocked"
proof (cases "index_of (\<lambda>b. bl_host b = host) bs")
  case None
  then have "host \<notin> bl_host ` set bs" by (auto simp: index_of_None)
  then have "distinct (map bl_host (bs @ [\<lparr>bl_host = host, bl_count = 1, bl_last = now\<rparr>]))" using assms(1) by simp
  then have "distinct (map bl_host (last_n maxBlocked (bs @ [\<lparr>bl_host = host, bl_count = 1, bl_last = now\<rparr>])))"
    by (simp only: last_n_def drop_map [symmetric] distinct_drop)
  then show ?thesis using None by (simp add: block_list_def length_last_n)
next
  case (Some i)
  note i = index_of_Some [OF Some]
  let ?b = "(bs ! i)\<lparr>bl_count := Suc (bl_count (bs ! i)), bl_last := now\<rparr>"
  have "map bl_host (delete_at i bs @ [?b]) = delete_at i (map bl_host bs) @ [map bl_host bs ! i]" using i by (simp add: map_delete_at)
  moreover have "distinct (delete_at i xs @ [xs ! i])" if "distinct xs" "i < length xs" for xs :: "string list"
    using that by (auto simp: delete_at_def distinct_append nth_eq_iff_index_eq in_set_conv_nth)
  ultimately have "distinct (map bl_host (delete_at i bs @ [?b]))" using assms(1) i by (metis length_map)
  moreover have "Suc (length bs - 1) = length bs" using i by auto
  ultimately show ?thesis using Some i assms(2) by (simp add: block_list_def Let_def length_delete_at)
qed

definition asked_host :: "proxy_request \<Rightarrow> string" where
  "asked_host r =
    (let target = (if rq_connect r then rq_host r else rq_url_host r) in
     case SplitHostPort target of Some h \<Rightarrow> h | None \<Rightarrow> target)"

text \<open>The three ways a request ends: refused before the policy speaks, refused by it, connected.\<close>

lemma serve_cases:
  assumes "ServeHTTP canonical policy_of now r p = (v, p')"
  shows "p' = p \<and> ((\<exists>msg. v = Challenge msg) \<or> (\<exists>n msg. v = Refuse n msg \<and> n \<noteq> 403))
    \<or> (\<exists>w pol. rq_credentials r = Some (w, po_token pol) \<and> policy_of w = Inr pol \<and> po_token pol \<noteq> []
        \<and> (if permits canonical pol (asked_host r)
           then p' = p \<and> v = (if rq_connect r then Tunnel (rq_host r) else Forward (rq_url_host r))
           else p' = block w (asked_host r) now p \<and> (\<exists>msg. v = Refuse 403 msg)))"
proof (cases "rq_credentials r")
  case None
  then show ?thesis using assms by (auto simp: ServeHTTP_def)
next
  case (Some wt)
  obtain w token where wt: "wt = (w, token)" by fastforce
  show ?thesis
  proof (cases "policy_of w")
    case (Inl e)
    then show ?thesis using assms Some wt by (cases e) (auto simp: ServeHTTP_def)
  next
    case (Inr pol)
    have perm: "permits canonical pol h \<longleftrightarrow> po_mode pol \<noteq> ModeNone \<and> (po_mode pol = ModeAllowlist \<longrightarrow> Allowed canonical (po_allow pol) h)" for h
      using Allowed_permits [of pol canonical h] by (cases "po_mode pol") (auto simp: permits_def)
    note serve = assms [unfolded ServeHTTP_def Some wt option.case prod.case Inr sum.case Let_def]
    show ?thesis
    proof (cases "po_token pol \<noteq> [] \<and> token = po_token pol \<and> (rq_connect r \<or> rq_scheme r = ''http'' \<and> rq_url_host r \<noteq> [])")
      case False
      then show ?thesis using serve by (auto split: if_splits)
    next
      case True
      then have "if permits canonical pol (asked_host r)
         then p' = p \<and> v = (if rq_connect r then Tunnel (rq_host r) else Forward (rq_url_host r))
         else p' = block w (asked_host r) now p \<and> (\<exists>msg. v = Refuse 403 msg)"
        using serve unfolding perm asked_host_def Let_def by (auto split: if_splits)
      then show ?thesis using True Some wt Inr by (intro disjI2 exI [of _ w] exI [of _ pol]) simp
    qed
  qed
qed

section \<open>The property\<close>

lemma proxy_verdicts:
  assumes "ServeHTTP canonical policy_of now r p = (v, p')"
  shows "v = Tunnel target \<or> v = Forward target \<Longrightarrow> \<exists>w pol. rq_credentials r = Some (w, po_token pol) \<and> policy_of w = Inr pol
      \<and> po_token pol \<noteq> [] \<and> permits canonical pol (asked_host r)
      \<and> target = (if rq_connect r then rq_host r else rq_url_host r) \<and> p' = p"
    and "v = Refuse 403 msg \<Longrightarrow> \<exists>w pol. rq_credentials r = Some (w, po_token pol) \<and> policy_of w = Inr pol
      \<and> \<not> permits canonical pol (asked_host r)
      \<and> proxy_Blocked w p' \<noteq> [] \<and> bl_host (hd (proxy_Blocked w p')) = asked_host r"
    and "\<forall>w. distinct (map bl_host (px_blocked p w)) \<and> length (px_blocked p w) \<le> 20 \<Longrightarrow>
      distinct (map bl_host (px_blocked p' w)) \<and> length (px_blocked p' w) \<le> 20"
proof -
  note s = serve_cases [OF assms]
  show "\<exists>w pol. rq_credentials r = Some (w, po_token pol) \<and> policy_of w = Inr pol
      \<and> po_token pol \<noteq> [] \<and> permits canonical pol (asked_host r)
      \<and> target = (if rq_connect r then rq_host r else rq_url_host r) \<and> p' = p"
    if "v = Tunnel target \<or> v = Forward target"
    using s that by (auto split: if_splits)
  show "\<exists>w pol. rq_credentials r = Some (w, po_token pol) \<and> policy_of w = Inr pol
      \<and> \<not> permits canonical pol (asked_host r)
      \<and> proxy_Blocked w p' \<noteq> [] \<and> bl_host (hd (proxy_Blocked w p')) = asked_host r"
    if "v = Refuse 403 msg"
    using s that block_list_last by (auto simp: block_def proxy_Blocked_def hd_rev split: if_splits)
  show "distinct (map bl_host (px_blocked p' w)) \<and> length (px_blocked p' w) \<le> 20"
    if "\<forall>w. distinct (map bl_host (px_blocked p w)) \<and> length (px_blocked p w) \<le> 20"
  proof -
    have "px_blocked p' w = px_blocked p w \<or> (\<exists>h. px_blocked p' w = block_list h now (px_blocked p w))"
      using s by (auto simp: block_def split: if_splits)
    then show ?thesis using that block_list_ok [of "px_blocked p w" _ now] by (auto simp: maxBlocked_def)
  qed
qed

text \<open>
  C11. The proxy connects a sandbox to a host only for a request with the token of the workspace it
  names, which is not empty, and only if the policy of that workspace permits the host: never with
  the egress off, and under an allowlist only a host the list names, or one with at least one more
  label than a name after \<open>*.\<close>. A host it refuses for its policy heads the list of refused hosts,
  and that list keeps different hosts and stays within its bound.
\<close>

theorem proxy_permits:
  assumes "ServeHTTP canonical policy_of now r p = (v, p')"
  shows "(v = Tunnel target \<or> v = Forward target \<longrightarrow> (\<exists>w pol. rq_credentials r = Some (w, po_token pol) \<and> policy_of w = Inr pol
        \<and> po_token pol \<noteq> [] \<and> permits canonical pol (asked_host r)
        \<and> target = (if rq_connect r then rq_host r else rq_url_host r) \<and> p' = p))
    \<and> (v = Refuse 403 msg \<longrightarrow> (\<exists>w pol. rq_credentials r = Some (w, po_token pol) \<and> policy_of w = Inr pol
        \<and> \<not> permits canonical pol (asked_host r)
        \<and> proxy_Blocked w p' \<noteq> [] \<and> bl_host (hd (proxy_Blocked w p')) = asked_host r))
    \<and> ((\<forall>w. distinct (map bl_host (px_blocked p w)) \<and> length (px_blocked p w) \<le> 20) \<longrightarrow>
        (\<forall>w. distinct (map bl_host (px_blocked p' w)) \<and> length (px_blocked p' w) \<le> 20))"
proof (intro conjI)
  show "(\<forall>w. distinct (map bl_host (px_blocked p w)) \<and> length (px_blocked p w) \<le> 20) \<longrightarrow>
      (\<forall>w. distinct (map bl_host (px_blocked p' w)) \<and> length (px_blocked p' w) \<le> 20)"
    by (intro impI allI) (rule proxy_verdicts(3) [OF assms])
qed (intro impI; erule proxy_verdicts [OF assms])+

definition a_policy :: "string \<Rightarrow> policy_error + policy" where
  "a_policy w = Inr \<lparr>po_token = ''t'', po_mode = ModeAllowlist, po_allow = [''*.github.com'']\<rparr>"

definition a_request :: "string \<Rightarrow> proxy_request" where
  "a_request h = \<lparr>rq_credentials = Some (''w'', ''t''), rq_connect = True, rq_host = h, rq_scheme = [], rq_url_host = []\<rparr>"

theorem proxy_permits_witness:
  "permits (\<lambda>_. None) \<lparr>po_token = ''t'', po_mode = ModeAllowlist, po_allow = [''*.github.com'']\<rparr> (asked_host (a_request ''API.github.com:443''))
   \<and> (\<exists>w. bl_host (hd (proxy_Blocked w (snd (ServeHTTP (\<lambda>_. None) a_policy 1 (a_request ''evilgithub.com:443'') NewProxy)))) = ''evilgithub.com'')"
proof -
  let ?serve = "\<lambda>h. ServeHTTP (\<lambda>_. None) a_policy 1 (a_request h) NewProxy"
  have a: "fst (?serve ''API.github.com:443'') = Tunnel ''API.github.com:443''"
    "case fst (?serve ''evilgithub.com:443'') of Refuse n _ \<Rightarrow> n = 403 | _ \<Rightarrow> False"
    "asked_host (a_request ''evilgithub.com:443'') = ''evilgithub.com''"
    by code_simp+
  obtain msg where m: "fst (?serve ''evilgithub.com:443'') = Refuse 403 msg" using a(2) by (auto split: verdict.splits)
  note p = proxy_permits [OF surjective_pairing, THEN conjunct1, THEN mp, OF disjI1, OF a(1)]
  note q = proxy_permits [OF surjective_pairing, THEN conjunct2, THEN conjunct1, THEN mp, OF m]
  show ?thesis using p q a(3) by (auto simp: a_policy_def a_request_def)
qed

end
