(* ===== verification/Subagents.thy ===== *)
theory Subagents
  imports Session_Tree Run_Store
begin

text \<open>
  \<^verbatim>\<open>internal/subagent\<close> with \<^verbatim>\<open>store/subagents.go\<close>: child agents, and the limits on how many a session
  runs at a time and how deep they nest. A \<^verbatim>\<open>*child\<close> is an index into \<open>sp_heap\<close>; its phase is how far
  the goroutine that builds and drives it has come. Reading the limits, the depth and the rows of a
  parent happens before the lock is taken, so it is a step of its own and what it saw may be old by
  the time the slot is claimed. Git, the workspaces and the stored JSON of a result are arguments.
\<close>

section \<open>Rows\<close>

record subagent =
  sb_id :: string
  sb_parent :: string
  sb_child :: string
  sb_workspace :: string
  sb_state :: run_state
  sb_result :: string
  sb_created :: int
  sb_finished :: "int option"

text \<open>
  A row's id is its primary key; \<open>sessions\<close> and \<open>workspaces\<close> say which rows of those tables exist, since
  a row must refer to existing ones. The id is always given: the spawner chooses it.
\<close>

definition StartSubagent ::
  "(string \<Rightarrow> bool) \<Rightarrow> (string \<Rightarrow> bool) \<Rightarrow> int \<Rightarrow> subagent \<Rightarrow> subagent list \<Rightarrow> err + subagent list" where
  "StartSubagent sessions workspaces now sub rows =
    (let op = ''start subagent for session '' @ sb_parent sub in
     if sb_id sub \<in> sb_id ` set rows then Inl (wrap_err op ErrConflict)
     else if \<not> sessions (sb_parent sub) \<or> \<not> sessions (sb_child sub) \<or> \<not> workspaces (sb_workspace sub)
       then Inl (wrap_err op ForeignKeyViolation)
     else Inr (sub\<lparr>sb_state := RunRunning, sb_result := [], sb_created := now, sb_finished := None\<rparr> # rows))"

definition FinishSubagent :: "int \<Rightarrow> string \<Rightarrow> run_state \<Rightarrow> string \<Rightarrow> subagent list \<Rightarrow> err + subagent list" where
  "FinishSubagent now i state result rows =
    (if i \<notin> sb_id ` set rows then Inl (wrap_err (''finish subagent '' @ i) ErrNotFound)
     else Inr (map (\<lambda>r. if sb_id r = i then r\<lparr>sb_state := state, sb_result := result, sb_finished := Some now\<rparr> else r) rows))"

definition get_Subagent :: "string \<Rightarrow> subagent list \<Rightarrow> err + subagent" where
  "get_Subagent i rows =
    (case List.find (\<lambda>r. sb_id r = i) rows of
       None \<Rightarrow> Inl (wrap_err (''read subagent '' @ i) ErrNotFound) | Some r \<Rightarrow> Inr r)"

definition SubagentOfSession :: "string \<Rightarrow> subagent list \<Rightarrow> subagent option" where
  "SubagentOfSession sid rows = List.find (\<lambda>r. sb_child r = sid) rows"

definition list_Subagents :: "string \<Rightarrow> subagent list \<Rightarrow> subagent list" where
  "list_Subagents sid rows = sort_key (\<lambda>r. (sb_created r, sb_id r)) (filter (\<lambda>r. sb_parent r = sid) rows)"

section \<open>Names and branches\<close>

definition name_start :: "char \<Rightarrow> bool" where
  "name_start c \<longleftrightarrow> between 65 90 c \<or> between 97 122 c \<or> between 48 57 c"

definition name_char :: "char \<Rightarrow> bool" where
  "name_char c \<longleftrightarrow> name_start c \<or> c = CHR ''_'' \<or> c = CHR ''-''"

definition checkName :: "string \<Rightarrow> bool" where
  "checkName s = (case s of [] \<Rightarrow> False | c # cs \<Rightarrow> name_start c \<and> length cs \<le> 39 \<and> list_all name_char cs)"

definition branchTag :: nat where
  "branchTag = 6"

definition childBranch :: "string \<Rightarrow> string \<Rightarrow> string \<Rightarrow> string" where
  "childBranch parentBranch sfx i =
    (let name = sfx @ ''-'' @ take (min branchTag (length i)) i in
     if parentBranch = [] then name else parentBranch @ ''-'' @ name)"

section \<open>Results\<close>

record agent_result =
  g_id :: string
  g_session :: string
  g_workspace :: string
  g_name :: string
  g_branch :: string
  g_state :: string
  g_commit :: string
  g_summary :: string
  g_diff_stat :: string
  g_error :: string

definition zero_result :: agent_result where
  "zero_result = \<lparr>g_id = [], g_session = [], g_workspace = [], g_name = [], g_branch = [], g_state = [], g_commit = [],
     g_summary = [], g_diff_stat = [], g_error = []\<rparr>"

fun state_name :: "run_state \<Rightarrow> string" where
  "state_name RunRunning = ''running''"
| "state_name RunDone = ''done''"
| "state_name RunError = ''error''"
| "state_name RunAborted = ''aborted''"

definition join_error :: "string \<Rightarrow> string \<Rightarrow> string" where
  "join_error existing msg = (if existing = [] then msg else existing @ ''; '' @ msg)"

definition describe :: "agent_result \<Rightarrow> string" where
  "describe r =
    (if g_diff_stat r \<noteq> []
     then ''the child ended '' @ g_state r @ '' without a closing message; it changed:'' @ nl @ g_diff_stat r
     else ''the child ended '' @ g_state r @ '' without a closing message and changed nothing'')"

fun summary_back :: "entry list \<Rightarrow> string" where
  "summary_back [] = []"
| "summary_back (e # es) =
    (case Message e of
       Inr (Some m) \<Rightarrow>
         if m_role m = RoleAssistant \<and> trim_space (m_content m) \<noteq> [] then trim_space (m_content m) else summary_back es
     | _ \<Rightarrow> summary_back es)"

definition summaryOf :: "entry list \<Rightarrow> string" where
  "summaryOf es = summary_back (rev es)"

text \<open>
  What is kept of a child's work: \<open>reach\<close> is the way to its workspace (an error, or \<open>None\<close>), \<open>git\<close> the
  outcome of each command there, \<open>push\<close> that of pushing the branch.
\<close>

definition commitAll :: "(string list \<Rightarrow> string + string) \<Rightarrow> string \<Rightarrow> string + bool" where
  "commitAll git msg =
    (case git [''status'', ''--porcelain''] of
       Inl e \<Rightarrow> Inl e
     | Inr status \<Rightarrow>
         if trim_space status = [] then Inr False
         else (case git [''add'', ''-A''] of
                 Inl e \<Rightarrow> Inl e
               | Inr _ \<Rightarrow> (case git [''commit'', ''-m'', msg] of Inl e \<Rightarrow> Inl e | Inr _ \<Rightarrow> Inr True)))"

definition keepWork ::
  "string option \<Rightarrow> (string list \<Rightarrow> string + string) \<Rightarrow> (string \<Rightarrow> string option) \<Rightarrow> string \<Rightarrow> agent_result \<Rightarrow> agent_result" where
  "keepWork reach git push base r =
    (case reach of
       Some e \<Rightarrow> r\<lparr>g_error := join_error (g_error r) e\<rparr>
     | None \<Rightarrow>
         let r = (case commitAll git (''wip: subagent '' @ g_name r @ '' finished'') of
                    Inl e \<Rightarrow> r\<lparr>g_error := join_error (g_error r) e\<rparr> | Inr _ \<Rightarrow> r);
             r = (case git [''rev-parse'', ''HEAD''] of Inr head \<Rightarrow> r\<lparr>g_commit := head\<rparr> | Inl _ \<Rightarrow> r);
             r = (if g_commit r \<noteq> [] then
                    (case push (g_branch r) of Some e \<Rightarrow> r\<lparr>g_error := join_error (g_error r) e\<rparr> | None \<Rightarrow> r) else r) in
         if base \<noteq> [] \<and> g_commit r \<noteq> [] \<and> base \<noteq> g_commit r then
           (case git [''diff'', ''--stat'', base, g_commit r] of Inr st \<Rightarrow> r\<lparr>g_diff_stat := st\<rparr> | Inl _ \<Rightarrow> r)
         else r)"

definition handOver :: "string option \<Rightarrow> (string list \<Rightarrow> string + string) \<Rightarrow> string \<Rightarrow> string + string" where
  "handOver reach git name =
    (case reach of
       Some e \<Rightarrow> Inl e
     | None \<Rightarrow>
         (case commitAll git (''wip: before spawning '' @ name) of
            Inl e \<Rightarrow> Inl e
          | Inr _ \<Rightarrow>
              (case git [''rev-parse'', ''HEAD''] of
                 Inl e \<Rightarrow> Inl (''read the parent workspace's commit: '' @ e) | Inr head \<Rightarrow> Inr head)))"

text \<open>
  The workspace of a child: \<open>addWorktree\<close> and \<open>create\<close> say what becomes of adding the worktree and of
  inserting the row. The second component says whether the worktree is removed again.
\<close>

record child_workspace =
  cw_id :: string
  cw_project :: string
  cw_name :: string
  cw_branch :: string
  cw_base :: string
  cw_parent :: string
  cw_worktree_of :: string

definition addChild ::
  "string option \<Rightarrow> (string \<Rightarrow> string \<Rightarrow> string \<Rightarrow> string option) \<Rightarrow> (child_workspace \<Rightarrow> string option) \<Rightarrow>
   string \<Rightarrow> child_workspace \<Rightarrow> string \<Rightarrow> string \<Rightarrow> string \<Rightarrow> (string + child_workspace) \<times> bool" where
  "addChild reach addWorktree create newID parent name branch base =
    (let holderID = (if cw_worktree_of parent = [] then cw_id parent else cw_worktree_of parent) in
     case reach of
       Some e \<Rightarrow> (Inl e, False)
     | None \<Rightarrow>
         (case addWorktree newID branch base of
            Some e \<Rightarrow> (Inl e, False)
          | None \<Rightarrow>
              let w = \<lparr>cw_id = newID, cw_project = cw_project parent, cw_name = name, cw_branch = branch, cw_base = base,
                        cw_parent = cw_id parent, cw_worktree_of = holderID\<rparr> in
              (case create w of Some e \<Rightarrow> (Inl e, True) | None \<Rightarrow> (Inr w, False))))"

text \<open>
  Every agent of a tree works in the container of the root session's workspace: the holder of a
  child's files is its parent's holder, or its parent when that one holds its own.
\<close>

lemma addChild_holder:
  assumes "addChild reach addWorktree create newID parent name branch base = (Inr w, removed)"
  shows "cw_parent w = cw_id parent \<and> \<not> removed
    \<and> cw_worktree_of w = (if cw_worktree_of parent = [] then cw_id parent else cw_worktree_of parent)"
  using assms by (auto simp: addChild_def Let_def split: option.splits)

definition report :: "(agent_result \<Rightarrow> agent_result) \<Rightarrow> string + entry list \<Rightarrow> agent_result \<Rightarrow> agent_result" where
  "report keep path r =
    (let r = keep r;
         r = (case path of Inl e \<Rightarrow> r\<lparr>g_error := join_error (g_error r) e\<rparr> | Inr es \<Rightarrow> r\<lparr>g_summary := summaryOf es\<rparr>) in
     if g_summary r = [] then r\<lparr>g_summary := describe r\<rparr> else r)"

section \<open>The spawner\<close>

record limits =
  MaxDepth :: nat
  MaxChildren :: nat

definition spawn_limits :: "int \<Rightarrow> int \<Rightarrow> limits" where
  "spawn_limits depth width = \<lparr>MaxDepth = nat (max depth 1), MaxChildren = nat (max width 1)\<rparr>"

datatype child_phase = Looked nat nat | Reserved | Going | Reported | Finished

record child =
  k_id :: string
  k_parent :: string
  k_name :: string
  k_cancelled :: bool
  k_done :: bool
  k_result :: agent_result
  k_aborted :: bool
  k_phase :: child_phase

record spawner =
  sp_stopped :: bool
  sp_children :: "(string \<times> nat) list"
  sp_heap :: "nat \<Rightarrow> child"
  sp_next :: nat
  sp_rows :: "subagent list"

datatype spawn_error = NoRunner | BadName | EmptyTask | TooDeep | TooMany | Stopping

function depth_loop :: "subagent list \<Rightarrow> nat \<Rightarrow> string \<Rightarrow> nat \<Rightarrow> nat" where
  "depth_loop rows maxDepth sid depth =
    (if depth \<le> maxDepth then
       (case SubagentOfSession sid rows of
          None \<Rightarrow> depth
        | Some r \<Rightarrow> depth_loop rows maxDepth (sb_parent r) (Suc depth))
     else depth)"
  by pat_completeness auto
termination by (relation "measure (\<lambda>(rows, m, sid, d). Suc m - d)") auto

declare depth_loop.simps [simp del]

definition depthOf :: "subagent list \<Rightarrow> string \<Rightarrow> nat \<Rightarrow> nat" where
  "depthOf rows sid maxDepth = depth_loop rows maxDepth sid 0"

definition recordedChildren :: "subagent list \<Rightarrow> string \<Rightarrow> nat" where
  "recordedChildren rows sid = length (filter (\<lambda>r. sb_state r = RunRunning) (list_Subagents sid rows))"

definition live_children :: "string \<Rightarrow> spawner \<Rightarrow> nat" where
  "live_children sid s = length (filter (\<lambda>p. k_parent (sp_heap s (snd p)) = sid) (sp_children s))"

definition new_child :: "string \<Rightarrow> string \<Rightarrow> string \<Rightarrow> child_phase \<Rightarrow> child" where
  "new_child i parent name ph = \<lparr>k_id = i, k_parent = parent, k_name = name, k_cancelled = False, k_done = False,
     k_result = zero_result\<lparr>g_id := i, g_name := name, g_state := state_name RunRunning\<rparr>, k_aborted = False, k_phase = ph\<rparr>"

definition NewSpawner :: spawner where
  "NewSpawner = \<lparr>sp_stopped = False, sp_children = [], sp_heap = (\<lambda>_. new_child [] [] [] Finished), sp_next = 0, sp_rows = []\<rparr>"

definition upd_child :: "nat \<Rightarrow> (child \<Rightarrow> child) \<Rightarrow> spawner \<Rightarrow> spawner" where
  "upd_child ref f s = s\<lparr>sp_heap := (sp_heap s)(ref := f (sp_heap s ref))\<rparr>"

text \<open>The checks of a request, and the part of \<^verbatim>\<open>reserve\<close> before the lock.\<close>

definition check_request :: "bool \<Rightarrow> string \<Rightarrow> string \<Rightarrow> string \<Rightarrow> spawn_error option" where
  "check_request attached name sfx task =
    (if \<not> attached then Some NoRunner
     else if \<not> checkName name then Some BadName
     else if \<not> checkName (if sfx = [] then name else sfx) then Some BadName
     else if trim_space task = [] then Some EmptyTask else None)"

definition reserve_look :: "limits \<Rightarrow> string \<Rightarrow> string \<Rightarrow> string \<Rightarrow> spawner \<Rightarrow> (spawn_error + nat) \<times> spawner" where
  "reserve_look l i parent name s =
    (let depth = depthOf (sp_rows s) parent (MaxDepth l) in
     if depth + 1 > MaxDepth l then (Inl TooDeep, s)
     else
       let ref = sp_next s in
       (Inr ref, s\<lparr>sp_heap := (sp_heap s)(ref := new_child i parent name (Looked depth (recordedChildren (sp_rows s) parent))),
                  sp_next := Suc ref\<rparr>))"

definition reserve_claim :: "limits \<Rightarrow> nat \<Rightarrow> nat \<Rightarrow> spawner \<Rightarrow> spawn_error option \<times> spawner" where
  "reserve_claim l recorded ref s =
    (let c = sp_heap s ref in
     if sp_stopped s then (Some Stopping, upd_child ref (\<lambda>c. c\<lparr>k_phase := Finished\<rparr>) s)
     else if max recorded (live_children (k_parent c) s) \<ge> MaxChildren l
       then (Some TooMany, upd_child ref (\<lambda>c. c\<lparr>k_phase := Finished\<rparr>) s)
     else (None, (upd_child ref (\<lambda>c. c\<lparr>k_phase := Reserved\<rparr>) s)
                   \<lparr>sp_children := (k_id c, ref) # filter (\<lambda>(i, _). i \<noteq> k_id c) (sp_children s)\<rparr>))"

definition sp_forget :: "nat \<Rightarrow> spawner \<Rightarrow> spawner" where
  "sp_forget ref s = s\<lparr>sp_children := filter (\<lambda>(i, r). \<not> (i = k_id (sp_heap s ref) \<and> r = ref)) (sp_children s)\<rparr>"

definition release :: "nat \<Rightarrow> spawner \<Rightarrow> spawner" where
  "release ref s = upd_child ref (\<lambda>c. c\<lparr>k_cancelled := True, k_done := True, k_phase := Finished\<rparr>) (sp_forget ref s)"

definition child_begin ::
  "(string \<Rightarrow> bool) \<Rightarrow> (string \<Rightarrow> bool) \<Rightarrow> nat \<Rightarrow> int \<Rightarrow> string \<Rightarrow> string \<Rightarrow> string \<Rightarrow> spawner \<Rightarrow> err + spawner" where
  "child_begin sessions workspaces ref now sess ws branch s =
    (let c = sp_heap s ref in
     case StartSubagent sessions workspaces now \<lparr>sb_id = k_id c, sb_parent = k_parent c, sb_child = sess, sb_workspace = ws,
            sb_state = RunRunning, sb_result = [], sb_created = 0, sb_finished = None\<rparr> (sp_rows s) of
       Inl e \<Rightarrow> Inl e
     | Inr rows \<Rightarrow> Inr ((upd_child ref (\<lambda>c. c\<lparr>k_phase := Going, k_result := zero_result\<lparr>g_id := k_id c, g_session := sess,
           g_workspace := ws, g_name := k_name c, g_branch := branch, g_state := state_name RunRunning\<rparr>\<rparr>) s)\<lparr>sp_rows := rows\<rparr>))"

definition child_outcome :: "string option \<Rightarrow> bool \<Rightarrow> run_state \<times> string" where
  "child_outcome e aborted =
    (case e of None \<Rightarrow> (RunDone, []) | Some e \<Rightarrow> if aborted then (RunAborted, e) else (RunError, e))"

text \<open>
  The end of \<^verbatim>\<open>run\<close>, in two steps: the report and the row, then the slot. \<open>rep\<close> is the report, \<open>encode\<close>
  the stored form of a result.
\<close>

definition child_finish ::
  "(agent_result \<Rightarrow> agent_result) \<Rightarrow> (agent_result \<Rightarrow> string) \<Rightarrow> int \<Rightarrow> string option \<Rightarrow> nat \<Rightarrow> spawner \<Rightarrow> spawner" where
  "child_finish rep encode now e ref s =
    (let c = sp_heap s ref; (state, msg) = child_outcome e (k_aborted c);
         r = rep ((k_result c)\<lparr>g_state := state_name state, g_error := msg\<rparr>);
         s = upd_child ref (\<lambda>c. c\<lparr>k_result := r, k_phase := Reported\<rparr>) s in
     case FinishSubagent now (k_id c) state (encode r) (sp_rows s) of
       Inl _ \<Rightarrow> s | Inr rows \<Rightarrow> s\<lparr>sp_rows := rows\<rparr>)"

definition child_close :: "nat \<Rightarrow> spawner \<Rightarrow> spawner" where
  "child_close ref s = upd_child ref (\<lambda>c. c\<lparr>k_cancelled := True, k_done := True, k_phase := Finished\<rparr>) (sp_forget ref s)"

definition child_abort :: "nat \<Rightarrow> spawner \<Rightarrow> spawner" where
  "child_abort ref s = upd_child ref (\<lambda>c. c\<lparr>k_aborted := True, k_cancelled := True\<rparr>) s"

definition AbortChildren :: "string \<Rightarrow> spawner \<Rightarrow> spawner" where
  "AbortChildren sid s =
     fold child_abort (map snd (filter (\<lambda>(i, ref). k_parent (sp_heap s ref) = sid) (sp_children s))) s"

definition Shutdown :: "spawner \<Rightarrow> nat list \<times> spawner" where
  "Shutdown s =
    (let waited = map snd (sp_children s) in (waited, fold child_abort waited (s\<lparr>sp_stopped := True\<rparr>)))"

definition resultOf :: "(string \<Rightarrow> agent_result option) \<Rightarrow> subagent \<Rightarrow> spawner \<Rightarrow> agent_result" where
  "resultOf decode row s =
    (case map_of (sp_children s) (sb_id row) of
       Some ref \<Rightarrow> k_result (sp_heap s ref)
     | None \<Rightarrow>
         let r = zero_result\<lparr>g_id := sb_id row, g_session := sb_child row, g_workspace := sb_workspace row,
               g_state := state_name (sb_state row)\<rparr> in
         if sb_result row \<noteq> [] then
           (case decode (sb_result row) of
              Some st \<Rightarrow> st\<lparr>g_id := g_id r, g_session := g_session r, g_workspace := g_workspace r, g_state := g_state r\<rparr>
            | None \<Rightarrow> r\<lparr>g_error := sb_result row\<rparr>)
         else r)"

definition agents_List :: "(string \<Rightarrow> agent_result option) \<Rightarrow> string \<Rightarrow> spawner \<Rightarrow> agent_result list" where
  "agents_List decode sid s = map (\<lambda>row. resultOf decode row s) (list_Subagents sid (sp_rows s))"

text \<open>
  \<^verbatim>\<open>Abort\<close> and \<^verbatim>\<open>waitOne\<close> up to the point where they block: \<open>Waits\<close> names the child whose end they wait
  for. A row that is running without a child is what a restart left.
\<close>

datatype ('e, 'a) child_reply = Refused 'e | Waits nat | Answered 'a

datatype child_error = NotChild | AlreadyEnded run_state | RowError err

definition agents_Abort :: "int \<Rightarrow> string \<Rightarrow> spawner \<Rightarrow> (child_error, unit) child_reply \<times> spawner" where
  "agents_Abort now i s =
    (case map_of (sp_children s) i of
       Some ref \<Rightarrow> (Waits ref, child_abort ref s)
     | None \<Rightarrow>
         (case get_Subagent i (sp_rows s) of
            Inl e \<Rightarrow> (Refused (RowError e), s)
          | Inr row \<Rightarrow>
              if sb_state row \<noteq> RunRunning then (Refused (AlreadyEnded (sb_state row)), s)
              else (case FinishSubagent now i RunAborted [] (sp_rows s) of
                      Inl e \<Rightarrow> (Refused (RowError e), s)
                    | Inr rows \<Rightarrow> (Answered (), s\<lparr>sp_rows := rows\<rparr>))))"

definition waitOne :: "(string \<Rightarrow> agent_result option) \<Rightarrow> string \<Rightarrow> string \<Rightarrow> spawner \<Rightarrow> (child_error, agent_result) child_reply" where
  "waitOne decode sid i s =
    (case map_of (sp_children s) i of
       Some ref \<Rightarrow> if k_parent (sp_heap s ref) \<noteq> sid then Refused NotChild else Waits ref
     | None \<Rightarrow>
         (case get_Subagent i (sp_rows s) of
            Inl e \<Rightarrow> Refused (RowError e)
          | Inr row \<Rightarrow> if sb_parent row \<noteq> sid then Refused NotChild else Answered (resultOf decode row s)))"

section \<open>Interleaving\<close>

text \<open>
  The sessions that have been seen: a child gets a new session, whose id is none of them. Deleting
  sessions deletes rows, and a harness that restarts keeps the rows and nothing else.
\<close>

definition known_session :: "string \<Rightarrow> spawner \<Rightarrow> bool" where
  "known_session sid s \<longleftrightarrow> list_ex (\<lambda>r. sb_parent r = sid \<or> sb_child r = sid) (sp_rows s)
     \<or> list_ex (\<lambda>ref. k_parent (sp_heap s ref) = sid) [0..<sp_next s]"

inductive sp_step :: "limits \<Rightarrow> spawner \<Rightarrow> spawner \<Rightarrow> bool" for l where
  look: "i \<notin> set (map (\<lambda>ref. k_id (sp_heap s ref)) [0..<sp_next s]) \<Longrightarrow> sp_step l s (snd (reserve_look l i parent name s))"
| claim: "ref < sp_next s \<Longrightarrow> k_phase (sp_heap s ref) = Looked d n \<Longrightarrow> sp_step l s (snd (reserve_claim l n ref s))"
| unbuilt: "ref < sp_next s \<Longrightarrow> k_phase (sp_heap s ref) = Reserved \<Longrightarrow> sp_step l s (release ref s)"
| begun: "ref < sp_next s \<Longrightarrow> k_phase (sp_heap s ref) = Reserved \<Longrightarrow> \<not> known_session sess s \<Longrightarrow>
    child_begin sessions workspaces ref now sess ws branch s = Inr s' \<Longrightarrow> sp_step l s s'"
| ended: "ref < sp_next s \<Longrightarrow> k_phase (sp_heap s ref) = Going \<Longrightarrow> sp_step l s (child_finish rep encode now e ref s)"
| closed: "ref < sp_next s \<Longrightarrow> k_phase (sp_heap s ref) = Reported \<Longrightarrow> sp_step l s (child_close ref s)"
| aborted: "sp_step l s (snd (agents_Abort now i s))"
| abort_all: "sp_step l s (AbortChildren sid s)"
| shut: "sp_step l s (snd (Shutdown s))"
| rows_deleted: "sp_step l s (s\<lparr>sp_rows := filter P (sp_rows s)\<rparr>)"
| restart: "sp_step l s (NewSpawner\<lparr>sp_rows := sp_rows s\<rparr>)"

section \<open>Depth\<close>

lemma depth_ge: "d \<le> depth_loop rows m sid d"
proof (induction rows m sid d rule: depth_loop.induct)
  case (1 rows m sid d)
  then show ?case by (subst depth_loop.simps) (fastforce split: option.splits)
qed

lemma depth_Suc: "depth_loop rows m sid (Suc d) \<le> Suc (depth_loop rows m sid d)"
proof (induction rows m sid d rule: depth_loop.induct)
  case (1 rows m sid d)
  show ?case
  proof (cases "Suc d \<le> m")
    case True
    then show ?thesis using 1 by (subst (1 2) depth_loop.simps) (auto split: option.splits)
  next
    case False
    then have "depth_loop rows m sid (Suc d) = Suc d" by (subst depth_loop.simps) simp
    then show ?thesis using depth_ge [of d rows m sid] by simp
  qed
qed

lemma depth_new:
  assumes "sb_child r \<noteq> sid" "sb_child r \<notin> sb_parent ` set rows"
  shows "depth_loop (r # rows) m sid d = depth_loop rows m sid d"
  using assms
proof (induction rows m sid d rule: depth_loop.induct)
  case (1 rows m sid d)
  have "SubagentOfSession sid (r # rows) = SubagentOfSession sid rows" using 1(2) by (simp add: SubagentOfSession_def)
  moreover have "x \<in> set rows" if "SubagentOfSession sid rows = Some x" for x
    using that by (auto simp: SubagentOfSession_def find_Some_iff)
  ultimately show ?case using 1 by (subst (1 2) depth_loop.simps) (auto split: option.splits)
qed

lemma SubagentOfSession_filter:
  assumes "distinct (map sb_child rows)" "SubagentOfSession sid (filter P rows) = Some r"
  shows "SubagentOfSession sid rows = Some r"
  using assms
proof (induction rows)
  case (Cons x rows)
  show ?case
  proof (cases "P x")
    case False
    then have r: "SubagentOfSession sid rows = Some r" using Cons by (simp add: SubagentOfSession_def)
    then have "r \<in> set rows" "sb_child r = sid" by (auto simp: SubagentOfSession_def find_Some_iff)
    then have "sb_child x \<noteq> sid" using Cons.prems(1) by force
    then show ?thesis using r by (simp add: SubagentOfSession_def)
  qed (use Cons in \<open>auto simp: SubagentOfSession_def split: if_splits\<close>)
qed (simp add: SubagentOfSession_def)

lemma depth_filter:
  assumes "distinct (map sb_child rows)"
  shows "depth_loop (filter P rows) m sid d \<le> depth_loop rows m sid d"
  using assms
proof (induction rows m sid d rule: depth_loop.induct)
  case (1 rows m sid d)
  show ?case
  proof (cases "SubagentOfSession sid (filter P rows)")
    case None
    then have "depth_loop (filter P rows) m sid d = d" by (subst depth_loop.simps) simp
    then show ?thesis using depth_ge by simp
  next
    case (Some r)
    then show ?thesis using 1 SubagentOfSession_filter [OF 1(2) Some] by (subst (1 2) depth_loop.simps) auto
  qed
qed

lemma families_find:
  assumes "map sb_child rows' = map sb_child rows" "map sb_parent rows' = map sb_parent rows"
  shows "map_option sb_parent (SubagentOfSession sid rows') = map_option sb_parent (SubagentOfSession sid rows)"
  using assms
proof (induction rows arbitrary: rows')
  case (Cons r rows)
  then obtain r' rest where r: "rows' = r' # rest" "sb_child r' = sb_child r" "sb_parent r' = sb_parent r"
      "map sb_child rest = map sb_child rows" "map sb_parent rest = map sb_parent rows"
    by (cases rows') auto
  from Cons.IH [OF r(4,5)] show ?case by (simp add: SubagentOfSession_def r(1-3))
qed (simp add: SubagentOfSession_def)

lemma depth_rows:
  assumes "map sb_child rows' = map sb_child rows" "map sb_parent rows' = map sb_parent rows"
  shows "depth_loop rows' m sid d = depth_loop rows m sid d"
  using assms
proof (induction rows m sid d rule: depth_loop.induct)
  case (1 rows m sid d)
  note f = families_find [OF 1(2,3), of sid]
  show ?case
  proof (cases "SubagentOfSession sid rows")
    case None
    then have "SubagentOfSession sid rows' = None" using f by simp
    then show ?thesis using None by (subst (1 2) depth_loop.simps) simp
  next
    case (Some r)
    then obtain r' where "SubagentOfSession sid rows' = Some r'" "sb_parent r' = sb_parent r" using f by auto
    then show ?thesis using 1(1) [OF _ Some 1(2,3)] Some by (subst (1 2) depth_loop.simps) simp
  qed
qed

text \<open>A depth that is not past the limit is the number of parents above the session.\<close>

inductive nested :: "subagent list \<Rightarrow> string \<Rightarrow> nat \<Rightarrow> bool" for rows where
  root: "SubagentOfSession sid rows = None \<Longrightarrow> nested rows sid 0"
| below: "SubagentOfSession sid rows = Some r \<Longrightarrow> nested rows (sb_parent r) n \<Longrightarrow> nested rows sid (Suc n)"

lemma depth_nested: "depth_loop rows m sid d \<le> m \<Longrightarrow> nested rows sid (depth_loop rows m sid d - d)"
proof (induction rows m sid d rule: depth_loop.induct)
  case (1 rows m sid d)
  from 1(2) depth_ge [of d rows m sid] have d: "d \<le> m" by simp
  show ?case
  proof (cases "SubagentOfSession sid rows")
    case None
    then have "depth_loop rows m sid d = d" by (subst depth_loop.simps) simp
    then show ?thesis using nested.root [OF None] by simp
  next
    case (Some r)
    then have e: "depth_loop rows m sid d = depth_loop rows m (sb_parent r) (Suc d)"
      using d by (subst depth_loop.simps) simp
    have "nested rows (sb_parent r) (depth_loop rows m (sb_parent r) (Suc d) - Suc d)"
      using 1(1) [OF d Some] 1(2) e by simp
    from nested.below [OF Some this] show ?thesis
      using e depth_ge [of "Suc d" rows m "sb_parent r"] by (simp add: Suc_diff_Suc)
  qed
qed

section \<open>The limits hold\<close>

definition sp_inv :: "limits \<Rightarrow> spawner \<Rightarrow> bool" where
  "sp_inv l s \<longleftrightarrow> (\<forall>sid. live_children sid s \<le> MaxChildren l)
     \<and> (\<forall>p \<in> set (sp_children s). snd p < sp_next s)
     \<and> (\<forall>ref < sp_next s. depthOf (sp_rows s) (k_parent (sp_heap s ref)) (MaxDepth l) < MaxDepth l)
     \<and> distinct (map sb_child (sp_rows s))
     \<and> (\<forall>r \<in> set (sp_rows s). depthOf (sp_rows s) (sb_child r) (MaxDepth l) \<le> MaxDepth l)"

text \<open>
  Most steps keep the parents of the children and the families of the rows, and drop slots at most.
\<close>

definition quieter :: "spawner \<Rightarrow> spawner \<Rightarrow> bool" where
  "quieter s t \<longleftrightarrow> sp_next t = sp_next s \<and> (\<exists>P. sp_children t = filter P (sp_children s))
     \<and> (\<forall>ref. k_parent (sp_heap t ref) = k_parent (sp_heap s ref))
     \<and> map sb_child (sp_rows t) = map sb_child (sp_rows s) \<and> map sb_parent (sp_rows t) = map sb_parent (sp_rows s)"

lemma quieter_refl [simp]: "quieter s s"
  by (auto simp: quieter_def intro: exI [of _ "\<lambda>_. True"])

lemma quieter_trans: "quieter s t \<Longrightarrow> quieter t u \<Longrightarrow> quieter s u"
  unfolding quieter_def by (metis filter_filter)

lemma quieter_upd [simp]: "(\<And>c. k_parent (f c) = k_parent c) \<Longrightarrow> quieter s (upd_child ref f s)"
  by (auto simp: quieter_def upd_child_def intro: exI [of _ "\<lambda>_. True"])

lemma quieter_forget [simp]: "quieter s (sp_forget ref s)"
  by (auto simp: quieter_def sp_forget_def)

lemma quieter_abort [simp]: "quieter s (child_abort ref s)"
  by (simp add: child_abort_def)

lemma quieter_aborts: "quieter s (fold child_abort refs s)"
  by (induction refs arbitrary: s) (auto intro: quieter_trans quieter_abort)

lemma quieter_rows:
  "map sb_child rows = map sb_child (sp_rows s) \<Longrightarrow> map sb_parent rows = map sb_parent (sp_rows s) \<Longrightarrow>
   quieter s (s\<lparr>sp_rows := rows\<rparr>)"
  by (auto simp: quieter_def intro: exI [of _ "\<lambda>_. True"])

lemma FinishSubagent_families:
  "FinishSubagent now i st res rows = Inr rows' \<Longrightarrow>
   map sb_child rows' = map sb_child rows \<and> map sb_parent rows' = map sb_parent rows"
  by (auto simp: FinishSubagent_def split: if_splits)

lemma quieter_finished:
  assumes "quieter s t" "FinishSubagent now i st res (sp_rows t) = Inr rows"
  shows "quieter s (t\<lparr>sp_rows := rows\<rparr>)"
  using quieter_trans [OF assms(1) quieter_rows] FinishSubagent_families [OF assms(2)] by blast

lemma quieter_close [simp]: "quieter s (child_close ref s)"
  unfolding child_close_def by (rule quieter_trans [OF quieter_forget [of s ref]]) simp

lemma quieter_release [simp]: "quieter s (release ref s)"
  unfolding release_def by (rule quieter_trans [OF quieter_forget [of s ref]]) simp

lemma quieter_finish [simp]: "quieter s (child_finish rep encode now e ref s)"
  unfolding child_finish_def Let_def
  by (auto split: prod.split sum.split simp: quieter_finished)

lemma quieter_Abort [simp]: "quieter s (snd (agents_Abort now i s))"
  unfolding agents_Abort_def by (auto split: option.split sum.split simp: quieter_finished)

lemma quieter_AbortChildren [simp]: "quieter s (AbortChildren sid s)"
  by (simp add: AbortChildren_def quieter_aborts)

lemma quieter_Shutdown [simp]: "quieter s (snd (Shutdown s))"
proof -
  have "quieter s (s\<lparr>sp_stopped := True\<rparr>)" by (auto simp: quieter_def intro: exI [of _ "\<lambda>_. True"])
  from quieter_trans [OF this quieter_aborts] show ?thesis by (simp add: Shutdown_def Let_def)
qed

lemma length_filter_le_filter: "length (filter (\<lambda>x. P x \<and> Q x) xs) \<le> length (filter Q xs)"
  by (induction xs) auto

lemma quieter_live: "quieter s t \<Longrightarrow> live_children sid t \<le> live_children sid s"
  unfolding quieter_def live_children_def by (auto simp: length_filter_le_filter)

lemma quieter_depth: "quieter s t \<Longrightarrow> depthOf (sp_rows t) sid m = depthOf (sp_rows s) sid m"
  unfolding depthOf_def by (rule depth_rows) (auto simp: quieter_def)

lemma quieter_inv:
  assumes q: "quieter s t" and i: "sp_inv l s"
  shows "sp_inv l t"
proof -
  have "sb_child ` set (sp_rows t) = sb_child ` set (sp_rows s)" using q by (metis list.set_map quieter_def)
  then have "\<forall>r \<in> set (sp_rows t). depthOf (sp_rows t) (sb_child r) (MaxDepth l) \<le> MaxDepth l"
    using i unfolding sp_inv_def quieter_depth [OF q] by (metis image_eqI imageE)
  moreover have "live_children sid t \<le> MaxChildren l" for sid
    using quieter_live [OF q, of sid] i unfolding sp_inv_def by (meson le_trans)
  moreover have "\<forall>p \<in> set (sp_children t). snd p < sp_next t" using q i by (auto simp: quieter_def sp_inv_def)
  ultimately show ?thesis using q i by (auto simp: sp_inv_def quieter_depth [OF q] quieter_def)
qed

lemma look_inv:
  assumes "sp_inv l s"
  shows "sp_inv l (snd (reserve_look l i parent name s))"
proof (cases "depthOf (sp_rows s) parent (MaxDepth l) + 1 > MaxDepth l")
  case False
  have "live_children sid (snd (reserve_look l i parent name s)) = live_children sid s" for sid
    using assms False unfolding live_children_def reserve_look_def Let_def sp_inv_def
    by (auto intro!: arg_cong [where f = length] filter_cong)
  then show ?thesis using assms False by (auto simp: sp_inv_def reserve_look_def Let_def new_child_def less_Suc_eq)
qed (use assms in \<open>simp add: reserve_look_def Let_def\<close>)

lemma claim_inv:
  assumes i: "sp_inv l s" and r: "ref < sp_next s"
  shows "sp_inv l (snd (reserve_claim l n ref s))"
proof (cases "sp_stopped s \<or> max n (live_children (k_parent (sp_heap s ref)) s) \<ge> MaxChildren l")
  case True
  then show ?thesis by (auto simp: reserve_claim_def Let_def intro!: quieter_inv [OF _ i])
next
  case False
  let ?t = "snd (reserve_claim l n ref s)" and ?i = "k_id (sp_heap s ref)"
  have c: "sp_children ?t = (?i, ref) # filter (\<lambda>(j, _). j \<noteq> ?i) (sp_children s)" "sp_next ?t = sp_next s"
      "sp_rows ?t = sp_rows s" "k_parent (sp_heap ?t x) = k_parent (sp_heap s x)" for x
    using False by (auto simp: reserve_claim_def Let_def upd_child_def)
  have "live_children sid ?t \<le> (if sid = k_parent (sp_heap s ref) then 1 else 0) + live_children sid s" for sid
    unfolding live_children_def c by (auto simp: split_beta length_filter_le_filter)
  then have "live_children sid ?t \<le> MaxChildren l" for sid
    using False i unfolding sp_inv_def by (smt (verit) add_0 add.commute le_trans max.cobounded2 not_less plus_1_eq_Suc Suc_leI)
  then show ?thesis using i r by (auto simp: sp_inv_def c)
qed

lemma child_begin_inv:
  assumes i: "sp_inv l s" and r: "ref < sp_next s" and new: "\<not> known_session sess s"
    and b: "child_begin sessions workspaces ref now sess ws branch s = Inr t"
  shows "sp_inv l t"
proof -
  obtain row where t: "sp_rows t = row # sp_rows s" "sb_child row = sess" "sb_parent row = k_parent (sp_heap s ref)"
      and u: "sp_next t = sp_next s" "sp_children t = sp_children s" "\<And>x. k_parent (sp_heap t x) = k_parent (sp_heap s x)"
    using b by (auto simp: child_begin_def StartSubagent_def Let_def upd_child_def split: sum.splits if_splits)
  have n: "sess \<notin> sb_parent ` set (sp_rows s)" "sess \<notin> sb_child ` set (sp_rows s)"
      "x < sp_next s \<Longrightarrow> k_parent (sp_heap s x) \<noteq> sess" for x
    using new by (auto simp: known_session_def list_ex_iff)
  have old: "depthOf (sp_rows t) sid m = depthOf (sp_rows s) sid m" if "sid \<noteq> sess" for sid m
    unfolding depthOf_def t(1) using that n(1) t(2) by (intro depth_new) auto
  have "depthOf (sp_rows t) sess (MaxDepth l) = depth_loop (sp_rows t) (MaxDepth l) (sb_parent row) 1"
    unfolding depthOf_def by (subst depth_loop.simps) (simp add: SubagentOfSession_def t)
  also have "\<dots> \<le> Suc (depthOf (sp_rows t) (sb_parent row) (MaxDepth l))"
    unfolding depthOf_def using depth_Suc by simp
  also have "\<dots> \<le> MaxDepth l" using i r n(3) [OF r] unfolding t(3) by (simp add: old sp_inv_def Suc_le_eq)
  finally have "depthOf (sp_rows t) sess (MaxDepth l) \<le> MaxDepth l" .
  moreover have "live_children sid t = live_children sid s" for sid by (simp add: live_children_def u)
  moreover have "depthOf (sp_rows t) (sb_child x) (MaxDepth l) \<le> MaxDepth l" if "x \<in> set (sp_rows s)" for x
    using that i n(2) by (subst old) (auto simp: sp_inv_def)
  ultimately show ?thesis using i n by (simp add: sp_inv_def t u old [unfolded t])
qed

lemma deleted_inv:
  assumes i: "sp_inv l s"
  shows "sp_inv l (s\<lparr>sp_rows := filter P (sp_rows s)\<rparr>)"
proof -
  have "depthOf (filter P (sp_rows s)) sid m \<le> depthOf (sp_rows s) sid m" for sid m
    unfolding depthOf_def using i by (intro depth_filter) (simp add: sp_inv_def)
  moreover from this have "depthOf (filter P (sp_rows s)) (sb_child r) (MaxDepth l) \<le> MaxDepth l" if "r \<in> set (sp_rows s)" for r
    using i that unfolding sp_inv_def by (meson le_trans)
  moreover have "depthOf (filter P (sp_rows s)) (k_parent (sp_heap s ref)) (MaxDepth l) < MaxDepth l" if "ref < sp_next s" for ref
    using i that calculation(1) unfolding sp_inv_def by (meson le_less_trans)
  ultimately show ?thesis using i unfolding sp_inv_def live_children_def by (auto intro: distinct_map_filter)
qed

lemma restart_inv: "sp_inv l s \<Longrightarrow> sp_inv l (NewSpawner\<lparr>sp_rows := sp_rows s\<rparr>)"
  by (simp add: sp_inv_def NewSpawner_def live_children_def)

lemma sp_inv_start: "sp_inv l NewSpawner"
  by (simp add: sp_inv_def NewSpawner_def live_children_def)

lemma sp_step_inv:
  assumes "sp_step l s t" "sp_inv l s"
  shows "sp_inv l t"
  using assms(1)
proof (cases rule: sp_step.cases)
  case begun
  then show ?thesis using child_begin_inv [OF assms(2)] by blast
qed (use assms(2) in \<open>simp_all add: look_inv claim_inv deleted_inv restart_inv quieter_inv [OF _ assms(2)]\<close>)

interpretation spawner: transition_system NewSpawner "sp_step l" "sp_inv l" for l
  by unfold_locales (auto intro: sp_inv_start sp_step_inv)

lemma quieter_children: "quieter s t \<Longrightarrow> set (sp_children t) \<subseteq> set (sp_children s)"
  by (auto simp: quieter_def)

lemma stopped_step:
  assumes "sp_step l s t" "sp_stopped s"
  shows "set (sp_children t) \<subseteq> set (sp_children s)"
  using assms(1)
proof (cases rule: sp_step.cases)
  case (begun ref sess sessions workspaces now ws branch)
  then show ?thesis by (auto simp: child_begin_def Let_def upd_child_def split: sum.splits)
qed (use assms(2) in \<open>auto simp: reserve_look_def reserve_claim_def Let_def NewSpawner_def upd_child_def
      dest: quieter_children [OF quieter_release, THEN subsetD] quieter_children [OF quieter_finish, THEN subsetD]
        quieter_children [OF quieter_close, THEN subsetD] quieter_children [OF quieter_Abort, THEN subsetD]
        quieter_children [OF quieter_AbortChildren, THEN subsetD] quieter_children [OF quieter_Shutdown, THEN subsetD]\<close>)

text \<open>
  C9. However spawns, aborts, ends, deletions and restarts interleave, a session never has more children
  going than the limit allows, reservations included, and every child session sits at most as many
  levels below a session nobody spawned as the depth limit allows. Once the spawner is stopped no
  step gives out a slot.
\<close>

theorem spawn_limits_hold:
  assumes "reachable NewSpawner (sp_step l) s"
  shows "live_children sid s \<le> MaxChildren l
    \<and> (\<forall>r \<in> set (sp_rows s). \<exists>n \<le> MaxDepth l. nested (sp_rows s) (sb_child r) n)
    \<and> (sp_stopped s \<and> sp_step l s t \<longrightarrow> set (sp_children t) \<subseteq> set (sp_children s))"
proof -
  have i: "sp_inv l s" by (rule spawner.reachable_inv [OF assms])
  have "\<exists>n \<le> MaxDepth l. nested (sp_rows s) (sb_child r) n" if "r \<in> set (sp_rows s)" for r
    using i that depth_nested [of "sp_rows s" "MaxDepth l" "sb_child r" 0] unfolding sp_inv_def depthOf_def by auto
  then show ?thesis using i stopped_step [of l s t] unfolding sp_inv_def by blast
qed

theorem spawn_limits_hold_witness:
  "live_children ''p'' (snd (reserve_claim (spawn_limits 0 1) 0 0 (snd (reserve_look (spawn_limits 0 1) ''c'' ''p'' ''n'' NewSpawner)))) \<le> 1
   \<and> live_children ''p'' (snd (reserve_claim (spawn_limits 0 1) 0 0 (snd (reserve_look (spawn_limits 0 1) ''c'' ''p'' ''n'' NewSpawner)))) = 1"
proof -
  let ?l = "spawn_limits 0 1" let ?s = "snd (reserve_look ?l ''c'' ''p'' ''n'' NewSpawner)"
  have s: "sp_next ?s = 1" "k_phase (sp_heap ?s 0) = Looked 0 0" by code_simp+
  have "reachable NewSpawner (sp_step ?l) ?s" 
    by (rule reach_step, rule reach_start, rule sp_step.look) (simp add: NewSpawner_def)
  then have "reachable NewSpawner (sp_step ?l) (snd (reserve_claim ?l 0 0 ?s))"
    by (rule reach_step, intro sp_step.claim) (simp_all add: s)
  from spawn_limits_hold [OF this, of "''p''"] have "live_children ''p'' (snd (reserve_claim ?l 0 0 ?s)) \<le> 1"
    by (simp add: spawn_limits_def)
  moreover have "live_children ''p'' (snd (reserve_claim ?l 0 0 ?s)) = 1" by code_simp
  ultimately show ?thesis by blast
qed

end
