(* ===== verification/Questions.thy ===== *)
theory Questions
  imports Prelude
begin

text \<open>
  \<^verbatim>\<open>tool/builtin/questions.go\<close> and \<^verbatim>\<open>ask.go\<close>: questions a run asks the user and blocks on. A \<^verbatim>\<open>*question\<close>
  is an index into \<open>qs_heap\<close>; the map of pending questions is an association list in the order an
  iteration visits it. A call of \<^verbatim>\<open>ask_user\<close> leaves its \<^verbatim>\<open>select\<close> with an answer or because its context
  ended, and forgets the question in a later step; an answer may arrive in between.
\<close>

section \<open>Questions and answers\<close>

record asked =
  an_id :: string
  an_session :: string
  an_run :: string
  an_call :: string
  an_text :: string
  an_options :: "string list"
  an_free :: bool
  an_at :: int

datatype question_error = NoQuestion string | EmptyAnswer string | NoSuchOption string string

definition accepts :: "asked \<Rightarrow> string \<Rightarrow> question_error option" where
  "accepts q answer =
    (if answer = [] then Some (EmptyAnswer (an_id q))
     else if an_options q = [] \<or> an_free q then None
     else if answer \<in> set (an_options q) then None
     else Some (NoSuchOption (an_id q) answer))"

datatype ask_phase = Asking | Leaving "string option" | Gone "string option"

record question =
  qu_asked :: asked
  qu_answer :: "string list"
  qu_phase :: ask_phase

record questions =
  qs_pending :: "(string \<times> nat) list"
  qs_heap :: "nat \<Rightarrow> question"
  qs_next :: nat

definition no_question :: question where
  "no_question = \<lparr>qu_asked = \<lparr>an_id = [], an_session = [], an_run = [], an_call = [], an_text = [], an_options = [],
     an_free = False, an_at = 0\<rparr>, qu_answer = [], qu_phase = Gone None\<rparr>"

definition NewQuestions :: questions where
  "NewQuestions = \<lparr>qs_pending = [], qs_heap = (\<lambda>_. no_question), qs_next = 0\<rparr>"

definition upd_question :: "nat \<Rightarrow> (question \<Rightarrow> question) \<Rightarrow> questions \<Rightarrow> questions" where
  "upd_question ref f s = s\<lparr>qs_heap := (qs_heap s)(ref := f (qs_heap s ref))\<rparr>"

definition questions_ask :: "asked \<Rightarrow> questions \<Rightarrow> nat \<times> questions" where
  "questions_ask q s =
    (let ref = qs_next s in
     (ref, s\<lparr>qs_heap := (qs_heap s)(ref := \<lparr>qu_asked = q, qu_answer = [], qu_phase = Asking\<rparr>), qs_next := Suc ref,
             qs_pending := (an_id q, ref) # filter (\<lambda>(j, _). j \<noteq> an_id q) (qs_pending s)\<rparr>))"

definition questions_forget :: "string \<Rightarrow> questions \<Rightarrow> questions" where
  "questions_forget i s = s\<lparr>qs_pending := filter (\<lambda>(j, _). j \<noteq> i) (qs_pending s)\<rparr>"

definition questions_Answer :: "string \<Rightarrow> string \<Rightarrow> questions \<Rightarrow> question_error option \<times> questions" where
  "questions_Answer i answer s =
    (case map_of (qs_pending s) i of
       None \<Rightarrow> (Some (NoQuestion i), s)
     | Some ref \<Rightarrow>
         (case accepts (qu_asked (qs_heap s ref)) answer of
            Some e \<Rightarrow> (Some e, s)
          | None \<Rightarrow> (None, upd_question ref (\<lambda>q. q\<lparr>qu_answer := qu_answer q @ [answer]\<rparr>) (questions_forget i s))))"

definition questions_Pending :: "questions \<Rightarrow> asked list" where
  "questions_Pending s = sort_key an_at (map (\<lambda>(_, ref). qu_asked (qs_heap s ref)) (qs_pending s))"

section \<open>The tool\<close>

definition maxQuestionOptions :: nat where
  "maxQuestionOptions = 10"

definition ask_user :: "bool \<Rightarrow> string \<Rightarrow> string \<times> string \<times> string \<Rightarrow> int \<Rightarrow> string \<Rightarrow> string list \<Rightarrow> bool \<Rightarrow> string + asked" where
  "ask_user listening newID ids now txt options free =
    (case ids of (session, run, call) \<Rightarrow>
     if trim_space txt = [] then Inl ''ask_user: question is required''
     else if length options > maxQuestionOptions
       then Inl (''ask_user: at most '' @ itoa (int maxQuestionOptions) @ '' options are allowed'')
     else if \<not> listening then Inl ''ask_user: nobody is listening for questions in this session''
     else Inr \<lparr>an_id = newID, an_session = session, an_run = run, an_call = call, an_text = trim_space txt,
                an_options = options, an_free = free \<or> options = [], an_at = now\<rparr>)"

text \<open>The two ways out of \<^verbatim>\<open>select\<close>, and the deferred \<^verbatim>\<open>forget\<close>.\<close>

definition ask_receives :: "nat \<Rightarrow> questions \<Rightarrow> questions option" where
  "ask_receives ref s =
    (case qu_answer (qs_heap s ref) of
       [] \<Rightarrow> None
     | a # rest \<Rightarrow> Some (upd_question ref (\<lambda>q. q\<lparr>qu_answer := rest, qu_phase := Leaving (Some a)\<rparr>) s))"

definition ask_cancelled :: "nat \<Rightarrow> questions \<Rightarrow> questions" where
  "ask_cancelled ref s = upd_question ref (\<lambda>q. q\<lparr>qu_phase := Leaving None\<rparr>) s"

definition ask_returns :: "nat \<Rightarrow> string option \<Rightarrow> questions \<Rightarrow> questions" where
  "ask_returns ref a s =
     upd_question ref (\<lambda>q. q\<lparr>qu_phase := Gone a\<rparr>) (questions_forget (an_id (qu_asked (qs_heap s ref))) s)"

text \<open>The identifier of a new question is random; it is none that was used.\<close>

inductive qs_step :: "questions \<Rightarrow> questions \<Rightarrow> bool" where
  ask_step: "\<forall>ref < qs_next s. an_id (qu_asked (qs_heap s ref)) \<noteq> an_id q \<Longrightarrow> qs_step s (snd (questions_ask q s))"
| answer_step: "qs_step s (snd (questions_Answer i a s))"
| receive_step: "ref < qs_next s \<Longrightarrow> qu_phase (qs_heap s ref) = Asking \<Longrightarrow> ask_receives ref s = Some t \<Longrightarrow> qs_step s t"
| cancel_step: "ref < qs_next s \<Longrightarrow> qu_phase (qs_heap s ref) = Asking \<Longrightarrow> qs_step s (ask_cancelled ref s)"
| return_step: "ref < qs_next s \<Longrightarrow> qu_phase (qs_heap s ref) = Leaving a \<Longrightarrow> qs_step s (ask_returns ref a s)"

section \<open>One answer\<close>

text \<open>What has been delivered to a question: what lies in its channel and what its call took out.\<close>

fun taken :: "ask_phase \<Rightarrow> string list" where
  "taken Asking = []"
| "taken (Leaving a) = (case a of None \<Rightarrow> [] | Some x \<Rightarrow> [x])"
| "taken (Gone a) = (case a of None \<Rightarrow> [] | Some x \<Rightarrow> [x])"

definition deliveries :: "question \<Rightarrow> string list" where
  "deliveries q = taken (qu_phase q) @ qu_answer q"

definition is_gone :: "ask_phase \<Rightarrow> bool" where
  "is_gone ph = (case ph of Gone _ \<Rightarrow> True | _ \<Rightarrow> False)"

definition question_ok :: "question \<Rightarrow> bool" where
  "question_ok q \<longleftrightarrow> length (deliveries q) \<le> 1 \<and> list_all (\<lambda>a. accepts (qu_asked q) a = None) (deliveries q)"

definition qs_inv :: "questions \<Rightarrow> bool" where
  "qs_inv s \<longleftrightarrow> (\<forall>ref < qs_next s. question_ok (qs_heap s ref))
     \<and> distinct (map fst (qs_pending s))
     \<and> (\<forall>(i, ref) \<in> set (qs_pending s). ref < qs_next s \<and> an_id (qu_asked (qs_heap s ref)) = i
          \<and> deliveries (qs_heap s ref) = [] \<and> \<not> is_gone (qu_phase (qs_heap s ref)))
     \<and> (\<forall>r < qs_next s. \<forall>r' < qs_next s. an_id (qu_asked (qs_heap s r)) = an_id (qu_asked (qs_heap s r')) \<longrightarrow> r = r')"

lemma qs_invD:
  assumes "qs_inv s" "map_of (qs_pending s) i = Some ref"
  shows "ref < qs_next s" "an_id (qu_asked (qs_heap s ref)) = i" "deliveries (qs_heap s ref) = []"
    "\<not> is_gone (qu_phase (qs_heap s ref))"
  using assms(1) map_of_SomeD [OF assms(2)] by (auto simp: qs_inv_def)

text \<open>A step on one question that keeps what was asked, drops pending questions and leaves it well formed.\<close>

lemma upd_inv:
  assumes i: "qs_inv s" and r: "ref < qs_next s"
    and f: "qu_asked (f (qs_heap s ref)) = qu_asked (qs_heap s ref)" "question_ok (f (qs_heap s ref))"
    and P: "(\<And>j. P (j, ref) \<Longrightarrow> (j, ref) \<in> set (qs_pending s) \<Longrightarrow>
              deliveries (f (qs_heap s ref)) = [] \<and> \<not> is_gone (qu_phase (f (qs_heap s ref))))"
  shows "qs_inv (upd_question ref f (s\<lparr>qs_pending := filter P (qs_pending s)\<rparr>))"
    (is "qs_inv ?t")
proof -
  have h: "qs_heap ?t x = (if x = ref then f (qs_heap s ref) else qs_heap s x)" for x by (simp add: upd_question_def)
  have a: "qu_asked (qs_heap ?t x) = qu_asked (qs_heap s x)" for x using f(1) by (simp add: h)
  have n: "qs_next ?t = qs_next s" "qs_pending ?t = filter P (qs_pending s)" by (simp_all add: upd_question_def)
  have "\<forall>x < qs_next s. question_ok (qs_heap ?t x)" using i f(2) by (simp add: h qs_inv_def)
  moreover have "\<forall>(j, x) \<in> set (filter P (qs_pending s)). x < qs_next s \<and> an_id (qu_asked (qs_heap s x)) = j
      \<and> deliveries (qs_heap ?t x) = [] \<and> \<not> is_gone (qu_phase (qs_heap ?t x))"
    using i P by (auto simp: h qs_inv_def)
  ultimately show ?thesis using i by (simp add: qs_inv_def n a distinct_map_filter)
qed

lemma no_filter: "s\<lparr>qs_pending := filter (\<lambda>_. True) (qs_pending s)\<rparr> = s"
  by simp

lemma Answer_inv:
  assumes i: "qs_inv s"
  shows "qs_inv (snd (questions_Answer j a s))"
proof (cases "map_of (qs_pending s) j")
  case (Some ref)
  note d = qs_invD [OF i Some]
  show ?thesis
  proof (cases "accepts (qu_asked (qs_heap s ref)) a")
    case None
    have "qs_inv (upd_question ref (\<lambda>q. q\<lparr>qu_answer := qu_answer q @ [a]\<rparr>)
        (s\<lparr>qs_pending := filter (\<lambda>(k, _). k \<noteq> j) (qs_pending s)\<rparr>))"
      using i d None by (intro upd_inv) (auto simp: question_ok_def deliveries_def qs_inv_def)
    then show ?thesis using Some None by (simp add: questions_Answer_def questions_forget_def)
  qed (use i Some in \<open>simp add: questions_Answer_def\<close>)
qed (use i in \<open>simp add: questions_Answer_def\<close>)

lemma ask_inv:
  assumes "qs_inv s" "\<forall>ref < qs_next s. an_id (qu_asked (qs_heap s ref)) \<noteq> an_id q"
  shows "qs_inv (snd (questions_ask q s))"
  using assms unfolding qs_inv_def questions_ask_def
  by (auto simp: Let_def question_ok_def deliveries_def is_gone_def less_Suc_eq distinct_map_filter split: prod.splits)

lemma qs_step_inv:
  assumes "qs_step s t" "qs_inv s"
  shows "qs_inv t"
  using assms(1)
proof (cases rule: qs_step.cases)
  case (ask_step q)
  then show ?thesis using ask_inv [OF assms(2)] by simp
next
  case (answer_step i a)
  then show ?thesis using Answer_inv [OF assms(2)] by simp
next
  case (receive_step ref)
  then obtain a rest where q: "qu_answer (qs_heap s ref) = a # rest"
      "t = upd_question ref (\<lambda>q. q\<lparr>qu_answer := rest, qu_phase := Leaving (Some a)\<rparr>) s"
    by (auto simp: ask_receives_def split: list.splits)
  from assms(2) receive_step(1) have ok: "question_ok (qs_heap s ref)" by (simp add: qs_inv_def)
  have "qs_inv (upd_question ref (\<lambda>q. q\<lparr>qu_answer := rest, qu_phase := Leaving (Some a)\<rparr>)
      (s\<lparr>qs_pending := filter (\<lambda>_. True) (qs_pending s)\<rparr>))"
    using assms(2) receive_step q(1) ok by (intro upd_inv) (auto simp: question_ok_def deliveries_def qs_inv_def)
  then show ?thesis using q(2) by simp
next
  case (cancel_step ref)
  from assms(2) cancel_step(2) have ok: "question_ok (qs_heap s ref)" by (simp add: qs_inv_def)
  have "qs_inv (upd_question ref (\<lambda>q. q\<lparr>qu_phase := Leaving None\<rparr>) (s\<lparr>qs_pending := filter (\<lambda>_. True) (qs_pending s)\<rparr>))"
    using assms(2) cancel_step ok
    by (intro upd_inv) (auto simp: question_ok_def deliveries_def qs_inv_def is_gone_def)
  then show ?thesis using cancel_step(1) by (simp add: ask_cancelled_def)
next
  case (return_step ref a)
  from assms(2) return_step(2) have ok: "question_ok (qs_heap s ref)" by (simp add: qs_inv_def)
  have "qs_inv (upd_question ref (\<lambda>q. q\<lparr>qu_phase := Gone a\<rparr>)
      (s\<lparr>qs_pending := filter (\<lambda>(k, _). k \<noteq> an_id (qu_asked (qs_heap s ref))) (qs_pending s)\<rparr>))"
    using assms(2) return_step ok
    by (intro upd_inv) (auto simp: question_ok_def deliveries_def qs_inv_def split: option.splits)
  then show ?thesis using return_step(1) by (simp add: ask_returns_def questions_forget_def)
qed

lemma qs_inv_start: "qs_inv NewQuestions"
  by (simp add: qs_inv_def NewQuestions_def)

interpretation broker: transition_system NewQuestions qs_step qs_inv
  by unfold_locales (auto intro: qs_inv_start qs_step_inv)

text \<open>Once a question has its answer, it keeps it, whatever happens.\<close>

lemma delivered_step:
  assumes i: "qs_inv s" and st: "qs_step s t" and r: "ref < qs_next s" "deliveries (qs_heap s ref) = [a]"
  shows "ref < qs_next t \<and> qu_asked (qs_heap t ref) = qu_asked (qs_heap s ref) \<and> deliveries (qs_heap t ref) = [a]"
  using st
proof (cases rule: qs_step.cases)
  case (answer_step j b)
  have "map_of (qs_pending s) j \<noteq> Some ref" using qs_invD(3) [OF i, of j ref] r(2) by auto
  then show ?thesis using r unfolding answer_step
    by (auto simp: questions_Answer_def questions_forget_def upd_question_def split: option.splits)
qed (use r in \<open>auto simp: questions_ask_def Let_def ask_receives_def ask_cancelled_def ask_returns_def questions_forget_def
    upd_question_def deliveries_def split: list.splits\<close>)

lemma delivered_steps:
  assumes "steps qs_step s t" "qs_inv s" "ref < qs_next s" "deliveries (qs_heap s ref) = [a]"
  shows "qs_inv t \<and> ref < qs_next t \<and> qu_asked (qs_heap t ref) = qu_asked (qs_heap s ref) \<and> deliveries (qs_heap t ref) = [a]"
  using assms
proof (induction rule: steps.induct)
  case (steps_step s t u)
  then show ?case using delivered_step [of t u ref a] qs_step_inv [of t u] by auto
qed simp

text \<open>
  C14. An accepted answer goes to the one question of that id, which takes such an answer; from then on
  nothing else reaches that question, and every further answer to the id is refused because nothing
  waits for it. A refused answer changes nothing.
\<close>

theorem question_answered_once:
  assumes "reachable NewQuestions qs_step s"
  shows "case questions_Answer i a s of
      (Some e, s') \<Rightarrow> s' = s
    | (None, s') \<Rightarrow> (\<exists>ref < qs_next s. an_id (qu_asked (qs_heap s ref)) = i \<and> accepts (qu_asked (qs_heap s ref)) a = None
        \<and> (steps qs_step s' t \<longrightarrow> deliveries (qs_heap t ref) = [a] \<and> fst (questions_Answer i b t) = Some (NoQuestion i)))"
proof (cases "map_of (qs_pending s) i")
  case (Some ref)
  have inv: "qs_inv s" by (rule broker.reachable_inv [OF assms])
  note d = qs_invD [OF inv Some]
  show ?thesis
  proof (cases "accepts (qu_asked (qs_heap s ref)) a")
    case None
    let ?s = "snd (questions_Answer i a s)"
    have n: "qs_next ?s = qs_next s" "deliveries (qs_heap ?s ref) = [a]" "qu_asked (qs_heap ?s ref) = qu_asked (qs_heap s ref)"
      using Some None d(3) by (auto simp: questions_Answer_def questions_forget_def upd_question_def deliveries_def)
    have "deliveries (qs_heap t ref) = [a] \<and> fst (questions_Answer i b t) = Some (NoQuestion i)" if st: "steps qs_step ?s t"
    proof -
      from delivered_steps [OF st Answer_inv [OF inv]] n d(1) have
        t: "qs_inv t" "ref < qs_next t" "an_id (qu_asked (qs_heap t ref)) = i" "deliveries (qs_heap t ref) = [a]"
        using d(2) by auto
      have "map_of (qs_pending t) i = None"
      proof (rule ccontr)
        assume "map_of (qs_pending t) i \<noteq> None"
        then obtain r where r: "map_of (qs_pending t) i = Some r" by auto
        from qs_invD [OF t(1) r] t(1-3) have "r = ref" by (auto simp: qs_inv_def)
        then show False using qs_invD(3) [OF t(1) r] t(4) by simp
      qed
      then show ?thesis using t(4) by (simp add: questions_Answer_def)
    qed
    then show ?thesis using Some None d by (auto simp: questions_Answer_def)
  qed (use Some in \<open>simp add: questions_Answer_def\<close>)
qed (simp add: questions_Answer_def)

theorem question_answered_once_witness:
  "let s = snd (questions_ask (qu_asked no_question) NewQuestions); s' = snd (questions_Answer [] ''yes'' s) in
   fst (questions_Answer [] ''no'' s') = Some (NoQuestion []) \<and> deliveries (qs_heap s' 0) = [''yes'']"
proof -
  let ?s = "snd (questions_ask (qu_asked no_question) NewQuestions)"
  have r: "reachable NewQuestions qs_step ?s"
    by (rule reach_step, rule reach_start, rule qs_step.ask_step) (simp add: NewQuestions_def)
  have "fst (questions_Answer [] ''yes'' ?s) = None" by code_simp
  then obtain t where a: "questions_Answer [] ''yes'' ?s = (None, t)" by (metis prod.collapse)
  have n: "qs_next ?s = 1" by code_simp
  have "\<exists>ref < 1. deliveries (qs_heap t ref) = [''yes''] \<and> fst (questions_Answer [] ''no'' t) = Some (NoQuestion [])"
    using question_answered_once [OF r, of "[]" "''yes''" t "''no''"] steps_refl [of qs_step t] by (simp add: a n)
  then show ?thesis by (simp add: Let_def a)
qed

end
