(* ===== verification/Tool_Output.thy ===== *)
theory Tool_Output
  imports Prelude
begin

text \<open>
  \<^verbatim>\<open>tool/builtin/limits.go\<close> and \<^verbatim>\<open>bash.go\<close>: what a command prints, kept at both ends and streamed up to a
  budget, and the result of a call of the \<^verbatim>\<open>bash\<close> tool. The chunks given to the stream callback are
  recorded in \<open>ou_sent\<close>. What the executor answers is an argument.
\<close>

section \<open>Captured output\<close>

definition maxOutputBytes :: nat where
  "maxOutputBytes = 32 * 1024"

definition outputHeadBytes :: nat where
  "outputHeadBytes = 20 * 1024"

definition outputTailBytes :: nat where
  "outputTailBytes = maxOutputBytes - outputHeadBytes"

lemma output_sizes: "outputHeadBytes = 20480" "outputTailBytes = 12288" "maxOutputBytes = 32768"
  by (simp_all add: maxOutputBytes_def outputHeadBytes_def outputTailBytes_def)

record output_buffer =
  ou_head :: string
  ou_tail :: string
  ou_total :: nat
  ou_streamed :: nat
  ou_streams :: bool
  ou_sent :: "string list"

definition new_output :: "bool \<Rightarrow> output_buffer" where
  "new_output streams = \<lparr>ou_head = [], ou_tail = [], ou_total = 0, ou_streamed = 0, ou_streams = streams, ou_sent = []\<rparr>"

definition streams_on :: string where
  "streams_on = nl @ ''... output continues; the rest arrives with the result.'' @ nl"

definition forward :: "string \<Rightarrow> output_buffer \<Rightarrow> output_buffer" where
  "forward p w =
    (if \<not> ou_streams w \<or> ou_streamed w > maxOutputBytes then w
     else
       let room = maxOutputBytes - ou_streamed w in
       if length p \<le> room then w\<lparr>ou_streamed := ou_streamed w + length p, ou_sent := ou_sent w @ [p]\<rparr>
       else w\<lparr>ou_streamed := maxOutputBytes + 1,
              ou_sent := ou_sent w @ (if room > 0 then [take room p] else []) @ [streams_on]\<rparr>)"

definition output_Write :: "string \<Rightarrow> output_buffer \<Rightarrow> output_buffer" where
  "output_Write p w =
    (let w = forward p (w\<lparr>ou_total := ou_total w + length p\<rparr>);
         room = outputHeadBytes - length (ou_head w);
         taken = (if room > 0 then min room (length p) else 0);
         w = w\<lparr>ou_head := ou_head w @ take taken p\<rparr>;
         p = drop taken p in
     if length p > 0 then
       let tl = ou_tail w @ p in
       w\<lparr>ou_tail := (if length tl > outputTailBytes then drop (length tl - outputTailBytes) tl else tl)\<rparr>
     else w)"

definition truncated_note :: "int \<Rightarrow> nat \<Rightarrow> nat \<Rightarrow> string" where
  "truncated_note dropped h t = nl @ nl @ ''... ['' @ itoa dropped @ '' bytes truncated, showing the first '' @ itoa (int h)
     @ '' and the last '' @ itoa (int t) @ ''] ...'' @ nl @ nl"

definition output_String :: "output_buffer \<Rightarrow> string" where
  "output_String w =
    (let dropped = int (ou_total w) - int (length (ou_head w)) - int (length (ou_tail w)) in
     if ou_tail w = [] \<or> dropped \<le> 0 then ou_head w @ ou_tail w
     else ou_head w @ truncated_note dropped (length (ou_head w)) (length (ou_tail w)) @ ou_tail w)"

section \<open>The bash tool\<close>

definition second :: int where
  "second = 1000000000"

definition defaultBashTimeout :: int where
  "defaultBashTimeout = 2 * 60 * second"

definition maxBashTimeout :: int where
  "maxBashTimeout = 10 * 60 * second"

text \<open>A \<^verbatim>\<open>time.Duration\<close> is a 64-bit count of nanoseconds; the argument is a 64-bit integer.\<close>

definition bash_timeout :: "int \<Rightarrow> int" where
  "bash_timeout secs = (if secs > 0 then min (wrap64 (secs * second)) maxBashTimeout else defaultBashTimeout)"

text \<open>How Go prints a duration.\<close>

definition frac_text :: "nat \<Rightarrow> nat \<Rightarrow> string" where
  "frac_text prec v =
    (let ds = digits v; ds = replicate (prec - length ds) (CHR ''0'') @ ds;
         ds = rev (dropWhile (\<lambda>c. c = CHR ''0'') (rev ds)) in
     if ds = [] then [] else CHR ''.'' # ds)"

definition duration_String :: "int \<Rightarrow> string" where
  "duration_String d =
    (let u = nat \<bar>d\<bar>; sign = (if d < 0 then ''-'' else []); secs = u div 10 ^ 9 in
     if u = 0 then ''0s''
     else if u < 10 ^ 3 then sign @ digits u @ ''ns''
     else if u < 10 ^ 6 then sign @ digits (u div 10 ^ 3) @ frac_text 3 (u mod 10 ^ 3) @ [byte 0xC2, byte 0xB5] @ ''s''
     else if u < 10 ^ 9 then sign @ digits (u div 10 ^ 6) @ frac_text 6 (u mod 10 ^ 6) @ ''ms''
     else sign @ (if secs \<ge> 3600 then digits (secs div 3600) @ ''h'' else [])
       @ (if secs \<ge> 60 then digits (secs div 60 mod 60) @ ''m'' else [])
       @ digits (secs mod 60) @ frac_text 9 (u mod 10 ^ 9) @ ''s'')"

record exec_result =
  x_exit :: int
  x_timed_out :: bool

record tool_reply =
  tr_content :: string
  tr_is_error :: bool
  tr_details :: "(int \<times> bool) option"

definition tool_failed :: "string \<Rightarrow> tool_reply" where
  "tool_failed msg = \<lparr>tr_content = msg, tr_is_error = True, tr_details = None\<rparr>"

text \<open>
  \<open>exec\<close> is the executor: from the command and its timeout to the chunks it writes and how it ended.
  The encoding of an integer and a boolean as JSON cannot fail.
\<close>

definition bash_Call :: "(string \<Rightarrow> int \<Rightarrow> string list \<times> (string + exec_result)) \<Rightarrow> string \<Rightarrow> int \<Rightarrow> tool_reply \<times> string list" where
  "bash_Call exec command secs =
    (if trim_space command = [] then (tool_failed ''bash: command is required'', [])
     else
       let timeout = bash_timeout secs; (chunks, r) = exec command timeout;
           out = fold output_Write chunks (new_output True) in
       case r of
         Inl e \<Rightarrow> (tool_failed (''bash: '' @ e), ou_sent out)
       | Inr res \<Rightarrow>
           let b = output_String out @
                 (if x_timed_out res then nl @ nl @ ''command timed out after '' @ duration_String timeout @ '' and was killed''
                  else if x_exit res \<noteq> 0 then nl @ nl @ ''exit code '' @ itoa (x_exit res) else []);
               content = trim_space b in
           (\<lparr>tr_content = (if content = [] then ''(no output)'' else content),
             tr_is_error = x_timed_out res \<or> x_exit res \<noteq> 0, tr_details = Some (x_exit res, x_timed_out res)\<rparr>, ou_sent out))"

section \<open>What is kept\<close>

definition last_bytes :: "nat \<Rightarrow> string \<Rightarrow> string" where
  "last_bytes n s = drop (length s - n) s"

text \<open>What was written so far decides the state, whatever the chunks.\<close>

definition captures :: "string \<Rightarrow> output_buffer \<Rightarrow> bool" where
  "captures s w \<longleftrightarrow> ou_head w = take outputHeadBytes s \<and> ou_tail w = last_bytes outputTailBytes (drop outputHeadBytes s)
     \<and> ou_total w = length s
     \<and> (ou_streams w \<longrightarrow> ou_streamed w = (if length s \<le> maxOutputBytes then length s else maxOutputBytes + 1)
          \<and> concat (ou_sent w) = (if length s \<le> maxOutputBytes then s else take maxOutputBytes s @ streams_on))"

lemma last_bytes_append: "last_bytes n (last_bytes n s @ p) = last_bytes n (s @ p)"
  by (cases "n \<le> length s") (auto simp: last_bytes_def add.commute)

lemma forward_keeps [simp]:
  "ou_head (forward p w) = ou_head w" "ou_tail (forward p w) = ou_tail w" "ou_total (forward p w) = ou_total w"
  "ou_streams (forward p w) = ou_streams w"
  by (simp_all add: forward_def Let_def)

lemma Write_streams:
  "ou_streams (output_Write p w) = ou_streams w" "ou_total (output_Write p w) = ou_total w + length p"
  "ou_streamed (output_Write p w) = ou_streamed (forward p w)" "ou_sent (output_Write p w) = ou_sent (forward p w)"
  by (simp_all add: output_Write_def forward_def Let_def)

lemma Write_head:
  assumes "ou_head w = take outputHeadBytes s"
  shows "ou_head (output_Write p w) = take outputHeadBytes (s @ p)"
  using assms by (auto simp: output_Write_def Let_def min_def)

lemma Write_tail:
  assumes "ou_head w = take outputHeadBytes s" "ou_tail w = last_bytes outputTailBytes (drop outputHeadBytes s)"
  shows "ou_tail (output_Write p w) = last_bytes outputTailBytes (drop outputHeadBytes (s @ p))"
proof -
  let ?p = "drop (outputHeadBytes - length s) p"
  have d: "drop outputHeadBytes (s @ p) = drop outputHeadBytes s @ ?p" by simp
  have h: "outputHeadBytes - length (ou_head w) = outputHeadBytes - length s" using assms(1) by simp
  have t: "(if n > 0 then min n (length p) else 0) = min n (length p)" for n by simp
  have e: "drop (min n (length p)) p = drop n p" for n by (simp add: min_def)
  have "ou_tail (output_Write p w) = (if ?p = [] then ou_tail w else last_bytes outputTailBytes (ou_tail w @ ?p))"
    unfolding output_Write_def Let_def forward_keeps by (simp add: h t e last_bytes_def ac_simps)
  then show ?thesis unfolding d assms(2) by (auto simp: last_bytes_append)
qed

lemma Write_captures:
  assumes "captures s w"
  shows "captures (s @ p) (output_Write p w)"
proof -
  have "ou_streamed (forward p w) = (if length (s @ p) \<le> maxOutputBytes then length (s @ p) else maxOutputBytes + 1)
     \<and> concat (ou_sent (forward p w)) = (if length (s @ p) \<le> maxOutputBytes then s @ p else take maxOutputBytes (s @ p) @ streams_on)"
    if "ou_streams w"
    using assms that unfolding captures_def forward_def Let_def by (auto split: if_splits)
  then show ?thesis using assms by (simp add: captures_def Write_streams Write_head Write_tail)
qed

lemma Writes_capture: "captures s w \<Longrightarrow> captures (s @ concat chunks) (fold output_Write chunks w)"
proof (induction chunks arbitrary: s w)
  case (Cons c chunks)
  from Cons.IH [OF Write_captures [OF Cons.prems(1)]] show ?case by simp
qed simp

text \<open>
  C21. What a tool returns of a command's output depends on the bytes the command printed and not on how
  they arrived: all of them up to the budget, and otherwise the first and the last bytes around a note
  of how many are missing. The stream gets the same bytes up to the budget and then one notice.
\<close>

theorem output_exact:
  "let w = fold output_Write chunks (new_output True); s = concat chunks;
       missing = int (length s) - int maxOutputBytes in
   output_String w = (if missing \<le> 0 then s
     else take outputHeadBytes s @ truncated_note missing outputHeadBytes outputTailBytes @ last_bytes outputTailBytes s)
   \<and> concat (ou_sent w) = (if missing \<le> 0 then s else take maxOutputBytes s @ streams_on)"
proof -
  let ?w = "fold output_Write chunks (new_output True)" let ?s = "concat chunks"
  have "captures ?s ?w" using Writes_capture [of "[]" "new_output True" chunks]
    by (simp add: captures_def new_output_def last_bytes_def)
  moreover have "ou_streams ?w"
  proof -
    have "ou_streams (fold output_Write chunks w) = ou_streams w" for w
      by (induction chunks arbitrary: w) (simp_all add: Write_streams)
    then show ?thesis by (simp add: new_output_def)
  qed
  ultimately show ?thesis
    by (auto simp: Let_def captures_def output_String_def output_sizes last_bytes_def)
qed



end
