(* ===== verification/Paths.thy ===== *)
theory Paths
  imports Prelude
begin

text \<open>
  \<^verbatim>\<open>executor/path.go\<close> and \<^verbatim>\<open>eikad/path.go\<close>: paths that stay below a workspace root. The functions of
  \<^verbatim>\<open>path/filepath\<close> they use are written out first, for a separator \<^verbatim>\<open>/\<close>. The symbolic links of the
  file system are the argument \<open>eval\<close>, which stands for \<^verbatim>\<open>filepath.EvalSymlinks\<close>.
\<close>

section \<open>Lexical paths\<close>

fun path_parts :: "string \<Rightarrow> string list" where
  "path_parts [] = [[]]"
| "path_parts (c # s) =
    (if c = CHR ''/'' then [] # path_parts s
     else (case path_parts s of [] \<Rightarrow> [[c]] | p # ps \<Rightarrow> (c # p) # ps))"

abbreviation slash :: string where
  "slash \<equiv> ''/''"

definition IsAbs :: "string \<Rightarrow> bool" where
  "IsAbs s = prefix slash s"

definition clean_step :: "bool \<Rightarrow> string list \<Rightarrow> string \<Rightarrow> string list" where
  "clean_step rooted acc c =
    (if c = [] \<or> c = ''.'' then acc
     else if c = ''..'' then
       (case acc of [] \<Rightarrow> if rooted then [] else [c] | x # xs \<Rightarrow> if x = ''..'' then c # acc else xs)
     else c # acc)"

definition clean_parts :: "bool \<Rightarrow> string list \<Rightarrow> string list" where
  "clean_parts rooted cs = rev (foldl (clean_step rooted) [] cs)"

definition Clean :: "string \<Rightarrow> string" where
  "Clean s =
    (let cs = clean_parts (IsAbs s) (path_parts s) in
     if IsAbs s then slash @ join_str slash cs else if cs = [] then ''.'' else join_str slash cs)"

definition path_Join :: "string \<Rightarrow> string \<Rightarrow> string" where
  "path_Join a b = (if a \<noteq> [] then Clean (a @ slash @ b) else if b \<noteq> [] then Clean b else [])"

fun drop_common :: "'a list \<Rightarrow> 'a list \<Rightarrow> 'a list \<times> 'a list" where
  "drop_common (x # xs) (y # ys) = (if x = y then drop_common xs ys else (x # xs, y # ys))"
| "drop_common xs ys = (xs, ys)"

definition path_elems :: "string \<Rightarrow> string list" where
  "path_elems s = (let s = (if IsAbs s then tl s else s) in if s = [] then [] else path_parts s)"

definition path_Rel :: "string \<Rightarrow> string \<Rightarrow> string option" where
  "path_Rel base targ =
    (let base = Clean base; targ = Clean targ in
     if targ = base then Some ''.''
     else
       let base = (if base = ''.'' then [] else base) in
       if IsAbs base \<noteq> IsAbs targ then None
       else
         let (b, t) = drop_common (path_elems base) (path_elems targ) in
         if b = [''..''] then None else Some (join_str slash (replicate (length b) ''..'' @ t)))"

fun last_slash :: "string \<Rightarrow> nat" where
  "last_slash [] = 0"
| "last_slash (c # s) = (if CHR ''/'' \<in> set s then Suc (last_slash s) else if c = CHR ''/'' then 1 else 0)"

definition path_Dir :: "string \<Rightarrow> string" where
  "path_Dir s = Clean (take (last_slash s) s)"

definition path_Base :: "string \<Rightarrow> string" where
  "path_Base s =
    (if s = [] then ''.''
     else let q = rev (dropWhile (\<lambda>c. c = CHR ''/'') (rev s)); b = drop (last_slash q) q in
       if b = [] then slash else b)"

section \<open>The executor's paths\<close>

datatype path_error = RootEmpty | OutsideRoot | NotRelative

definition Resolve :: "string \<Rightarrow> string \<Rightarrow> path_error + string" where
  "Resolve wsroot path =
    (if wsroot = [] then Inl RootEmpty
     else
       let wsroot = Clean wsroot; p = (if IsAbs path then path else path_Join wsroot path); p = Clean p in
       if p \<noteq> wsroot \<and> \<not> prefix (wsroot @ slash) p then Inl OutsideRoot else Inr p)"

definition Rel :: "string \<Rightarrow> string \<Rightarrow> path_error + string" where
  "Rel wsroot full =
    (case path_Rel (Clean wsroot) (Clean full) of
       None \<Rightarrow> Inl NotRelative
     | Some rel \<Rightarrow> if rel = ''..'' \<or> prefix (''..'' @ slash) rel then Inl OutsideRoot else Inr rel)"

section \<open>The daemon's paths\<close>

definition relativeTo :: "string \<Rightarrow> string \<Rightarrow> path_error + string" where
  "relativeTo wsroot path =
    (let path = trim_space path in
     if path = [] then Inr ''.''
     else
       case (if IsAbs path then path_Rel wsroot (Clean path) else Some path) of
         None \<Rightarrow> Inl OutsideRoot
       | Some path \<Rightarrow>
           let cleaned = Clean path in
           if cleaned = ''..'' \<or> prefix (''..'' @ slash) cleaned then Inl OutsideRoot else Inr cleaned)"

datatype eval_error = NotExist | EvalFailed string

text \<open>The loop goes up one directory at a time; \<open>fuel\<close> bounds how often.\<close>

fun resolve_up :: "nat \<Rightarrow> (string \<Rightarrow> eval_error + string) \<Rightarrow> string \<Rightarrow> string \<Rightarrow> (eval_error + string) option" where
  "resolve_up 0 eval cur rest = None"
| "resolve_up (Suc fuel) eval cur rest =
    (case eval cur of
       Inr resolved \<Rightarrow> Some (Inr (path_Join resolved rest))
     | Inl NotExist \<Rightarrow>
         (let parent = path_Dir cur in
          if parent = cur then Some (Inl NotExist)
          else resolve_up fuel eval parent (path_Join (path_Base cur) rest))
     | Inl (EvalFailed e) \<Rightarrow> Some (Inl (EvalFailed e)))"

definition resolveExisting :: "(string \<Rightarrow> eval_error + string) \<Rightarrow> string \<Rightarrow> (eval_error + string) option" where
  "resolveExisting eval p = resolve_up (Suc (length p)) eval p []"

definition within_root :: "string \<Rightarrow> string \<Rightarrow> bool" where
  "within_root wsroot p \<longleftrightarrow> p = wsroot \<or> prefix (wsroot @ slash) p"

datatype resolve_error = PathError path_error | EvalError eval_error

definition daemon_resolve :: "(string \<Rightarrow> eval_error + string) \<Rightarrow> string \<Rightarrow> string \<Rightarrow> (resolve_error + string) option" where
  "daemon_resolve eval wsroot path =
    (case relativeTo wsroot path of
       Inl e \<Rightarrow> Some (Inl (PathError e))
     | Inr rel \<Rightarrow>
         (case resolveExisting eval (path_Join wsroot rel) of
            None \<Rightarrow> None
          | Some (Inl e) \<Rightarrow> Some (Inl (EvalError e))
          | Some (Inr resolved) \<Rightarrow>
              if within_root wsroot resolved then Some (Inr resolved) else Some (Inl (PathError OutsideRoot))))"

section \<open>Components\<close>

definition good_part :: "string \<Rightarrow> bool" where
  "good_part c \<longleftrightarrow> c \<noteq> [] \<and> c \<noteq> ''.'' \<and> c \<noteq> ''..'' \<and> CHR ''/'' \<notin> set c"

definition abs_path :: "string list \<Rightarrow> string" where
  "abs_path cs = slash @ join_str slash cs"

lemma parts_nonempty [simp]: "path_parts s \<noteq> []"
  by (cases s) (auto split: list.splits)

lemma parts_no_slash: "c \<in> set (path_parts s) \<Longrightarrow> CHR ''/'' \<notin> set c"
proof (induction s arbitrary: c)
  case (Cons x s)
  then show ?case by (cases "path_parts s") (auto split: if_splits)
qed simp

lemma parts_append: "path_parts (a @ CHR ''/'' # b) = path_parts a @ path_parts b"
proof (induction a)
  case (Cons x a)
  then show ?case by (cases "path_parts a") (auto split: list.splits)
qed simp

lemma parts_plain: "CHR ''/'' \<notin> set c \<Longrightarrow> path_parts c = [c]"
  by (induction c) auto

lemma parts_join: "cs \<noteq> [] \<Longrightarrow> \<forall>c \<in> set cs. CHR ''/'' \<notin> set c \<Longrightarrow> path_parts (join_str slash cs) = cs"
proof (induction cs)
  case (Cons c cs)
  then show ?case by (cases cs) (simp_all add: parts_plain parts_append)
qed simp

lemma good_no_slash: "list_all good_part cs \<Longrightarrow> \<forall>c \<in> set cs. CHR ''/'' \<notin> set c"
  by (auto simp: list_all_iff good_part_def)

lemma good_join_nonempty: "cs \<noteq> [] \<Longrightarrow> list_all good_part cs \<Longrightarrow> join_str slash cs \<noteq> []"
  by (cases cs; cases "tl cs") (auto simp: good_part_def)

lemma clean_good: "list_all good_part cs \<Longrightarrow> foldl (clean_step r) acc cs = rev cs @ acc"
  by (induction cs arbitrary: acc) (auto simp: clean_step_def good_part_def)

lemma clean_step_good: "CHR ''/'' \<notin> set c \<Longrightarrow> list_all good_part acc \<Longrightarrow> list_all good_part (clean_step True acc c)"
  by (cases acc) (auto simp: clean_step_def good_part_def list_all_iff)

lemma clean_rooted_good:
  assumes "\<forall>c \<in> set cs. CHR ''/'' \<notin> set c" "list_all good_part acc"
  shows "list_all good_part (foldl (clean_step True) acc cs)"
  using assms
proof (induction cs arbitrary: acc)
  case (Cons c cs)
  then show ?case by (simp add: clean_step_good)
qed simp

lemma clean_parts_good: "list_all good_part (clean_parts True (path_parts s))"
  unfolding clean_parts_def using clean_rooted_good [of "path_parts s" "[]"] by (auto dest: parts_no_slash)

lemma Clean_abs: "IsAbs s \<Longrightarrow> Clean s = abs_path (clean_parts True (path_parts s))"
  by (simp add: Clean_def abs_path_def)

lemma IsAbs_abs [simp]: "IsAbs (abs_path cs)"
  by (simp add: IsAbs_def abs_path_def)

lemma parts_abs: "list_all good_part cs \<Longrightarrow> path_parts (abs_path cs) = [] # (if cs = [] then [[]] else cs)"
  by (simp add: abs_path_def parts_join good_no_slash)

lemma clean_skip [simp]: "clean_step r acc [] = acc"
  by (simp add: clean_step_def)

lemma clean_parts_abs: "list_all good_part cs \<Longrightarrow> foldl (clean_step True) [] (path_parts (abs_path cs)) = rev cs"
  by (simp add: parts_abs clean_good)

lemma Clean_abs_path: "list_all good_part cs \<Longrightarrow> Clean (abs_path cs) = abs_path cs"
  by (simp add: Clean_abs clean_parts_def clean_parts_abs)

lemma abs_path_inj: "list_all good_part cs \<Longrightarrow> list_all good_part ds \<Longrightarrow> abs_path cs = abs_path ds \<longleftrightarrow> cs = ds"
  by (metis clean_parts_abs rev_rev_ident)

lemma join_append: "cs \<noteq> [] \<Longrightarrow> ds \<noteq> [] \<Longrightarrow> join_str slash (cs @ ds) = join_str slash cs @ slash @ join_str slash ds"
proof (induction cs)
  case (Cons c cs)
  then show ?case by (cases cs; cases ds) auto
qed simp

text \<open>The prefix test on strings with a closing slash is the prefix test on components.\<close>

lemma under_iff:
  assumes "cs \<noteq> []" "list_all good_part cs" "list_all good_part ds"
  shows "prefix (abs_path cs @ slash) (abs_path ds) \<longleftrightarrow> strict_prefix cs ds"
proof
  assume "prefix (abs_path cs @ slash) (abs_path ds)"
  then obtain z where z: "abs_path ds = abs_path cs @ CHR ''/'' # z" by (auto simp: prefix_def)
  then have "path_parts (abs_path ds) = path_parts (abs_path cs) @ path_parts z" by (simp add: parts_append)
  then have "(if ds = [] then [[]] else ds) = cs @ path_parts z" using assms by (simp add: parts_abs)
  moreover have "ds \<noteq> []" using calculation assms(1) by (cases cs) (auto split: if_splits)
  ultimately show "strict_prefix cs ds" by (simp add: strict_prefix_def)
next
  assume "strict_prefix cs ds"
  then obtain e where "ds = cs @ e" "e \<noteq> []" by (auto simp: strict_prefix_def prefix_def)
  then show "prefix (abs_path cs @ slash) (abs_path ds)" using assms(1) by (simp add: abs_path_def join_append)
qed

lemma within_iff:
  assumes "cs \<noteq> []" "list_all good_part cs" "list_all good_part ds"
  shows "within_root (abs_path cs) (abs_path ds) \<longleftrightarrow> prefix cs ds"
  using under_iff [OF assms] abs_path_inj [OF assms(3,2)] by (auto simp: within_root_def strict_prefix_def)

lemma Clean_below:
  assumes "list_all good_part cs"
  shows "Clean (abs_path cs @ slash @ s) = abs_path (rev (foldl (clean_step True) (rev cs) (path_parts s)))"
proof -
  have "IsAbs (abs_path cs @ slash @ s)" by (simp add: IsAbs_def abs_path_def)
  then show ?thesis using assms by (simp add: Clean_abs clean_parts_def parts_append clean_parts_abs)
qed

lemma Join_below:
  "list_all good_part cs \<Longrightarrow> path_Join (abs_path cs) s = abs_path (rev (foldl (clean_step True) (rev cs) (path_parts s)))"
  using Clean_below by (simp add: path_Join_def abs_path_def)

text \<open>The components a request names, as a walk from the file system's root or from the workspace's.\<close>

definition target :: "string \<Rightarrow> string \<Rightarrow> string list" where
  "target wsroot path = clean_parts True (if IsAbs path then path_parts path else path_parts wsroot @ path_parts path)"

lemma target_good: "list_all good_part (target wsroot path)"
proof -
  have "\<forall>c \<in> set (if IsAbs path then path_parts path else path_parts wsroot @ path_parts path). CHR ''/'' \<notin> set c"
    by (auto dest: parts_no_slash)
  from clean_rooted_good [OF this, of "[]"] show ?thesis by (simp add: target_def clean_parts_def)
qed

lemma Resolve_target:
  assumes "IsAbs wsroot" and rc: "rc = clean_parts True (path_parts wsroot)"
  shows "Resolve wsroot path = (if abs_path (target wsroot path) \<noteq> abs_path rc \<and> \<not> prefix (abs_path rc @ slash) (abs_path (target wsroot path))
    then Inl OutsideRoot else Inr (abs_path (target wsroot path)))"
proof -
  have g: "list_all good_part rc" by (simp add: rc clean_parts_good)
  have "rev rc = foldl (clean_step True) [] (path_parts wsroot)" by (simp add: rc clean_parts_def)
  then have c: "Clean (if IsAbs path then path else path_Join (abs_path rc) path) = abs_path (target wsroot path)"
    using Join_below [OF g, of path] Clean_abs_path [OF target_good [of wsroot path]]
    by (cases "IsAbs path") (simp_all add: target_def clean_parts_def Clean_abs)
  have w: "wsroot \<noteq> []" "Clean wsroot = abs_path rc" using assms by (auto simp: IsAbs_def Clean_abs)
  show ?thesis unfolding Resolve_def Let_def w(2) c using w(1) by simp
qed

lemma elems_abs: "list_all good_part cs \<Longrightarrow> path_elems (abs_path cs) = cs"
  by (cases "cs = []") (simp_all add: path_elems_def abs_path_def IsAbs_def parts_join good_no_slash good_join_nonempty Let_def)

lemma drop_common_prefix: "drop_common cs (cs @ ds) = ([], ds)"
  by (induction cs) (cases ds, auto)

lemma Rel_below:
  assumes g: "list_all good_part cs" "list_all good_part ds" and d: "ds \<noteq> []"
  shows "path_Rel (abs_path cs) (abs_path (cs @ ds)) = Some (join_str slash ds)"
proof -
  have "abs_path cs \<noteq> ''.''" by (simp add: abs_path_def)
  then show ?thesis using assms
    by (simp add: path_Rel_def Clean_abs_path abs_path_inj elems_abs drop_common_prefix)
qed

lemma relative_join:
  assumes "list_all good_part ds" "ds \<noteq> []"
  shows "\<not> IsAbs (join_str slash ds)" "path_parts (join_str slash ds) = ds"
    "join_str slash ds \<noteq> ''..''" "\<not> prefix (''..'' @ slash) (join_str slash ds)"
proof -
  show p: "path_parts (join_str slash ds) = ds" using assms by (simp add: parts_join good_no_slash)
  obtain d es where ds: "ds = d # es" "good_part d" using assms by (cases ds) auto
  have a: False if "join_str slash ds = ''..'' @ CHR ''/'' # z" for z
    using p that ds parts_append [of "''..''" z] by (simp add: good_part_def)
  show "\<not> IsAbs (join_str slash ds)"
  proof
    assume "IsAbs (join_str slash ds)"
    then obtain z where "join_str slash ds = CHR ''/'' # z" by (auto simp: IsAbs_def prefix_def)
    then show False using p ds by (simp add: good_part_def)
  qed
  show "join_str slash ds \<noteq> ''..''" using p ds by (auto simp: good_part_def)
  show "\<not> prefix (''..'' @ slash) (join_str slash ds)" using a by (auto simp: prefix_def)
qed

text \<open>
  C20. A request resolves exactly when the components it names, counted from the workspace root unless it is
  absolute, extend those of the root, and then to the path of those components: neither \<^verbatim>\<open>..\<close> nor a
  directory whose name merely starts like the root's leads out. The relative form of a resolved path
  resolves to it again.
\<close>

theorem Resolve_exact:
  assumes "IsAbs wsroot" "clean_parts True (path_parts wsroot) \<noteq> []"
  shows "Resolve wsroot path = (if prefix (clean_parts True (path_parts wsroot)) (target wsroot path)
      then Inr (abs_path (target wsroot path)) else Inl OutsideRoot)
    \<and> (case Resolve wsroot path of
         Inl _ \<Rightarrow> True
       | Inr p \<Rightarrow> (case Rel wsroot p of Inl _ \<Rightarrow> False | Inr rel \<Rightarrow> Resolve wsroot rel = Inr p))"
proof -
  let ?rc = "clean_parts True (path_parts wsroot)" and ?t = "target wsroot path"
  note g = clean_parts_good [of wsroot] target_good [of wsroot path]
  have 1: "Resolve wsroot p = (if prefix ?rc (target wsroot p) then Inr (abs_path (target wsroot p)) else Inl OutsideRoot)" for p
    using Resolve_target [OF assms(1) refl, of p] within_iff [OF assms(2) g(1) target_good [of wsroot p]]
    by (auto simp: within_root_def)
  have "case Rel wsroot (abs_path ?t) of Inl _ \<Rightarrow> False | Inr rel \<Rightarrow> Resolve wsroot rel = Inr (abs_path ?t)" if pre: "prefix ?rc ?t"
  proof -
    obtain ds where ds: "?t = ?rc @ ds" using pre by (auto simp: prefix_def)
    then have gd: "list_all good_part ds" using g(2) by simp
    have again: "target wsroot rel = ?rc @ rev (foldl (clean_step True) [] (path_parts rel))"
      if "\<not> IsAbs rel" "rel = (if ds = [] then ''.'' else join_str slash ds)" for rel
      using that gd relative_join [OF gd] by (auto simp: target_def clean_parts_def clean_good) (simp add: clean_step_def)
    show ?thesis
    proof (cases "ds = []")
      case True
      have "Rel wsroot (abs_path ?t) = Inr ''.''"
        using ds True assms(1) g by (simp add: Rel_def Clean_abs Clean_abs_path [OF g(1)] path_Rel_def)
      moreover have "target wsroot ''.'' = ?rc" using True by (subst again) (simp_all add: IsAbs_def clean_step_def)
      ultimately show ?thesis using 1 [of "''.''"] ds True by simp
    next
      case False
      have "Rel wsroot (abs_path ?t) = Inr (join_str slash ds)"
        using ds False assms(1) g gd relative_join [OF gd False] Rel_below [OF g(1) gd False]
        by (simp add: Rel_def Clean_abs [OF assms(1)] Clean_abs_path)
      moreover have "target wsroot (join_str slash ds) = ?rc @ ds"
        using False gd relative_join [OF gd False] by (subst again) (simp_all add: clean_good)
      ultimately show ?thesis using 1 [of "join_str slash ds"] ds by simp
    qed
  qed
  then show ?thesis unfolding 1 [of path] by simp
qed

theorem Resolve_exact_witness:
  "Resolve ''/work'' ''../workspace/x'' = Inl OutsideRoot \<and> Resolve ''/work'' ''a/./b/../c'' = Inr ''/work/a/c''"
proof -
  have r: "IsAbs ''/work''" "clean_parts True (path_parts ''/work'') \<noteq> []" by code_simp+
  have "\<not> prefix (clean_parts True (path_parts ''/work'')) (target ''/work'' ''../workspace/x'')"
    "prefix (clean_parts True (path_parts ''/work'')) (target ''/work'' ''a/./b/../c'')"
    "abs_path (target ''/work'' ''a/./b/../c'') = ''/work/a/c''" by code_simp+
  then show ?thesis using Resolve_exact [OF r, of "''../workspace/x''"] Resolve_exact [OF r, of "''a/./b/../c''"] by simp
qed

text \<open>With the file system's root as workspace root every other path is refused.\<close>

lemma Resolve_slash_refuses: "Resolve slash path = Inl OutsideRoot \<or> Resolve slash path = Inr slash"
proof -
  have "clean_parts True (path_parts slash) = []" by code_simp
  moreover have "IsAbs slash" by code_simp
  moreover have "\<not> prefix (abs_path [] @ slash) (abs_path (target slash path))"
  proof
    assume "prefix (abs_path [] @ slash) (abs_path (target slash path))"
    then obtain z where "abs_path (target slash path) = CHR ''/'' # CHR ''/'' # z" by (auto simp: prefix_def abs_path_def)
    then have p: "path_parts (abs_path (target slash path)) = [] # [] # path_parts z" by simp
    show False using p parts_abs [OF target_good [of slash path]] target_good [of slash path]
      by (cases "target slash path") (auto simp: good_part_def)
  qed
  ultimately show ?thesis using Resolve_target [of slash "[]" path] by (auto simp: abs_path_def)
qed

section \<open>The daemon stays inside\<close>

lemma last_slash_last: "CHR ''/'' \<notin> set b \<Longrightarrow> last_slash (a @ CHR ''/'' # b) = Suc (length a)"
  by (induction a) auto

lemma abs_path_snoc: "abs_path (ds @ [c]) = (if ds = [] then [] else abs_path ds) @ CHR ''/'' # c"
  by (cases "ds = []") (simp_all add: abs_path_def join_append)

lemma Dir_abs:
  assumes "list_all good_part (ds @ [c])"
  shows "path_Dir (abs_path (ds @ [c])) = abs_path ds"
proof -
  have "CHR ''/'' \<notin> set c" using assms by (simp add: good_part_def)
  then have "path_Dir (abs_path (ds @ [c])) = Clean ((if ds = [] then [] else abs_path ds) @ slash)"
    by (simp add: path_Dir_def abs_path_snoc last_slash_last)
  also have "\<dots> = abs_path ds"
    using assms Clean_below [of ds "[]"] Clean_abs_path [of "[]"] by (auto simp: abs_path_def)
  finally show ?thesis .
qed

lemma Base_abs:
  assumes "list_all good_part (ds @ [c])"
  shows "path_Base (abs_path (ds @ [c])) = c"
proof -
  have c: "CHR ''/'' \<notin> set c" "c \<noteq> []" using assms by (auto simp: good_part_def)
  then have "dropWhile (\<lambda>x. x = CHR ''/'') (rev c @ xs) = rev c @ xs" for xs
    by (cases c rule: rev_cases) auto
  then show ?thesis using c by (simp add: path_Base_def abs_path_snoc last_slash_last)
qed

lemma Join_parts:
  assumes "list_all good_part (c # es)"
  shows "path_Join c (join_str slash es) = join_str slash (c # es)"
proof -
  have c: "CHR ''/'' \<notin> set c" "c \<noteq> []" "hd c \<noteq> CHR ''/''" using assms by (auto simp: good_part_def) (metis list.set_sel(1))
  have "path_parts (c @ slash @ join_str slash es) = c # (if es = [] then [[]] else es)"
    using parts_plain [OF c(1)] assms parts_join [OF _ good_no_slash, of es] by (simp add: parts_append)
  moreover have "\<not> IsAbs (c @ slash @ join_str slash es)" using c by (cases c) (auto simp: IsAbs_def)
  ultimately show ?thesis using assms c clean_good [of "c # es" False "[]"] clean_good [of "[c]" False "[]"]
    by (simp add: path_Join_def Clean_def clean_parts_def)
qed

text \<open>The loop ends, at the longest prefix that exists.\<close>

lemma resolve_up_ends:
  assumes "length cs < fuel" "list_all good_part (cs @ es)"
  shows "\<exists>k \<le> length cs. (\<forall>j. k < j \<and> j \<le> length cs \<longrightarrow> eval (abs_path (take j cs)) = Inl NotExist)
    \<and> resolve_up fuel eval (abs_path cs) (join_str slash es) =
      Some (case eval (abs_path (take k cs)) of
              Inl e \<Rightarrow> Inl e | Inr r \<Rightarrow> Inr (path_Join r (join_str slash (drop k cs @ es))))"
  using assms
proof (induction fuel arbitrary: cs es)
  case (Suc fuel)
  show ?case
  proof (cases "eval (abs_path cs) = Inl NotExist \<and> cs \<noteq> []")
    case True
    then obtain ds c where cs: "cs = ds @ [c]" by (metis rev_exhaust)
    have g: "list_all good_part (ds @ [c])" "list_all good_part (c # es)" using Suc.prems(2) cs by auto
    have "abs_path ds \<noteq> abs_path cs" using cs g(1) by (simp add: abs_path_inj)
    then have step: "resolve_up (Suc fuel) eval (abs_path cs) (join_str slash es) =
        resolve_up fuel eval (abs_path ds) (join_str slash (c # es))"
      using True cs Dir_abs [OF g(1)] Base_abs [OF g(1)] Join_parts [OF g(2)] by simp
    have "length ds < fuel" "list_all good_part (ds @ c # es)" using Suc.prems cs by auto
    from Suc.IH [OF this] obtain k where k: "k \<le> length ds"
      "\<forall>j. k < j \<and> j \<le> length ds \<longrightarrow> eval (abs_path (take j ds)) = Inl NotExist"
      "resolve_up fuel eval (abs_path ds) (join_str slash (c # es)) = Some (case eval (abs_path (take k ds)) of
          Inl e \<Rightarrow> Inl e | Inr r \<Rightarrow> Inr (path_Join r (join_str slash (drop k ds @ c # es))))" by blast
    have j: "eval (abs_path (take j cs)) = Inl NotExist" if "k < j" "j \<le> length cs" for j
      using k(2) that True cs by (cases "j = length cs") auto
    have d: "take k cs = take k ds" "drop k cs @ es = drop k ds @ c # es" "k \<le> length cs" using k(1) cs by auto
    have "resolve_up (Suc fuel) eval (abs_path cs) (join_str slash es) = Some (case eval (abs_path (take k cs)) of
        Inl e \<Rightarrow> Inl e | Inr r \<Rightarrow> Inr (path_Join r (join_str slash (drop k cs @ es))))"
      unfolding step k(3) d(1,2) ..
    then show ?thesis using j d(3) by blast
  next
    case False
    have "path_Dir (abs_path []) = abs_path []" by code_simp
    then show ?thesis using False
      by (intro exI [of _ "length cs"]) (auto split: sum.splits eval_error.splits)
  qed
qed simp

lemma length_abs: "length cs \<le> length (abs_path cs)"
proof -
  have "length cs \<le> Suc (length (join_str slash cs))"
  proof (induction cs)
    case (Cons c cs)
    then show ?case by (cases cs) auto
  qed simp
  then show ?thesis by (simp add: abs_path_def)
qed

lemma Join_clean: "\<exists>s. path_Join a b = Clean s \<or> path_Join a b = []"
  by (auto simp: path_Join_def)

lemma clean_named:
  assumes "\<forall>c \<in> set cs. CHR ''/'' \<notin> set c" "\<forall>c \<in> set acc. c \<noteq> [] \<and> CHR ''/'' \<notin> set c"
  shows "\<forall>c \<in> set (foldl (clean_step r) acc cs). c \<noteq> [] \<and> CHR ''/'' \<notin> set c"
  using assms
proof (induction cs arbitrary: acc)
  case (Cons c cs)
  have "\<forall>x \<in> set (clean_step r acc c). x \<noteq> [] \<and> CHR ''/'' \<notin> set x"
    using Cons.prems(1,2) by (cases acc) (simp_all add: clean_step_def)
  from Cons.IH [OF _ this] Cons.prems(1) show ?case by simp
qed simp

lemma Clean_relative:
  assumes "\<not> IsAbs s"
  shows "\<not> IsAbs (Clean s)"
proof -
  let ?cs = "clean_parts False (path_parts s)"
  have n: "\<forall>c \<in> set ?cs. c \<noteq> [] \<and> CHR ''/'' \<notin> set c"
    unfolding clean_parts_def using clean_named [of "path_parts s" "[]" False] by (auto dest: parts_no_slash)
  have "\<not> IsAbs (join_str slash ?cs)"
  proof (cases ?cs)
    case (Cons c cs)
    then obtain x y where "c = x # y" "x \<noteq> CHR ''/''" using n by (cases c) auto
    then show ?thesis using Cons by (cases cs) (auto simp: IsAbs_def)
  qed (simp add: IsAbs_def)
  then show ?thesis using assms by (simp add: Clean_def Let_def) (simp add: IsAbs_def)
qed

lemma within_clean:
  assumes "within_root (abs_path rc) (Clean s)" "rc \<noteq> []" "list_all good_part rc"
  shows "\<exists>ds. list_all good_part ds \<and> Clean s = abs_path (rc @ ds)"
proof (cases "IsAbs s")
  case True
  note g = clean_parts_good [of s]
  have "prefix rc (clean_parts True (path_parts s))"
    using assms within_iff [OF assms(2,3) g] by (simp add: Clean_abs [OF True])
  then show ?thesis using g by (auto simp: Clean_abs [OF True] prefix_def)
next
  case False
  have "IsAbs (Clean s)" using assms(1) by (auto simp: within_root_def IsAbs_def abs_path_def prefix_def)
  moreover have "\<not> IsAbs (Clean s)" by (rule Clean_relative [OF False])
  ultimately show ?thesis by simp
qed

text \<open>
  C10. Whatever the symbolic links are, the daemon answers, and a path it accepts lies in the workspace:
  its components are those of the root followed by proper names. It is the longest prefix of the
  request that exists, with its links resolved, and the names that do not exist yet below it.
\<close>

theorem daemon_resolve_confined:
  assumes "rc \<noteq> []" "list_all good_part rc"
  shows "case daemon_resolve eval (abs_path rc) path of
      None \<Rightarrow> False
    | Some (Inl _) \<Rightarrow> True
    | Some (Inr p) \<Rightarrow> (\<exists>ds. list_all good_part ds \<and> p = abs_path (rc @ ds))
        \<and> (\<exists>cs k r. k \<le> length cs \<and> (\<forall>j. k < j \<and> j \<le> length cs \<longrightarrow> eval (abs_path (take j cs)) = Inl NotExist)
             \<and> eval (abs_path (take k cs)) = Inr r \<and> p = path_Join r (join_str slash (drop k cs)))"
proof (cases "relativeTo (abs_path rc) path")
  case (Inr rel)
  let ?cs = "rev (foldl (clean_step True) (rev rc) (path_parts rel))"
  have g: "list_all good_part ?cs"
    using clean_rooted_good [of "path_parts rel" "rev rc"] assms(2) by (auto dest: parts_no_slash)
  have j: "path_Join (abs_path rc) rel = abs_path ?cs" by (rule Join_below [OF assms(2)])
  have "length ?cs < Suc (length (abs_path ?cs))" using length_abs by (simp only: less_Suc_eq_le)
  from resolve_up_ends [OF this, of "[]" eval, unfolded append_Nil2 join_str.simps(1), OF g] obtain k where k: "k \<le> length ?cs"
    "\<forall>j. k < j \<and> j \<le> length ?cs \<longrightarrow> eval (abs_path (take j ?cs)) = Inl NotExist"
    "resolveExisting eval (abs_path ?cs) = Some (case eval (abs_path (take k ?cs)) of
        Inl e \<Rightarrow> Inl e | Inr r \<Rightarrow> Inr (path_Join r (join_str slash (drop k ?cs))))"
    unfolding resolveExisting_def by blast
  show ?thesis
  proof (cases "eval (abs_path (take k ?cs))")
    case (Inr r)
    let ?p = "path_Join r (join_str slash (drop k ?cs))"
    have d: "daemon_resolve eval (abs_path rc) path =
        (if within_root (abs_path rc) ?p then Some (Inr ?p) else Some (Inl (PathError OutsideRoot)))"
      unfolding daemon_resolve_def \<open>relativeTo (abs_path rc) path = Inr rel\<close> j sum.case k(3) Inr by simp
    have "\<exists>ds. list_all good_part ds \<and> ?p = abs_path (rc @ ds)" if w: "within_root (abs_path rc) ?p"
    proof -
      have "?p \<noteq> []" using w by (auto simp: within_root_def abs_path_def)
      then obtain s where s: "?p = Clean s" using Join_clean by blast
      show ?thesis using within_clean [of rc s] w assms unfolding s by blast
    qed
    then show ?thesis unfolding d using k(1,2) Inr by (auto intro!: exI [of _ ?cs] exI [of _ k])
  qed (simp add: daemon_resolve_def Inr j k(3))
qed (simp add: daemon_resolve_def)

theorem daemon_resolve_confined_witness:
  "daemon_resolve (\<lambda>p. if p = ''/w/a'' then Inr ''/etc'' else if p = ''/w'' then Inr ''/w'' else Inl NotExist) ''/w'' ''b/c''
     = Some (Inr ''/w/b/c'')
   \<and> daemon_resolve (\<lambda>p. if p = ''/w/a'' then Inr ''/etc'' else Inl NotExist) ''/w'' ''a/x'' = Some (Inl (PathError OutsideRoot))
   \<and> (\<exists>ds. list_all good_part ds \<and> ''/w/b/c'' = abs_path ([''w''] @ ds))"
proof -
  let ?e = "\<lambda>p. if p = ''/w/a'' then Inr ''/etc'' else if p = ''/w'' then Inr ''/w'' else Inl NotExist"
  have r: "abs_path [''w''] = ''/w''" "list_all good_part [''w'']" by code_simp+
  have d: "daemon_resolve ?e ''/w'' ''b/c'' = Some (Inr ''/w/b/c'')" by code_simp
  have "daemon_resolve (\<lambda>p. if p = ''/w/a'' then Inr ''/etc'' else Inl NotExist) ''/w'' ''a/x'' = Some (Inl (PathError OutsideRoot))"
    by code_simp
  then show ?thesis using daemon_resolve_confined [of "[''w'']" ?e "''b/c''"] r d by simp
qed

end
