(* ===== verification/Context_Files.thy ===== *)
theory Context_Files
  imports Paths
begin

text \<open>
  \<^verbatim>\<open>contextfile/contextfile.go\<close>: the files of instructions that apply to a directory of a workspace, from
  the most general to the most specific, and the section of the prompt they become. The executor is
  the two arguments \<open>stat\<close> and \<open>readf\<close>; the second returns what is left of the file within
  \<open>maxFileBytes\<close>.
\<close>

definition NameAgents :: string where "NameAgents = ''AGENTS.md''"

definition NameClaude :: string where "NameClaude = ''CLAUDE.md''"

definition NameOverride :: string where "NameOverride = ''AGENTS.override.md''"

definition DefaultGlobalPath :: string where "DefaultGlobalPath = ''.config/eika/AGENTS.md''"

definition maxFileBytes :: nat where "maxFileBytes = 64 * 1024"

record instructions_file =
  cf_path :: string
  cf_content :: string

datatype stat_error = StatNotFound | StatFailed string

record executor =
  ex_stat :: "string \<Rightarrow> stat_error + bool"
  ex_read :: "nat \<Rightarrow> string \<Rightarrow> string + string"

definition read_context :: "executor \<Rightarrow> string \<Rightarrow> string + instructions_file option" where
  "read_context ex p =
    (case ex_stat ex p of
       Inl StatNotFound \<Rightarrow> Inr None
     | Inl (StatFailed e) \<Rightarrow> Inl (''stat context file '' @ p @ '': '' @ e)
     | Inr isDir \<Rightarrow>
         if isDir then Inr None
         else (case ex_read ex maxFileBytes p of
                 Inl e \<Rightarrow> Inl (''read context file '' @ p @ '': '' @ e)
               | Inr data \<Rightarrow>
                   let content = trim_space data in
                   if content = [] then Inr None else Inr (Some \<lparr>cf_path = p, cf_content = content\<rparr>)))"

fun read_first :: "executor \<Rightarrow> string list \<Rightarrow> string + instructions_file option" where
  "read_first ex [] = Inr None"
| "read_first ex (p # ps) =
    (case read_context ex p of Inl e \<Rightarrow> Inl e | Inr (Some f) \<Rightarrow> Inr (Some f) | Inr None \<Rightarrow> read_first ex ps)"

definition readDir :: "executor \<Rightarrow> string \<Rightarrow> string + instructions_file option" where
  "readDir ex dir = read_first ex (map (path_Join dir) [NameOverride, NameAgents, NameClaude])"

fun path_Join_all :: "string list \<Rightarrow> string" where
  "path_Join_all [] = []"
| "path_Join_all (p # ps) = (if p \<noteq> [] then Clean (join_str slash (p # ps)) else path_Join_all ps)"

definition directories :: "string \<Rightarrow> string list" where
  "directories dir =
    (let clean = Clean (trim_prefix slash (map (\<lambda>c. if c = CHR 0x5C then CHR ''/'' else c) dir)) in
     if clean = ''.'' \<or> clean = [] \<or> prefix ''..'' clean then [''.'']
     else let parts = path_parts clean in ''.'' # map (\<lambda>i. path_Join_all (take (Suc i) parts)) [0..<length parts])"

fun discover_dirs :: "executor \<Rightarrow> string \<Rightarrow> string list \<Rightarrow> instructions_file list \<Rightarrow> string + instructions_file list" where
  "discover_dirs ex globalPath [] files = Inr files"
| "discover_dirs ex globalPath (d # ds) files =
    (case readDir ex d of
       Inl e \<Rightarrow> Inl e
     | Inr None \<Rightarrow> discover_dirs ex globalPath ds files
     | Inr (Some f) \<Rightarrow> discover_dirs ex globalPath ds (if cf_path f \<noteq> globalPath then files @ [f] else files))"

definition Discover :: "executor \<Rightarrow> string \<Rightarrow> string \<Rightarrow> string + instructions_file list" where
  "Discover ex dir globalPath =
    (let globalPath = (if globalPath = [] then DefaultGlobalPath else globalPath) in
     case read_context ex globalPath of
       Inl e \<Rightarrow> Inl e
     | Inr f \<Rightarrow> discover_dirs ex globalPath (directories dir) (case f of None \<Rightarrow> [] | Some f \<Rightarrow> [f]))"

definition trim_right_nl :: "string \<Rightarrow> string" where
  "trim_right_nl s = rev (dropWhile (\<lambda>c. c = CHR 0x0A) (rev s))"

definition context_Section :: "instructions_file list \<Rightarrow> string" where
  "context_Section files =
    (if files = [] then []
     else ''# Workspace instructions'' @ nl @ nl @ ''These files describe how to work in this workspace. Follow them. ''
       @ ''When two files disagree, the one listed later is more specific and wins.'' @ nl
       @ concat (map (\<lambda>f. nl @ ''## '' @ cf_path f @ nl @ nl @ trim_right_nl (cf_content f) @ nl) files))"

section \<open>What is found\<close>

lemma read_context_SomeD: "read_context ex p = Inr (Some f) \<Longrightarrow> cf_path f = p \<and> cf_content f \<noteq> []"
  by (auto simp: read_context_def Let_def split: sum.splits stat_error.splits if_splits)

lemma read_first_SomeD:
  "read_first ex ps = Inr (Some f) \<Longrightarrow>
   \<exists>i < length ps. cf_path f = ps ! i \<and> cf_content f \<noteq> [] \<and> (\<forall>j < i. read_context ex (ps ! j) = Inr None)"
proof (induction ps)
  case (Cons p ps)
  show ?case
  proof (cases "read_context ex p")
    case (Inr r)
    show ?thesis
    proof (cases r)
      case None
      with Cons Inr obtain i where "i < length ps" "cf_path f = ps ! i" "cf_content f \<noteq> []"
        "\<forall>j < i. read_context ex (ps ! j) = Inr None" by auto
      then show ?thesis using Inr None by (intro exI [of _ "Suc i"]) (auto simp: less_Suc_eq_0_disj)
    next
      case (Some g)
      then show ?thesis using Cons.prems Inr by (intro exI [of _ 0]) (auto dest: read_context_SomeD)
    qed
  qed (use Cons.prems in simp)
qed simp

text \<open>The files come in the order of the directories, one for each at most, and every one says something.\<close>

definition dir_file :: "executor \<Rightarrow> string \<Rightarrow> string \<Rightarrow> instructions_file list" where
  "dir_file ex g d = (case readDir ex d of Inr (Some f) \<Rightarrow> if cf_path f \<noteq> g then [f] else [] | _ \<Rightarrow> [])"

lemma discover_dirs_order:
  "discover_dirs ex g ds files =
    (case List.find (\<lambda>d. isl (readDir ex d)) ds of
       Some d \<Rightarrow> Inl (projl (readDir ex d)) | None \<Rightarrow> Inr (files @ concat (map (dir_file ex g) ds)))"
proof (induction ds arbitrary: files)
  case (Cons d ds)
  show ?case
  proof (cases "readDir ex d")
    case (Inr r)
    then show ?thesis using Cons.IH by (cases r) (auto simp: dir_file_def [of _ _ d] split: option.splits)
  qed simp
qed simp

text \<open>
  A directory whose name starts with two dots is taken for one outside the workspace, so its own
  instructions and those of the directories below it are not looked for.
\<close>

lemma dotted_directory_skipped: "directories ''..notes/a'' = [''.'']" "directories ''a/..notes'' = [''.'', ''a'', ''a/..notes'']"
  by code_simp+

end
