(* ===== verification/Streams.thy ===== *)
theory Streams
  imports Provider
begin

text \<open>
  Two formats that arrive in pieces. \<^verbatim>\<open>mcp/sse.go\<close>: server-sent events, read through a \<^verbatim>\<open>bufio.Scanner\<close> with
  its own function to split lines. \<^verbatim>\<open>provider/openai/toolcalls.go\<close>: the tool calls of a reply, assembled from
  fragments. A scanner is what it has buffered, the chunks its reader will still return and the error
  the reader ends with; once no chunk is left the scanner knows that it is at the end.
\<close>

section \<open>Lines\<close>

abbreviation cr :: char where
  "cr \<equiv> CHR 0x0D"

abbreviation lf :: char where
  "lf \<equiv> CHR 0x0A"

text \<open>\<open>None\<close> asks for more data.\<close>

definition scanSSELines :: "string \<Rightarrow> bool \<Rightarrow> (nat \<times> string) option" where
  "scanSSELines data atEOF =
    (case index_of (\<lambda>c. c = cr \<or> c = lf) data of
       Some i \<Rightarrow>
         if data ! i = lf then Some (i + 1, take i data)
         else if i + 1 < length data then
           (if data ! (i + 1) = lf then Some (i + 2, take i data) else Some (i + 1, take i data))
         else if atEOF then Some (i + 1, take i data) else None
     | None \<Rightarrow> if atEOF \<and> data \<noteq> [] then Some (length data, data) else None)"

definition maxMessageBytes :: nat where
  "maxMessageBytes = 16 * 1024 * 1024"

datatype scan_error = TooLong | ReadFailed string

record scanner =
  sc_buf :: string
  sc_chunks :: "string list"
  sc_end :: "string option"

datatype scanned = Line string scanner | Ended "scan_error option"

fun scan_from :: "nat \<Rightarrow> string \<Rightarrow> string list \<Rightarrow> string option \<Rightarrow> scanned" where
  "scan_from limit buf [] e =
    (case scanSSELines buf True of
       Some (n, tok) \<Rightarrow> Line tok \<lparr>sc_buf = drop n buf, sc_chunks = [], sc_end = e\<rparr>
     | None \<Rightarrow> Ended (map_option ReadFailed e))"
| "scan_from limit buf (c # cs) e =
    (case scanSSELines buf False of
       Some (n, tok) \<Rightarrow> Line tok \<lparr>sc_buf = drop n buf, sc_chunks = c # cs, sc_end = e\<rparr>
     | None \<Rightarrow> if length buf \<ge> limit then Ended (Some TooLong) else scan_from limit (buf @ c) cs e)"

definition Scan :: "nat \<Rightarrow> scanner \<Rightarrow> scanned" where
  "Scan limit s = scan_from limit (sc_buf s) (sc_chunks s) (sc_end s)"

definition unread :: "scanner \<Rightarrow> string" where
  "unread s = sc_buf s @ concat (sc_chunks s)"

lemma scanSSELines_bound: "scanSSELines d e = Some (n, tok) \<Longrightarrow> 0 < n \<and> n \<le> length d"
  by (auto simp: scanSSELines_def dest: index_of_Some split: option.splits if_splits)

lemma scan_from_shrinks:
  "scan_from l buf cs e = Line tok s \<Longrightarrow> length (unread s) < length buf + length (concat cs)"
  by (induction l buf cs e rule: scan_from.induct)
    (auto simp: unread_def dest!: scanSSELines_bound split: option.splits if_splits)

lemma Scan_shrinks: "Scan l s = Line tok s' \<Longrightarrow> length (unread s') < length (unread s)"
  using scan_from_shrinks [of l "sc_buf s" "sc_chunks s" "sc_end s" tok s'] by (simp add: Scan_def unread_def)

section \<open>Events\<close>

record sse_event =
  se_name :: string
  se_data :: string

datatype sse_result = Event sse_event scanner | EventTooLarge | StreamFailed string | EOF

definition cut_string :: "char \<Rightarrow> string \<Rightarrow> string \<times> string" where
  "cut_string c s = (takeWhile (\<lambda>x. x \<noteq> c) s, drop 1 (dropWhile (\<lambda>x. x \<noteq> c) s))"

text \<open>What one line does to the event that is being read: \<open>name\<close>, \<open>data\<close> and whether there was data.\<close>

datatype line_effect = Dispatch sse_event | Continue string string bool | LineTooLarge

definition sse_line :: "nat \<Rightarrow> string \<Rightarrow> string \<Rightarrow> string \<Rightarrow> bool \<Rightarrow> line_effect" where
  "sse_line limit line name data hasData =
    (if line = [] then
       (if \<not> hasData then Continue [] data hasData
        else Dispatch \<lparr>se_name = (if name = [] then ''message'' else name), se_data = trim_suffix nl data\<rparr>)
     else if hd line = CHR '':'' then Continue name data hasData
     else
       let (field, val) = cut_string (CHR '':'') line; val = trim_prefix '' '' val in
       if field = ''event'' then Continue val data hasData
       else if field = ''data'' then
         (if length data + length val > limit then LineTooLarge else Continue name (data @ val @ nl) True)
       else Continue name data hasData)"

function sse_loop :: "nat \<Rightarrow> string \<Rightarrow> string \<Rightarrow> bool \<Rightarrow> scanner \<Rightarrow> sse_result" where
  "sse_loop limit name data hasData s =
    (case Scan limit s of
       Ended None \<Rightarrow> EOF
     | Ended (Some TooLong) \<Rightarrow> EventTooLarge
     | Ended (Some (ReadFailed e)) \<Rightarrow> StreamFailed (''read event stream: '' @ e)
     | Line line s' \<Rightarrow>
         (case sse_line limit line name data hasData of
            Dispatch ev \<Rightarrow> Event ev s'
          | LineTooLarge \<Rightarrow> EventTooLarge
          | Continue name data hasData \<Rightarrow> sse_loop limit name data hasData s'))"
  by pat_completeness auto
termination by (relation "measure (\<lambda>(_, _, _, _, s). length (unread s))") (auto simp: Scan_shrinks)

declare sse_loop.simps [simp del]

definition sse_next :: "scanner \<Rightarrow> sse_result" where
  "sse_next s = sse_loop maxMessageBytes [] [] False s"

definition newSSEReader :: "string list \<Rightarrow> string option \<Rightarrow> scanner" where
  "newSSEReader chunks e = \<lparr>sc_buf = [], sc_chunks = chunks, sc_end = e\<rparr>"

lemma sse_loop_shrinks: "sse_loop l name data h s = Event ev s' \<Longrightarrow> length (unread s') < length (unread s)"
proof (induction l name data h s rule: sse_loop.induct)
  case (1 l name data h s)
  show ?case
  proof (cases "Scan l s")
    case (Line line t)
    note t = Scan_shrinks [OF Line]
    show ?thesis
    proof (cases "sse_line l line name data h")
      case (Continue n d k)
      then have "sse_loop l n d k t = Event ev s'" using 1(2) Line by (simp add: sse_loop.simps [of l name data h s])
      from 1(1) [OF Line Continue this] t show ?thesis by simp
    qed (use 1(2) Line t in \<open>simp_all add: sse_loop.simps [of l name data h s]\<close>)
  qed (use 1(2) in \<open>simp add: sse_loop.simps [of l name data h s] split: option.splits scan_error.splits\<close>)
qed

text \<open>Reading until the stream ends or fails.\<close>

function read_events :: "scanner \<Rightarrow> sse_event list \<times> sse_result" where
  "read_events s = (case sse_next s of Event ev s' \<Rightarrow> (let (evs, r) = read_events s' in (ev # evs, r)) | r \<Rightarrow> ([], r))"
  by pat_completeness auto
termination by (relation "measure (\<lambda>s. length (unread s))") (auto simp: sse_next_def sse_loop_shrinks)

declare read_events.simps [simp del]

section \<open>Chunks do not matter\<close>

text \<open>The lines of a whole text.\<close>

fun split_lines :: "string \<Rightarrow> string \<Rightarrow> string list" where
  "split_lines cur [] = (if cur = [] then [] else [cur])"
| "split_lines cur (c # s) =
    (if c = lf then cur # split_lines [] s
     else if c = cr then
       cur # (case s of [] \<Rightarrow> [] | x # t \<Rightarrow> if x = lf then split_lines [] t else split_lines [] (x # t))
     else split_lines (cur @ [c]) s)"

abbreviation lines :: "string \<Rightarrow> string list" where
  "lines \<equiv> split_lines []"

abbreviation no_break :: "string \<Rightarrow> bool" where
  "no_break \<equiv> list_all (\<lambda>c. c \<noteq> cr \<and> c \<noteq> lf)"

lemma split_plain: "no_break u \<Longrightarrow> split_lines cur (u @ s) = split_lines (cur @ u) s"
  by (induction u arbitrary: cur) auto

lemma split_first: "cur \<noteq> [] \<Longrightarrow> split_lines cur s \<noteq> [] \<and> length cur \<le> length (hd (split_lines cur s))"
proof (induction s arbitrary: cur)
  case (Cons c s)
  from Cons.IH [of "cur @ [c]"] show ?case by auto
qed simp

lemma index_break:
  assumes "index_of (\<lambda>c. c = cr \<or> c = lf) d = Some i"
  shows "d = take i d @ d ! i # drop (Suc i) d" "no_break (take i d)" "d ! i = cr \<or> d ! i = lf"
  using index_of_Some [OF assms] by (auto simp: id_take_nth_drop list_all_length)

lemma scan_token:
  assumes "scanSSELines buf e = Some (n, tok)" "e \<Longrightarrow> rest = []"
  shows "lines (buf @ rest) = tok # lines (drop n buf @ rest)"
proof (cases "index_of (\<lambda>c. c = cr \<or> c = lf) buf")
  case None
  then have "no_break buf" by (simp add: index_of_None list_all_iff)
  then have "lines buf = [buf]" if "buf \<noteq> []" using split_plain [of buf "[]" "[]"] that by simp
  then show ?thesis using assms None by (auto simp: scanSSELines_def split: if_splits)
next
  case (Some i)
  note b = index_break [OF Some]
  define v where "v = drop (Suc i) buf"
  have buf: "buf @ rest = take i buf @ buf ! i # v @ rest" using b(1) by (simp add: v_def)
  have l: "lines (buf @ rest) = split_lines (take i buf) (buf ! i # v @ rest)"
    unfolding buf using split_plain [OF b(2), of "[]"] by simp
  have v: "v = [] \<longleftrightarrow> \<not> i + 1 < length buf" "v \<noteq> [] \<Longrightarrow> v = buf ! (i + 1) # drop (i + 2) buf"
    by (auto simp: v_def Cons_nth_drop_Suc)
  show ?thesis
  proof (cases "buf ! i = lf \<or> v \<noteq> []")
    case True
    then show ?thesis using assms Some b(3) l v by (cases v) (auto simp: scanSSELines_def v_def split: if_splits)
  next
    case False
    then show ?thesis using assms Some b(3) l v by (auto simp: scanSSELines_def v_def split: if_splits)
  qed
qed

lemma scan_more:
  assumes "scanSSELines buf e = None"
  shows "e \<longrightarrow> buf = []" "\<exists>u. no_break u \<and> (buf = u \<or> buf = u @ [cr])"
proof -
  show "e \<longrightarrow> buf = []" using assms
    by (cases e) (auto simp: scanSSELines_def dest!: index_of_Some split: option.splits if_splits)
  show "\<exists>u. no_break u \<and> (buf = u \<or> buf = u @ [cr])"
  proof (cases "index_of (\<lambda>c. c = cr \<or> c = lf) buf")
    case None
    then show ?thesis by (auto simp: index_of_None list_all_iff)
  next
    case (Some i)
    note b = index_break [OF Some]
    have "i + 1 \<ge> length buf" "buf ! i = cr" using assms Some b(3) by (auto simp: scanSSELines_def split: if_splits)
    then have "buf = take i buf @ [cr]" using b(1) by simp
    then show ?thesis using b(2) by blast
  qed
qed

definition short_lines :: "nat \<Rightarrow> string \<Rightarrow> bool" where
  "short_lines limit s \<longleftrightarrow> 1 < limit \<and> list_all (\<lambda>l. length l + 1 < limit) (lines s)"

lemma scan_room:
  assumes "scanSSELines buf e = None" "short_lines limit (buf @ rest)"
  shows "length buf < limit"
proof -
  obtain u where u: "no_break u" "buf = u \<or> buf = u @ [cr]" using scan_more(2) [OF assms(1)] by blast
  then obtain more where "buf @ rest = u @ more" by auto
  then have "lines (buf @ rest) = split_lines u more" using split_plain [OF u(1), of "[]" more] by simp
  then have "length u + 1 < limit"
    using assms(2) split_first [of u more] by (cases "split_lines u more"; cases "u = []") (auto simp: short_lines_def)
  then show ?thesis using u(2) by auto
qed

lemma scan_from_lines:
  assumes "short_lines limit (buf @ concat cs)"
  shows "case lines (buf @ concat cs) of
      [] \<Rightarrow> scan_from limit buf cs e = Ended (map_option ReadFailed e)
    | tok # ls \<Rightarrow> (\<exists>s. scan_from limit buf cs e = Line tok s \<and> lines (unread s) = ls \<and> sc_end s = e)"
  using assms
proof (induction limit buf cs e rule: scan_from.induct)
  case (1 limit buf e)
  show ?case
  proof (cases "scanSSELines buf True")
    case None
    then show ?thesis using scan_more(1) [OF None] by simp
  next
    case (Some r)
    then obtain n tok where "scanSSELines buf True = Some (n, tok)" by (cases r) auto
    then show ?thesis using scan_token [of buf True n tok "[]"] by (simp add: unread_def)
  qed
next
  case (2 limit buf c cs e)
  show ?case
  proof (cases "scanSSELines buf False")
    case None
    then have e1: "scan_from limit buf (c # cs) e = scan_from limit (buf @ c) cs e"
      using scan_room [OF None 2(2)] by simp
    show ?thesis unfolding e1 using 2(1) [OF None] scan_room [OF None 2(2)] 2(2) by simp
  next
    case (Some r)
    then obtain n tok where "scanSSELines buf False = Some (n, tok)" by (cases r) auto
    then show ?thesis using scan_token [of buf False n tok "concat (c # cs)"] by (simp add: unread_def)
  qed
qed

lemma Scan_lines:
  assumes "short_lines limit (unread s)"
  shows "case lines (unread s) of
      [] \<Rightarrow> Scan limit s = Ended (map_option ReadFailed (sc_end s))
    | tok # ls \<Rightarrow> (\<exists>t. Scan limit s = Line tok t \<and> lines (unread t) = ls \<and> sc_end t = sc_end s \<and> short_lines limit (unread t))"
  using scan_from_lines [of limit "sc_buf s" "sc_chunks s" "sc_end s"] assms
  unfolding Scan_def unread_def [symmetric] by (cases "lines (unread s)") (auto simp: short_lines_def)

section \<open>Events survive\<close>

text \<open>An event as a name and the lines of its data, and the lines a server writes for it.\<close>

type_synonym message_lines = "string \<times> string list"

definition to_event :: "message_lines \<Rightarrow> sse_event" where
  "to_event m = \<lparr>se_name = fst m, se_data = join_str nl (snd m)\<rparr>"

definition event_lines :: "message_lines \<Rightarrow> string list" where
  "event_lines m = (''event: '' @ fst m) # map (\<lambda>l. ''data: '' @ l) (snd m) @ [[]]"

definition render_event :: "message_lines \<Rightarrow> string" where
  "render_event m = concat (map (\<lambda>l. l @ nl) (event_lines m))"

definition event_ok :: "message_lines \<Rightarrow> bool" where
  "event_ok m \<longleftrightarrow> fst m \<noteq> [] \<and> no_break (fst m) \<and> snd m \<noteq> [] \<and> list_all no_break (snd m)
     \<and> length (fst m) + 8 < maxMessageBytes \<and> length (concat (map (\<lambda>l. l @ nl) (snd m))) + 7 < maxMessageBytes"

lemma lines_written: "list_all no_break ls \<Longrightarrow> lines (concat (map (\<lambda>l. l @ nl) ls)) = ls"
proof (induction ls)
  case (Cons l ls)
  then show ?case using split_plain [of l "[]"] by simp
qed simp

lemma join_written: "ds \<noteq> [] \<Longrightarrow> concat (map (\<lambda>l. l @ nl) ds) = join_str nl ds @ nl"
proof (induction ds)
  case (Cons d ds)
  then show ?case by (cases ds) auto
qed simp

lemma sse_event_line: "sse_line limit (''event: '' @ v) name data h = Continue v data h"
  by (simp add: sse_line_def cut_string_def trim_prefix_def)

lemma sse_data_line:
  "length data + length v \<le> limit \<Longrightarrow> sse_line limit (''data: '' @ v) name data h = Continue name (data @ v @ nl) True"
  by (simp add: sse_line_def cut_string_def trim_prefix_def)

lemma sse_loop_line:
  assumes "short_lines limit (unread s)" "lines (unread s) = line # ls"
  obtains t where "lines (unread t) = ls" "sc_end t = sc_end s" "short_lines limit (unread t)"
    "sse_loop limit name data h s = (case sse_line limit line name data h of
       Dispatch ev \<Rightarrow> Event ev t | LineTooLarge \<Rightarrow> EventTooLarge | Continue n d k \<Rightarrow> sse_loop limit n d k t)"
proof -
  from Scan_lines [OF assms(1)] assms(2) obtain t where
    "Scan limit s = Line line t" "lines (unread t) = ls" "sc_end t = sc_end s" "short_lines limit (unread t)" by auto
  then show ?thesis using that [of t] by (simp add: sse_loop.simps [of limit name data h s])
qed

lemma sse_loop_data:
  assumes "short_lines limit (unread s)" "lines (unread s) = map (\<lambda>l. ''data: '' @ l) ds @ ls"
    and "length data + length (concat (map (\<lambda>l. l @ nl) ds)) \<le> limit"
  shows "\<exists>t. lines (unread t) = ls \<and> sc_end t = sc_end s \<and> short_lines limit (unread t)
    \<and> sse_loop limit name data h s = sse_loop limit name (data @ concat (map (\<lambda>l. l @ nl) ds)) (h \<or> ds \<noteq> []) t"
  using assms
proof (induction ds arbitrary: s data h)
  case (Cons d ds)
  from Cons.prems(2) have "lines (unread s) = (''data: '' @ d) # map (\<lambda>l. ''data: '' @ l) ds @ ls" by simp
  from sse_loop_line [OF Cons.prems(1) this] obtain t where t:
    "lines (unread t) = map (\<lambda>l. ''data: '' @ l) ds @ ls" "sc_end t = sc_end s" "short_lines limit (unread t)"
    "sse_loop limit name data h s = (case sse_line limit (''data: '' @ d) name data h of
       Dispatch ev \<Rightarrow> Event ev t | LineTooLarge \<Rightarrow> EventTooLarge | Continue n d k \<Rightarrow> sse_loop limit n d k t)" .
  then have "sse_loop limit name data h s = sse_loop limit name (data @ d @ nl) True t"
    using Cons.prems(3) sse_data_line [of data d limit name h] by simp
  with Cons.IH [OF t(3,1), of "data @ d @ nl" True] Cons.prems(3) t(2) show ?case by simp
qed auto

lemma sse_next_event:
  assumes ok: "event_ok m" and s: "short_lines maxMessageBytes (unread s)" "lines (unread s) = event_lines m @ ls"
  shows "\<exists>t. sse_next s = Event (to_event m) t \<and> lines (unread t) = ls \<and> sc_end t = sc_end s \<and> short_lines maxMessageBytes (unread t)"
proof -
  let ?D = "concat (map (\<lambda>l. l @ nl) (snd m))"
  from s(2) have "lines (unread s) = (''event: '' @ fst m) # map (\<lambda>l. ''data: '' @ l) (snd m) @ [] # ls"
    by (simp add: event_lines_def)
  from sse_loop_line [OF s(1) this, of "[]" "[]" False] obtain t where t:
    "lines (unread t) = map (\<lambda>l. ''data: '' @ l) (snd m) @ [] # ls" "sc_end t = sc_end s" "short_lines maxMessageBytes (unread t)"
    "sse_next s = sse_loop maxMessageBytes (fst m) [] False t"
    unfolding sse_next_def sse_event_line by auto
  from sse_loop_data [OF t(3,1), of "[]" "fst m" False] ok obtain u where u: "lines (unread u) = [] # ls" "sc_end u = sc_end t"
    "short_lines maxMessageBytes (unread u)" "sse_next s = sse_loop maxMessageBytes (fst m) ?D True u"
    unfolding t(4) by (auto simp: event_ok_def)
  from sse_loop_line [OF u(3,1), of "fst m" ?D True] obtain v where v: "lines (unread v) = ls" "sc_end v = sc_end u"
    "short_lines maxMessageBytes (unread v)"
    "sse_loop maxMessageBytes (fst m) ?D True u = (case sse_line maxMessageBytes [] (fst m) ?D True of
       Dispatch ev \<Rightarrow> Event ev v | LineTooLarge \<Rightarrow> EventTooLarge | Continue n d k \<Rightarrow> sse_loop maxMessageBytes n d k v)" .
  have "sse_line maxMessageBytes [] (fst m) ?D True = Dispatch (to_event m)"
    using ok join_written [of "snd m"] by (simp add: sse_line_def to_event_def event_ok_def)
  then show ?thesis using v u t by auto
qed

lemma sse_next_end:
  assumes "short_lines maxMessageBytes (unread s)" "lines (unread s) = []"
  shows "sse_next s = (case sc_end s of None \<Rightarrow> EOF | Some e \<Rightarrow> StreamFailed (''read event stream: '' @ e))"
  using Scan_lines [OF assms(1)] assms(2) by (simp add: sse_next_def sse_loop.simps split: option.splits)

lemma read_events_lines:
  assumes "list_all event_ok ms" "short_lines maxMessageBytes (unread s)" "lines (unread s) = concat (map event_lines ms)"
  shows "read_events s = (map to_event ms, case sc_end s of None \<Rightarrow> EOF | Some e \<Rightarrow> StreamFailed (''read event stream: '' @ e))"
  using assms
proof (induction ms arbitrary: s)
  case Nil
  then show ?case using sse_next_end [of s] by (simp add: read_events.simps [of s] split: option.splits)
next
  case (Cons m ms)
  then obtain t where "sse_next s = Event (to_event m) t" "lines (unread t) = concat (map event_lines ms)"
    "sc_end t = sc_end s" "short_lines maxMessageBytes (unread t)"
    using sse_next_event [of m s "concat (map event_lines ms)"] by auto
  then show ?case using Cons.IH [of t] Cons.prems(1) by (simp add: read_events.simps [of s])
qed

lemma length_written: "d \<in> set ds \<Longrightarrow> length d + 1 \<le> length (concat (map (\<lambda>l. l @ nl) ds))"
  by (induction ds) auto

lemma event_lines_ok:
  assumes "event_ok m" "l \<in> set (event_lines m)"
  shows "no_break l" "length l + 1 < maxMessageBytes"
proof -
  from assms(2) consider "l = ''event: '' @ fst m" | d where "l = ''data: '' @ d" "d \<in> set (snd m)" | "l = []"
    by (auto simp: event_lines_def)
  note l = this
  show "no_break l" using l assms(1) by cases (auto simp: event_ok_def list_all_iff)
  show "length l + 1 < maxMessageBytes" using l
  proof cases
    case 2
    then show ?thesis using assms(1) length_written [OF 2(2)] by (simp add: event_ok_def)
  qed (use assms(1) in \<open>auto simp: event_ok_def maxMessageBytes_def\<close>)
qed

lemma written_concat: "concat (map f (concat (map g ms))) = concat (map (\<lambda>m. concat (map f (g m))) ms)"
  by (induction ms) auto

text \<open>
  C22. Whatever pieces a stream of events arrives in, the reader returns the events that were written, in
  order and with the lines of their data, and then reports how the stream ended.
\<close>

theorem sse_roundtrip:
  assumes "list_all event_ok ms" "concat chunks = concat (map render_event ms)"
  shows "read_events (newSSEReader chunks e) =
    (map to_event ms, case e of None \<Rightarrow> EOF | Some m \<Rightarrow> StreamFailed (''read event stream: '' @ m))"
proof -
  let ?ls = "concat (map event_lines ms)" and ?s = "newSSEReader chunks e"
  have "unread ?s = concat (map (\<lambda>l. l @ nl) ?ls)"
    using assms(2) by (simp add: newSSEReader_def unread_def render_event_def [abs_def] written_concat)
  moreover have ok: "\<forall>l \<in> set ?ls. no_break l \<and> length l + 1 < maxMessageBytes"
    using assms(1) event_lines_ok by (fastforce simp: list_all_iff)
  ultimately have l: "lines (unread ?s) = ?ls" using lines_written [of ?ls] by (simp add: list_all_iff)
  then have "short_lines maxMessageBytes (unread ?s)" using ok by (auto simp: short_lines_def list_all_iff maxMessageBytes_def)
  from read_events_lines [OF assms(1) this l] show ?thesis by (simp add: newSSEReader_def)
qed

theorem sse_roundtrip_witness:
  "read_events (newSSEReader [''event: a'' @ nl @ ''da'', ''ta: x'' @ nl @ ''data: y'' @ nl, nl] None)
    = ([\<lparr>se_name = ''a'', se_data = ''x'' @ nl @ ''y''\<rparr>], EOF)"
proof -
  have "event_ok (''a'', [''x'', ''y''])" by (simp add: event_ok_def maxMessageBytes_def)
  moreover have "render_event (''a'', [''x'', ''y'']) = ''event: a'' @ nl @ ''data: x'' @ nl @ ''data: y'' @ nl @ nl" by code_simp
  ultimately show ?thesis
    using sse_roundtrip [of "[(''a'', [''x'', ''y''])]" "[''event: a'' @ nl @ ''da'', ''ta: x'' @ nl @ ''data: y'' @ nl, nl]" None]
    by (simp add: to_event_def)
qed

section \<open>Tool calls in fragments\<close>

record call_delta =
  dl_index :: int
  dl_id :: string
  dl_name :: string
  dl_arguments :: string

record partialCall =
  pc_id :: string
  pc_name :: string
  pc_args :: string

definition toolCalls_add :: "call_delta \<Rightarrow> (int \<rightharpoonup> partialCall) \<Rightarrow> (int \<rightharpoonup> partialCall)" where
  "toolCalls_add d t =
    (let c = (case t (dl_index d) of Some c \<Rightarrow> c | None \<Rightarrow> \<lparr>pc_id = [], pc_name = [], pc_args = []\<rparr>);
         c = (if dl_id d \<noteq> [] then c\<lparr>pc_id := dl_id d\<rparr> else c);
         c = (if dl_name d \<noteq> [] then c\<lparr>pc_name := dl_name d\<rparr> else c) in
     t(dl_index d \<mapsto> c\<lparr>pc_args := pc_args c @ dl_arguments d\<rparr>))"

definition finished_call :: "partialCall \<Rightarrow> tool_call" where
  "finished_call c = (let args = trim_space (pc_args c) in
     \<lparr>tc_id = pc_id c, tc_name = pc_name c, tc_arguments = (if args = [] then ''{}'' else args)\<rparr>)"

definition toolCalls_calls :: "int list \<Rightarrow> (int \<rightharpoonup> partialCall) \<Rightarrow> tool_call list" where
  "toolCalls_calls keys t = map (\<lambda>i. finished_call (the (t i))) (sort keys)"

definition assembled :: "call_delta list \<Rightarrow> (int \<rightharpoonup> partialCall)" where
  "assembled ds = fold toolCalls_add ds (\<lambda>_. None)"

definition last_nonempty :: "string list \<Rightarrow> string" where
  "last_nonempty xs = (let ys = filter (\<lambda>x. x \<noteq> []) xs in if ys = [] then [] else List.last ys)"

lemma last_nonempty_snoc: "last_nonempty (xs @ [x]) = (if x \<noteq> [] then x else last_nonempty xs)"
  by (simp add: last_nonempty_def Let_def)

lemma last_nonempty_Nil [simp]: "last_nonempty [] = []"
  by (simp add: last_nonempty_def)

lemma assembled_at:
  "assembled ds i = (let own = filter (\<lambda>d. dl_index d = i) ds in
     if own = [] then None else Some \<lparr>pc_id = last_nonempty (map dl_id own), pc_name = last_nonempty (map dl_name own),
       pc_args = concat (map dl_arguments own)\<rparr>)"
proof (induction ds rule: rev_induct)
  case (snoc d ds)
  have "assembled (ds @ [d]) i = toolCalls_add d (assembled ds) i" by (simp add: assembled_def)
  then show ?case using snoc
    by (cases "dl_index d = i") (auto simp: toolCalls_add_def Let_def last_nonempty_snoc split: option.splits if_splits)
qed (simp add: assembled_def)

text \<open>
  The calls of a reply come in the order of their indexes, each with the last identifier and name
  it was given and its own fragments joined, however the fragments of several calls are interleaved.
\<close>

lemma toolCalls_assembled:
  assumes "distinct keys" "set keys = dom (assembled ds)"
  shows "toolCalls_calls keys (assembled ds) = map (\<lambda>i. let own = filter (\<lambda>d. dl_index d = i) ds in
      finished_call \<lparr>pc_id = last_nonempty (map dl_id own), pc_name = last_nonempty (map dl_name own),
        pc_args = concat (map dl_arguments own)\<rparr>) (sorted_list_of_set (dl_index ` set ds))"
proof -
  have "dom (assembled ds) = dl_index ` set ds"
    by (auto simp: dom_def assembled_at Let_def filter_empty_conv split: if_splits)
  then have "sort keys = sorted_list_of_set (dl_index ` set ds)" 
    using assms sorted_list_of_set_sort_remdups [of keys] by (simp add: distinct_remdups_id)
  moreover have "filter (\<lambda>d. dl_index d = i) ds \<noteq> []" if "i \<in> dl_index ` set ds" for i
    using that by (auto simp: filter_empty_conv)
  ultimately show ?thesis unfolding toolCalls_calls_def by (auto simp: assembled_at Let_def)
qed

end
