(* ===== verification/Mcp_Pool.thy ===== *)
theory Mcp_Pool
  imports Prelude "HOL-Library.Char_ord" "HOL-Library.List_Lexorder"
begin

text \<open>
  \<^verbatim>\<open>mcp/pool.go\<close>, \<^verbatim>\<open>conn.go\<close> and \<^verbatim>\<open>server.go\<close>: the connections to the servers a user configured. A \<^verbatim>\<open>*server\<close> is
  an index into \<open>mp_svs\<close> and a \<^verbatim>\<open>*conn\<close> one into \<open>mp_conns\<close>: goroutines keep them while the maps change. The
  phase of a connection is how far the goroutines that make it have come; \<^verbatim>\<open>ready\<close> is closed in the
  phase \<open>Settled\<close>. \<open>mp_closing\<close> holds the connections whose \<^verbatim>\<open>close\<close> has been called and has not returned.
  What a server answers is an argument; cancelling an attempt only makes it fail sooner, and an
  attempt may fail at any moment. Catalogs, tokens and events are left out.
\<close>

section \<open>Servers and connections\<close>

datatype server_kind = KindHTTP | KindStdio

datatype conn_error = AuthError nat string | ConnError string

record server_config =
  sf_id :: string
  sf_name :: string
  sf_kind :: server_kind
  sf_enabled :: bool
  sf_disabled :: "string list"

datatype conn_phase = Claimed | Opening | Dialed | Recorded | Settled | Orphaned

datatype client_state = NoClient | ClientUp | ClientDown

record conn =
  cn_server :: nat
  cn_workspace :: string
  cn_client :: bool
  cn_sock :: client_state
  cn_err :: "conn_error option"
  cn_attempted :: int
  cn_phase :: conn_phase

record log_line =
  ll_time :: int
  ll_source :: string
  ll_level :: string
  ll_text :: string

record mcp_server =
  sv_id :: string
  sv_name :: string
  sv_kind :: server_kind
  sv_enabled :: bool
  sv_disabled :: "string list"
  sv_remote :: "nat option"
  sv_local :: "(string \<times> nat) list"
  sv_logs :: "log_line list"

record pool =
  mp_stopped :: bool
  mp_servers :: "string \<rightharpoonup> nat"
  mp_svs :: "nat \<Rightarrow> mcp_server"
  mp_svnext :: nat
  mp_conns :: "nat \<Rightarrow> conn"
  mp_next :: nat
  mp_closing :: "nat list"

definition zero_conn :: conn where
  "zero_conn = \<lparr>cn_server = 0, cn_workspace = [], cn_client = False, cn_sock = NoClient, cn_err = None, cn_attempted = 0,
     cn_phase = Settled\<rparr>"

definition zero_server :: "string \<Rightarrow> mcp_server" where
  "zero_server i = \<lparr>sv_id = i, sv_name = [], sv_kind = KindHTTP, sv_enabled = False, sv_disabled = [], sv_remote = None,
     sv_local = [], sv_logs = []\<rparr>"

definition NewPool :: pool where
  "NewPool = \<lparr>mp_stopped = False, mp_servers = (\<lambda>_. None), mp_svs = (\<lambda>_. zero_server []), mp_svnext = 0,
     mp_conns = (\<lambda>_. zero_conn), mp_next = 0, mp_closing = []\<rparr>"

definition upd_conn :: "nat \<Rightarrow> (conn \<Rightarrow> conn) \<Rightarrow> pool \<Rightarrow> pool" where
  "upd_conn ref f p = p\<lparr>mp_conns := (mp_conns p)(ref := f (mp_conns p ref))\<rparr>"

definition upd_server :: "nat \<Rightarrow> (mcp_server \<Rightarrow> mcp_server) \<Rightarrow> pool \<Rightarrow> pool" where
  "upd_server sref f p = p\<lparr>mp_svs := (mp_svs p)(sref := f (mp_svs p sref))\<rparr>"

definition connFor :: "string \<Rightarrow> mcp_server \<Rightarrow> nat option" where
  "connFor ws s = (if ws = [] then sv_remote s else map_of (sv_local s) ws)"

definition setConn :: "string \<Rightarrow> nat \<Rightarrow> mcp_server \<Rightarrow> mcp_server" where
  "setConn ws c s =
    (if ws = [] then s\<lparr>sv_remote := Some c\<rparr>
     else s\<lparr>sv_local := (ws, c) # filter (\<lambda>(k, _). k \<noteq> ws) (sv_local s)\<rparr>)"

definition takeConns :: "string \<Rightarrow> mcp_server \<Rightarrow> nat list \<times> mcp_server" where
  "takeConns ws s =
    (if ws = [] then
       ((case sv_remote s of None \<Rightarrow> [] | Some c \<Rightarrow> [c]) @ map snd (sv_local s), s\<lparr>sv_remote := None, sv_local := []\<rparr>)
     else (case map_of (sv_local s) ws of
             None \<Rightarrow> ([], s)
           | Some c \<Rightarrow> ([c], s\<lparr>sv_local := filter (\<lambda>(k, _). k \<noteq> ws) (sv_local s)\<rparr>)))"

definition finished :: "conn \<Rightarrow> bool" where
  "finished c \<longleftrightarrow> cn_phase c = Settled"

definition alive :: "conn \<Rightarrow> bool" where
  "alive c \<longleftrightarrow> cn_err c = None \<and> cn_client c \<and> cn_sock c = ClientUp"

definition current :: "nat \<Rightarrow> pool \<Rightarrow> bool" where
  "current ref p \<longleftrightarrow> connFor (cn_workspace (mp_conns p ref)) (mp_svs p (cn_server (mp_conns p ref))) = Some ref"

section \<open>Status and log\<close>

datatype server_state = StateDisabled | StateIdle | StateConnecting | StateConnected | StateUnauthorized conn_error | StateError conn_error

fun status_loop :: "conn list \<Rightarrow> server_state \<Rightarrow> string list \<Rightarrow> conn_error option \<Rightarrow> server_state \<times> string list \<times> conn_error option" where
  "status_loop [] st ws failure = (st, ws, failure)"
| "status_loop (c # cs) st ws failure =
    (if \<not> finished c then status_loop cs (if st \<noteq> StateConnected then StateConnecting else st) ws failure
     else if alive c then status_loop cs StateConnected (if cn_workspace c \<noteq> [] then ws @ [cn_workspace c] else ws) failure
     else status_loop cs st ws (case cn_err c of Some e \<Rightarrow> Some e | None \<Rightarrow> failure))"

definition statusLocked :: "nat \<Rightarrow> pool \<Rightarrow> server_state \<times> string list" where
  "statusLocked sref p =
    (let s = mp_svs p sref in
     if \<not> sv_enabled s then (StateDisabled, [])
     else
       let conns = map (mp_conns p) ((case sv_remote s of None \<Rightarrow> [] | Some c \<Rightarrow> [c]) @ map snd (sv_local s)) in
       case status_loop conns StateIdle [] None of (st, ws, failure) \<Rightarrow>
         let ws = sort ws in
         if st = StateIdle then
           (case failure of
              None \<Rightarrow> (StateIdle, ws)
            | Some (AuthError n e) \<Rightarrow> if n = 401 then (StateUnauthorized (AuthError n e), []) else (StateError (AuthError n e), [])
            | Some e \<Rightarrow> (StateError e, []))
         else (st, ws))"

definition maxLogLines :: nat where "maxLogLines = 200"

definition maxLogLine :: nat where "maxLogLine = 2000"

definition addLine :: "log_line \<Rightarrow> mcp_server \<Rightarrow> mcp_server" where
  "addLine l s = (let logs = sv_logs s @ [l] in
     s\<lparr>sv_logs := (if length logs > maxLogLines then drop (length logs - maxLogLines) logs else logs)\<rparr>)"

fun split_nl :: "string \<Rightarrow> string list" where
  "split_nl [] = [[]]"
| "split_nl (c # s) =
    (if c = CHR 0x0A then [] # split_nl s else (case split_nl s of [] \<Rightarrow> [[c]] | l # ls \<Rightarrow> (c # l) # ls))"

definition addLog :: "int \<Rightarrow> string \<Rightarrow> string \<Rightarrow> string \<Rightarrow> mcp_server \<Rightarrow> mcp_server" where
  "addLog now source level txt s =
    fold (\<lambda>line. addLine \<lparr>ll_time = now, ll_source = source, ll_level = level,
        ll_text = (if length line > maxLogLine then take maxLogLine line @ [byte 0xE2, byte 0x80, byte 0xA6] else line)\<rparr>)
      (split_nl (rev (dropWhile (\<lambda>c. c = CHR 0x0A) (rev txt)))) s"

text \<open>The log keeps the last lines, however much a server prints.\<close>

lemma addLine_keeps: "sv_logs (addLine l s) = (let logs = sv_logs s @ [l] in drop (length logs - maxLogLines) logs)"
  by (simp add: addLine_def Let_def)

lemma drop_drop_last: "drop (length (drop (length xs - n) xs @ ys) - n) (drop (length xs - n) xs @ ys) = drop (length (xs @ ys) - n) (xs @ ys)"
proof (cases "length xs \<le> n")
  case False
  then show ?thesis by (auto simp: add.commute)
qed simp

lemma addLines_keep:
  "sv_logs (fold (\<lambda>x. addLine (f x)) xs s) =
    (if xs = [] then sv_logs s else drop (length (sv_logs s @ map f xs) - maxLogLines) (sv_logs s @ map f xs))"
proof (induction xs rule: rev_induct)
  case (snoc x xs)
  show ?case
  proof (cases "xs = []")
    case False
    then show ?thesis using snoc drop_drop_last [of "sv_logs s @ map f xs" maxLogLines "[f x]"]
      by (simp add: addLine_keeps Let_def)
  qed (simp add: addLine_keeps Let_def)
qed simp

section \<open>Making connections\<close>

definition serverFor :: "server_config \<Rightarrow> pool \<Rightarrow> nat \<times> pool" where
  "serverFor cfg p =
    (let (sref, p) = (case mp_servers p (sf_id cfg) of
           Some sref \<Rightarrow> (sref, p)
         | None \<Rightarrow> (let sref = mp_svnext p in
             (sref, p\<lparr>mp_svnext := Suc sref, mp_svs := (mp_svs p)(sref := zero_server (sf_id cfg)),
                      mp_servers := (mp_servers p)(sf_id cfg \<mapsto> sref)\<rparr>))) in
     (sref, upd_server sref (\<lambda>s. s\<lparr>sv_name := sf_name cfg, sv_kind := sf_kind cfg, sv_enabled := sf_enabled cfg,
        sv_disabled := sf_disabled cfg\<rparr>) p))"

definition retryAfter :: int where
  "retryAfter = 30 * 1000000000"

datatype conn_reply = Live nat | Disabled | NeedsWorkspace | FailedRecently conn_error | Awaits nat | Opened nat

text \<open>The part of \<^verbatim>\<open>connection\<close> up to where it blocks or starts the goroutine; the server was looked up before.\<close>

definition connection_begin :: "nat \<Rightarrow> server_config \<Rightarrow> string \<Rightarrow> bool \<Rightarrow> int \<Rightarrow> pool \<Rightarrow> conn_reply \<times> pool" where
  "connection_begin sref cfg workspaceID retry now p =
    (if \<not> sf_enabled cfg then (Disabled, p)
     else if sf_kind cfg = KindStdio \<and> workspaceID = [] then (NeedsWorkspace, p)
     else
       let key = (if sf_kind cfg = KindStdio then workspaceID else []);
           fresh = (let ref = mp_next p in
             (Opened ref, (upd_server sref (setConn key ref) p)
                \<lparr>mp_next := Suc ref, mp_conns := (mp_conns p)(ref := zero_conn\<lparr>cn_server := sref, cn_workspace := key,
                    cn_attempted := now, cn_phase := Claimed\<rparr>)\<rparr>)) in
       case connFor key (mp_svs p sref) of
         None \<Rightarrow> fresh
       | Some ref \<Rightarrow>
           let c = mp_conns p ref in
           if \<not> finished c then (Awaits ref, p)
           else if alive c then (Live ref, p)
           else (case cn_err c of
                   Some e \<Rightarrow> if \<not> retry \<and> now - cn_attempted c < retryAfter then (FailedRecently e, p) else fresh
                 | None \<Rightarrow> fresh))"

definition connection_check :: "nat \<Rightarrow> pool \<Rightarrow> pool" where
  "connection_check ref p = upd_conn ref (\<lambda>c. c\<lparr>cn_phase := (if mp_stopped p then Orphaned else Opening)\<rparr>) p"

definition conn_failed :: "nat \<Rightarrow> conn_error \<Rightarrow> pool \<Rightarrow> pool" where
  "conn_failed ref e p = upd_conn ref (\<lambda>c. c\<lparr>cn_err := Some e, cn_phase := Settled\<rparr>) p"

definition open_dialed :: "nat \<Rightarrow> pool \<Rightarrow> pool" where
  "open_dialed ref p = upd_conn ref (\<lambda>c. c\<lparr>cn_sock := ClientUp, cn_phase := Dialed\<rparr>) p"

definition open_record :: "nat \<Rightarrow> pool \<Rightarrow> pool" where
  "open_record ref p =
    (if current ref p then upd_conn ref (\<lambda>c. c\<lparr>cn_client := True, cn_phase := Recorded\<rparr>) p
     else upd_conn ref (\<lambda>c. c\<lparr>cn_sock := ClientDown, cn_err := Some (ConnError ''the server's configuration changed while connecting''),
       cn_phase := Settled\<rparr>) p)"

definition open_ready :: "nat \<Rightarrow> pool \<Rightarrow> pool" where
  "open_ready ref p = upd_conn ref (\<lambda>c. c\<lparr>cn_phase := Settled\<rparr>) p"

definition conn_dropped :: "nat \<Rightarrow> conn_error \<Rightarrow> pool \<Rightarrow> pool" where
  "conn_dropped ref e p =
    (if current ref p then (upd_conn ref (\<lambda>c. c\<lparr>cn_err := Some e\<rparr>) p)\<lparr>mp_closing := ref # mp_closing p\<rparr> else p)"

definition client_ends :: "nat \<Rightarrow> pool \<Rightarrow> pool" where
  "client_ends ref p = upd_conn ref (\<lambda>c. c\<lparr>cn_sock := ClientDown\<rparr>) p"

section \<open>Ending connections\<close>

definition take_all :: "nat \<Rightarrow> string \<Rightarrow> pool \<Rightarrow> pool" where
  "take_all sref ws p =
    (let (cs, s) = takeConns ws (mp_svs p sref) in (upd_server sref (\<lambda>_. s) p)\<lparr>mp_closing := cs @ mp_closing p\<rparr>)"

definition close_end :: "nat \<Rightarrow> pool \<Rightarrow> pool option" where
  "close_end ref p =
    (if finished (mp_conns p ref)
     then Some ((upd_conn ref (\<lambda>c. if cn_client c then c\<lparr>cn_sock := ClientDown\<rparr> else c) p)\<lparr>mp_closing := remove1 ref (mp_closing p)\<rparr>)
     else None)"

definition reconnect_drop :: "nat \<Rightarrow> string \<Rightarrow> pool \<Rightarrow> pool" where
  "reconnect_drop sref key p =
    (case connFor key (mp_svs p sref) of
       None \<Rightarrow> p
     | Some c \<Rightarrow> (upd_server sref (\<lambda>s. if key = [] then s\<lparr>sv_remote := None\<rparr>
           else s\<lparr>sv_local := filter (\<lambda>(k, _). k \<noteq> key) (sv_local s)\<rparr>) p)\<lparr>mp_closing := c # mp_closing p\<rparr>)"

definition pool_Removed :: "string \<Rightarrow> pool \<Rightarrow> pool" where
  "pool_Removed i p =
    (case mp_servers p i of
       None \<Rightarrow> p
     | Some sref \<Rightarrow> take_all sref [] (p\<lparr>mp_servers := (mp_servers p)(i := None)\<rparr>))"

definition pool_stop :: "pool \<Rightarrow> pool" where
  "pool_stop p = p\<lparr>mp_stopped := True\<rparr>"

section \<open>Interleaving\<close>

inductive mp_step :: "pool \<Rightarrow> pool \<Rightarrow> bool" where
  mp_lookup: "mp_step p (snd (serverFor cfg p))"
| mp_begin: "sref < mp_svnext p \<Longrightarrow> mp_step p (snd (connection_begin sref cfg ws retry now p))"
| mp_check: "ref < mp_next p \<Longrightarrow> cn_phase (mp_conns p ref) = Claimed \<Longrightarrow> mp_step p (connection_check ref p)"
| mp_failed: "ref < mp_next p \<Longrightarrow> cn_phase (mp_conns p ref) = Opening \<Longrightarrow> mp_step p (conn_failed ref e p)"
| mp_dialed: "ref < mp_next p \<Longrightarrow> cn_phase (mp_conns p ref) = Opening \<Longrightarrow> mp_step p (open_dialed ref p)"
| mp_record: "ref < mp_next p \<Longrightarrow> cn_phase (mp_conns p ref) = Dialed \<Longrightarrow> mp_step p (open_record ref p)"
| mp_ready: "ref < mp_next p \<Longrightarrow> cn_phase (mp_conns p ref) = Recorded \<Longrightarrow> mp_step p (open_ready ref p)"
| mp_dropped: "ref < mp_next p \<Longrightarrow> cn_phase (mp_conns p ref) \<notin> {Claimed, Orphaned} \<Longrightarrow> mp_step p (conn_dropped ref e p)"
| mp_ends: "ref < mp_next p \<Longrightarrow> cn_sock (mp_conns p ref) = ClientUp \<Longrightarrow> mp_step p (client_ends ref p)"
| mp_take: "sref < mp_svnext p \<Longrightarrow> mp_step p (take_all sref ws p)"
| mp_close: "ref \<in> set (mp_closing p) \<Longrightarrow> close_end ref p = Some q \<Longrightarrow> mp_step p q"
| mp_drop: "sref < mp_svnext p \<Longrightarrow> mp_step p (reconnect_drop sref key p)"
| mp_removed: "mp_step p (pool_Removed i p)"
| mp_stop: "mp_step p (pool_stop p)"

section \<open>No connection is lost\<close>

definition conn_ok :: "pool \<Rightarrow> nat \<Rightarrow> bool" where
  "conn_ok p ref \<longleftrightarrow> (let c = mp_conns p ref in
     (cn_sock c = ClientUp \<longrightarrow> cn_phase c \<in> {Dialed, Recorded, Settled} \<and> (cn_phase c \<noteq> Dialed \<longrightarrow> cn_client c))
   \<and> (cn_sock c = ClientUp \<and> cn_phase c \<noteq> Dialed \<longrightarrow> current ref p \<or> ref \<in> set (mp_closing p))
   \<and> (cn_err c \<noteq> None \<and> (cn_phase c \<noteq> Settled \<or> cn_sock c = ClientUp) \<longrightarrow> ref \<in> set (mp_closing p)))"

definition mp_inv :: "pool \<Rightarrow> bool" where
  "mp_inv p \<longleftrightarrow> (\<forall>ref. conn_ok p ref) \<and> (\<forall>i sref. mp_servers p i = Some sref \<longrightarrow> sref < mp_svnext p)
     \<and> (\<forall>sref \<ge> mp_svnext p. \<forall>ws. connFor ws (mp_svs p sref) = None)"

lemma frame_ok:
  assumes "conn_ok p r" "mp_conns q r = mp_conns p r" "set (mp_closing p) \<subseteq> set (mp_closing q)"
    and "current r p \<Longrightarrow> cn_sock (mp_conns p r) = ClientUp \<Longrightarrow> current r q \<or> r \<in> set (mp_closing q)"
  shows "conn_ok q r"
  using assms unfolding conn_ok_def Let_def by auto

lemma current_upd_conn:
  assumes "\<And>c. cn_server (f c) = cn_server c \<and> cn_workspace (f c) = cn_workspace c"
  shows "current r (upd_conn ref f p) = current r p"
  using assms by (simp add: current_def upd_conn_def)

text \<open>A step on one connection.\<close>

lemma upd_conn_inv:
  assumes i: "mp_inv p" and f: "\<And>c. cn_server (f c) = cn_server c \<and> cn_workspace (f c) = cn_workspace c"
    and cl: "set (mp_closing p) - {ref} \<subseteq> set cl" and ok: "conn_ok ((upd_conn ref f p)\<lparr>mp_closing := cl\<rparr>) ref"
  shows "mp_inv ((upd_conn ref f p)\<lparr>mp_closing := cl\<rparr>)"
proof -
  let ?q = "(upd_conn ref f p)\<lparr>mp_closing := cl\<rparr>"
  have c: "current r ?q = current r p" for r using current_upd_conn [OF f, of r ref p] by (simp add: current_def)
  have "conn_ok ?q r" if "r \<noteq> ref" for r
    using i that cl unfolding mp_inv_def conn_ok_def c by (auto simp: upd_conn_def Let_def)
  then have "\<forall>r. conn_ok ?q r" using ok by metis
  then show ?thesis using i unfolding mp_inv_def by (simp add: upd_conn_def)
qed

lemma upd_one_inv:
  assumes "mp_inv p" "\<And>c. cn_server (f c) = cn_server c \<and> cn_workspace (f c) = cn_workspace c" "conn_ok (upd_conn ref f p) ref"
  shows "mp_inv (upd_conn ref f p)"
  using upd_conn_inv [of p f ref "mp_closing p"] assms by (simp add: upd_conn_def)

text \<open>A step that takes connections out of a server, to close them.\<close>

lemma take_inv:
  assumes i: "mp_inv p" and n: "sref < mp_svnext p"
    and t: "\<And>ws c. connFor ws (mp_svs p sref) = Some c \<Longrightarrow> connFor ws s = Some c \<or> c \<in> set cs"
  shows "mp_inv ((upd_server sref (\<lambda>_. s) p)\<lparr>mp_closing := cs @ mp_closing p\<rparr>)"
proof -
  let ?q = "(upd_server sref (\<lambda>_. s) p)\<lparr>mp_closing := cs @ mp_closing p\<rparr>"
  have "conn_ok ?q r" for r
  proof (rule frame_ok)
    show "conn_ok p r" using i by (simp add: mp_inv_def)
    show "current r ?q \<or> r \<in> set (mp_closing ?q)" if "current r p"
      using that t by (auto simp: current_def upd_server_def)
  qed (auto simp: upd_server_def)
  then show ?thesis using i n by (auto simp: mp_inv_def upd_server_def)
qed

lemma filter_key: "k \<noteq> ws \<Longrightarrow> map_of (filter (\<lambda>(k, _). k \<noteq> ws) xs) k = map_of xs k"
  by (induction xs) auto

lemma map_of_snd: "map_of xs k = Some c \<Longrightarrow> c \<in> set (map snd xs)"
  by (force dest: map_of_SomeD)

lemma takeConns_out:
  assumes "takeConns ws s = (cs, s')" "connFor k s = Some c"
  shows "connFor k s' = Some c \<or> c \<in> set cs"
proof (cases "ws = []")
  case True
  then show ?thesis using assms map_of_snd [of "sv_local s" k c]
    by (auto simp: takeConns_def connFor_def simp del: set_map split: if_splits option.splits)
next
  case False
  then show ?thesis using assms filter_key [of k ws "sv_local s"]
    by (cases "k = ws") (auto simp: takeConns_def connFor_def split: if_splits option.splits)
qed

lemma take_all_inv: "mp_inv p \<Longrightarrow> sref < mp_svnext p \<Longrightarrow> mp_inv (take_all sref ws p)"
  using take_inv takeConns_out by (auto simp: take_all_def split: prod.splits)

lemma drop_inv:
  assumes "mp_inv p" "sref < mp_svnext p"
  shows "mp_inv (reconnect_drop sref key p)"
proof (cases "connFor key (mp_svs p sref)")
  case (Some c)
  let ?s = "if key = [] then (mp_svs p sref)\<lparr>sv_remote := None\<rparr>
    else (mp_svs p sref)\<lparr>sv_local := filter (\<lambda>(k, _). k \<noteq> key) (sv_local (mp_svs p sref))\<rparr>"
  have "connFor ws ?s = Some x \<or> x \<in> set [c]" if "connFor ws (mp_svs p sref) = Some x" for ws x
    using that Some filter_key [of ws key "sv_local (mp_svs p sref)"] by (cases "ws = key") (auto simp: connFor_def)
  from take_inv [OF assms this] Some show ?thesis by (simp add: reconnect_drop_def upd_server_def)
qed (simp add: reconnect_drop_def assms)

text \<open>A step that changes no connection of any server.\<close>

lemma same_conns_inv:
  assumes i: "mp_inv p" and q: "mp_conns q = mp_conns p" "mp_closing q = mp_closing p" "mp_svnext p \<le> mp_svnext q"
    and c: "\<And>x ws. connFor ws (mp_svs q x) = connFor ws (mp_svs p x)"
    and m: "\<And>i x. mp_servers q i = Some x \<Longrightarrow> x < mp_svnext q"
  shows "mp_inv q"
proof -
  have "current r q = current r p" for r by (simp add: current_def q(1) c)
  then have "conn_ok q r" for r using i by (simp add: mp_inv_def conn_ok_def q)
  then show ?thesis using i m c q(3) by (simp add: mp_inv_def)
qed

lemma serverFor_inv:
  assumes i: "mp_inv p"
  shows "mp_inv (snd (serverFor cfg p))"
proof (rule same_conns_inv [OF i])
  have "connFor ws (mp_svs p (mp_svnext p)) = None" for ws using i by (simp add: mp_inv_def)
  then have r: "sv_remote (mp_svs p (mp_svnext p)) = None" "\<And>ws. ws \<noteq> [] \<Longrightarrow> map_of (sv_local (mp_svs p (mp_svnext p))) ws = None"
    by (metis connFor_def)+
  show "connFor ws (mp_svs (snd (serverFor cfg p)) x) = connFor ws (mp_svs p x)" for x ws
    using r by (auto simp: serverFor_def Let_def upd_server_def connFor_def zero_server_def split: option.splits)
  show "x < mp_svnext (snd (serverFor cfg p))" if "mp_servers (snd (serverFor cfg p)) j = Some x" for j x
    using i that by (auto simp: serverFor_def Let_def upd_server_def mp_inv_def less_SucI split: option.splits if_splits)
qed (auto simp: serverFor_def Let_def upd_server_def split: option.splits)

lemma Removed_inv:
  assumes "mp_inv p"
  shows "mp_inv (pool_Removed i p)"
proof (cases "mp_servers p i")
  case (Some sref)
  have "mp_inv (p\<lparr>mp_servers := (mp_servers p)(i := None)\<rparr>)"
    using assms by (intro same_conns_inv [OF assms]) (auto simp: mp_inv_def split: if_splits)
  then show ?thesis using Some assms take_all_inv [of "p\<lparr>mp_servers := (mp_servers p)(i := None)\<rparr>" sref "[]"]
    by (simp add: pool_Removed_def mp_inv_def)
qed (simp add: pool_Removed_def assms)

lemma begin_conn_inv:
  assumes i: "mp_inv p" and n: "sref < mp_svnext p"
  shows "mp_inv (snd (connection_begin sref cfg ws retry now p))"
proof -
  let ?key = "if sf_kind cfg = KindStdio then ws else []" and ?new = "mp_next p"
  let ?q = "(upd_server sref (setConn ?key ?new) p)\<lparr>mp_next := Suc ?new, mp_conns := (mp_conns p)(?new := zero_conn\<lparr>cn_server := sref,
    cn_workspace := ?key, cn_attempted := now, cn_phase := Claimed\<rparr>)\<rparr>"
  have key: "connFor k (mp_svs ?q x) = (if x = sref \<and> k = ?key then Some ?new else connFor k (mp_svs p x))" for k x
    by (auto simp: upd_server_def setConn_def connFor_def filter_key)
  have q: "mp_inv ?q" if old: "\<And>c. connFor ?key (mp_svs p sref) = Some c \<Longrightarrow> finished (mp_conns p c) \<and> \<not> alive (mp_conns p c)"
  proof -
    have "conn_ok ?q r" for r
    proof (cases "r = ?new")
      case False
      have p: "conn_ok p r" using i by (simp add: mp_inv_def)
      show ?thesis
      proof (rule frame_ok [OF p])
        show "mp_conns ?q r = mp_conns p r" using False by simp
        show "current r ?q \<or> r \<in> set (mp_closing ?q)" if c: "current r p" "cn_sock (mp_conns p r) = ClientUp"
        proof (cases "cn_server (mp_conns p r) = sref \<and> cn_workspace (mp_conns p r) = ?key")
          case True
          then have "finished (mp_conns p r)" "\<not> alive (mp_conns p r)" using old [of r] c(1) by (auto simp: current_def)
          then show ?thesis using p c(2) by (auto simp: conn_ok_def alive_def finished_def Let_def upd_server_def)
        next
          case False': False
          have "cn_server (mp_conns ?q r) = cn_server (mp_conns p r)" "cn_workspace (mp_conns ?q r) = cn_workspace (mp_conns p r)"
            using False by simp_all
          then show ?thesis using c(1) False' unfolding current_def key by auto
        qed
      qed (simp add: upd_server_def)
    qed (simp add: conn_ok_def zero_conn_def)
    moreover have "\<forall>x \<ge> mp_svnext ?q. \<forall>k. connFor k (mp_svs ?q x) = None"
      using i n unfolding key by (auto simp: mp_inv_def upd_server_def)
    ultimately show ?thesis using i by (simp add: mp_inv_def upd_server_def)
  qed
  show ?thesis unfolding connection_begin_def Let_def
    using i q by (auto split: option.splits)
qed

lemma conn_okD: "mp_inv p \<Longrightarrow> conn_ok p ref"
  by (simp add: mp_inv_def)

lemma single_inv:
  assumes i: "mp_inv p"
  shows "cn_phase (mp_conns p ref) = Claimed \<Longrightarrow> mp_inv (connection_check ref p)"
    and "cn_phase (mp_conns p ref) = Opening \<Longrightarrow> mp_inv (conn_failed ref e p)"
    and "cn_phase (mp_conns p ref) = Opening \<Longrightarrow> mp_inv (open_dialed ref p)"
    and "cn_phase (mp_conns p ref) = Dialed \<Longrightarrow> mp_inv (open_record ref p)"
    and "cn_phase (mp_conns p ref) = Recorded \<Longrightarrow> mp_inv (open_ready ref p)"
    and "mp_inv (client_ends ref p)"
proof -
  note ok = conn_okD [OF i, of ref]
  show "mp_inv (connection_check ref p)" if "cn_phase (mp_conns p ref) = Claimed"
    unfolding connection_check_def
    by (rule upd_one_inv [OF i]) (use ok that in \<open>auto simp: conn_ok_def Let_def upd_conn_def\<close>)
  show "mp_inv (conn_failed ref e p)" if "cn_phase (mp_conns p ref) = Opening"
    unfolding conn_failed_def
    by (rule upd_one_inv [OF i]) (use ok that in \<open>auto simp: conn_ok_def Let_def upd_conn_def\<close>)
  show "mp_inv (open_dialed ref p)" if "cn_phase (mp_conns p ref) = Opening"
    unfolding open_dialed_def
    by (rule upd_one_inv [OF i]) (use ok that in \<open>auto simp: conn_ok_def Let_def upd_conn_def\<close>)
  show "mp_inv (open_ready ref p)" if "cn_phase (mp_conns p ref) = Recorded"
    unfolding open_ready_def
    by (rule upd_one_inv [OF i]) (use ok that in \<open>auto simp: conn_ok_def Let_def upd_conn_def current_def\<close>)
  show "mp_inv (client_ends ref p)"
    unfolding client_ends_def
    by (rule upd_one_inv [OF i]) (use ok in \<open>auto simp: conn_ok_def Let_def upd_conn_def\<close>)
  show "mp_inv (open_record ref p)" if "cn_phase (mp_conns p ref) = Dialed"
  proof (cases "current ref p")
    case True
    then show ?thesis unfolding open_record_def if_P [OF True]
      by (intro upd_one_inv [OF i]) (use ok that in \<open>auto simp: conn_ok_def Let_def upd_conn_def current_def\<close>)
  next
    case False
    show ?thesis unfolding open_record_def if_not_P [OF False]
      by (intro upd_one_inv [OF i]) (use ok that in \<open>auto simp: conn_ok_def Let_def upd_conn_def current_def\<close>)
  qed
qed

lemma dropped_inv:
  assumes i: "mp_inv p"
  shows "mp_inv (conn_dropped ref e p)"
proof (cases "current ref p")
  case True
  have "mp_inv ((upd_conn ref (\<lambda>c. c\<lparr>cn_err := Some e\<rparr>) p)\<lparr>mp_closing := ref # mp_closing p\<rparr>)"
    by (rule upd_conn_inv [OF i]) (use conn_okD [OF i, of ref] in \<open>auto simp: conn_ok_def Let_def upd_conn_def\<close>)
  then show ?thesis using True by (simp add: conn_dropped_def)
qed (simp add: conn_dropped_def i)

lemma close_inv:
  assumes i: "mp_inv p" and c: "close_end ref p = Some q"
  shows "mp_inv q"
proof -
  have f: "cn_phase (mp_conns p ref) = Settled"
    and q: "q = (upd_conn ref (\<lambda>c. if cn_client c then c\<lparr>cn_sock := ClientDown\<rparr> else c) p)\<lparr>mp_closing := remove1 ref (mp_closing p)\<rparr>"
    using c by (auto simp: close_end_def finished_def split: if_splits)
  have "set (mp_closing p) - {ref} \<subseteq> set (remove1 ref (mp_closing p))" using in_set_remove1 by fastforce
  moreover have "conn_ok q ref" using conn_okD [OF i, of ref] f by (auto simp: q conn_ok_def Let_def upd_conn_def)
  ultimately show ?thesis unfolding q by (intro upd_conn_inv [OF i]) auto
qed

lemma mp_step_inv:
  assumes "mp_step p q" "mp_inv p"
  shows "mp_inv q"
  using assms(1)
proof (cases rule: mp_step.cases)
  case mp_close
  then show ?thesis using close_inv [OF assms(2)] by blast
next
  case mp_stop
  then show ?thesis using same_conns_inv [OF assms(2), of q] assms(2) by (auto simp: pool_stop_def mp_inv_def)
qed (use assms(2) in \<open>simp_all add: serverFor_inv begin_conn_inv single_inv dropped_inv take_all_inv drop_inv Removed_inv\<close>)

lemma mp_inv_start: "mp_inv NewPool"
  by (simp add: mp_inv_def NewPool_def conn_ok_def zero_conn_def connFor_def zero_server_def)

interpretation mcp: transition_system NewPool mp_step mp_inv
  by unfold_locales (auto intro: mp_inv_start mp_step_inv)

text \<open>
  C17. However connecting, losing, replacing and ending connections interleave, every open client belongs
  to a connection its server still uses, or to one that someone is closing, or to one that is about to
  be recorded or discarded; and a connection that failed while its client is open is being closed.
\<close>

theorem mcp_no_stray_client:
  assumes "reachable NewPool mp_step p" "cn_sock (mp_conns p ref) = ClientUp"
  shows "(current ref p \<or> ref \<in> set (mp_closing p) \<or> cn_phase (mp_conns p ref) = Dialed)
    \<and> (cn_err (mp_conns p ref) \<noteq> None \<longrightarrow> ref \<in> set (mp_closing p))"
  using conn_okD [OF mcp.reachable_inv [OF assms(1)], of ref] assms(2) by (auto simp: conn_ok_def Let_def)

text \<open>Concrete runs: a script of steps, each of which may be refused.\<close>

definition http_server :: server_config where
  "http_server = \<lparr>sf_id = ''s'', sf_name = ''s'', sf_kind = KindHTTP, sf_enabled = True, sf_disabled = []\<rparr>"

definition looked_up :: pool where
  "looked_up = snd (serverFor http_server NewPool)"

definition claimed :: pool where
  "claimed = snd (connection_begin 0 http_server [] False 0 looked_up)"

lemma looked_up_reachable: "reachable NewPool mp_step looked_up" "mp_svnext looked_up = 1"
  unfolding looked_up_def by (rule reach_step, rule reach_start, rule mp_lookup) (simp add: serverFor_def NewPool_def upd_server_def Let_def)

lemma claimed_reachable: "reachable NewPool mp_step claimed"
  unfolding claimed_def by (rule reach_step, rule looked_up_reachable(1), rule mp_begin) (simp add: looked_up_reachable(2))

definition connected :: pool where
  "connected = open_ready 0 (open_record 0 (open_dialed 0 (connection_check 0 claimed)))"

theorem mcp_no_stray_client_witness: "current 0 connected \<or> 0 \<in> set (mp_closing connected)"
proof -
  let ?a = "connection_check 0 claimed" let ?b = "open_dialed 0 ?a" let ?c = "open_record 0 ?b"
  have s: "mp_next claimed = 1" "cn_phase (mp_conns claimed 0) = Claimed" "mp_next ?a = 1" "cn_phase (mp_conns ?a 0) = Opening"
    "mp_next ?b = 1" "cn_phase (mp_conns ?b 0) = Dialed" "mp_next ?c = 1" "cn_phase (mp_conns ?c 0) = Recorded"
    "cn_sock (mp_conns connected 0) = ClientUp" "cn_phase (mp_conns connected 0) = Settled" by code_simp+
  have "reachable NewPool mp_step ?a" by (rule reach_step, rule claimed_reachable, rule mp_check) (simp_all add: s)
  then have "reachable NewPool mp_step ?b" by (rule reach_step) (rule mp_dialed; simp add: s)
  then have "reachable NewPool mp_step ?c" by (rule reach_step) (rule mp_record; simp add: s)
  then have "reachable NewPool mp_step connected" unfolding connected_def by (rule reach_step) (rule mp_ready; simp add: s)
  from mcp_no_stray_client [OF this, of 0] s(9,10) show ?thesis by auto
qed

section \<open>Two races\<close>

lemma begin_keeps:
  "mp_next p \<le> mp_next (snd (connection_begin sref cfg ws retry now p))"
  "mp_closing (snd (connection_begin sref cfg ws retry now p)) = mp_closing p"
  "r < mp_next p \<Longrightarrow> mp_conns (snd (connection_begin sref cfg ws retry now p)) r = mp_conns p r"
  unfolding connection_begin_def Let_def by (simp_all add: upd_server_def split: option.split)

lemma orphan_step:
  assumes "mp_step p q" "ref < mp_next p" "cn_phase (mp_conns p ref) = Orphaned" "ref \<in> set (mp_closing p)"
  shows "ref < mp_next q \<and> cn_phase (mp_conns q ref) = Orphaned \<and> ref \<in> set (mp_closing q)"
  using assms(1)
proof (cases rule: mp_step.cases)
  case (mp_lookup cfg)
  then show ?thesis using assms(2-) by (auto simp: serverFor_def Let_def upd_server_def split: option.splits)
next
  case (mp_begin sref cfg ws retry now)
  show ?thesis unfolding mp_begin(1) using assms(2-) 
      begin_keeps [where p = p and sref = sref and cfg = cfg and ws = ws and retry = retry and now = now] by simp
next
  case (mp_close r)
  then have "r \<noteq> ref" using assms(3) by (auto simp: close_end_def finished_def split: if_splits)
  then show ?thesis using mp_close assms(2-) in_set_remove1 [of ref r "mp_closing p"]
    by (auto simp: close_end_def upd_conn_def split: if_splits)
qed (use assms(2-) in \<open>auto simp: connection_check_def conn_failed_def open_dialed_def open_record_def open_ready_def conn_dropped_def
    client_ends_def take_all_def reconnect_drop_def pool_Removed_def pool_stop_def upd_conn_def upd_server_def
    split: prod.splits option.splits\<close>)

lemma orphan_steps:
  assumes "steps mp_step p q" "ref < mp_next p" "cn_phase (mp_conns p ref) = Orphaned" "ref \<in> set (mp_closing p)"
  shows "ref < mp_next q \<and> cn_phase (mp_conns q ref) = Orphaned \<and> ref \<in> set (mp_closing q)"
  using assms
proof (induction rule: steps.induct)
  case (steps_step s t u)
  then show ?case using orphan_step [of t u ref] by auto
qed simp

definition stranded :: pool where
  "stranded = connection_check 0 (take_all 0 [] (pool_stop claimed))"

definition forgotten :: pool where
  "forgotten = open_ready 0 (open_record 0 (open_dialed 0 (connection_check 0
     (snd (connection_begin 0 http_server [] False 0 (pool_Removed ''s'' looked_up))))))"

text \<open>
  C35. Two races. A connection that is claimed just before the pool stops is taken by the closing of the pool,
  which waits for it for ever: the goroutine that claimed it gives up without closing \<^verbatim>\<open>ready\<close>. And a
  server that is deleted between the lookup and the claim gets a connection that works, is known to no
  map of the pool and is being closed by nobody.
\<close>

theorem mcp_shutdown_races:
  "reachable NewPool mp_step stranded \<and> mp_stopped stranded
   \<and> (\<forall>q. steps mp_step stranded q \<longrightarrow> 0 \<in> set (mp_closing q) \<and> close_end 0 q = None)
   \<and> reachable NewPool mp_step forgotten \<and> alive (mp_conns forgotten 0) \<and> mp_servers forgotten ''s'' = None
   \<and> mp_closing forgotten = []"
proof (intro conjI allI impI)
  let ?a = "pool_stop claimed" let ?b = "take_all 0 [] ?a"
  have s: "mp_svnext ?a = 1" "mp_next ?b = 1" "cn_phase (mp_conns ?b 0) = Claimed" by code_simp+
  have "reachable NewPool mp_step ?a" by (rule reach_step, rule claimed_reachable, rule mp_stop)
  then have "reachable NewPool mp_step ?b" by (rule reach_step) (rule mp_take; simp add: s)
  then show "reachable NewPool mp_step stranded" unfolding stranded_def by (rule reach_step) (rule mp_check; simp add: s)
  show "mp_stopped stranded" by code_simp
  have o: "0 < mp_next stranded" "cn_phase (mp_conns stranded 0) = Orphaned" "list_ex (\<lambda>x. x = 0) (mp_closing stranded)" by code_simp+
  show "0 \<in> set (mp_closing q)" "close_end 0 q = None" if "steps mp_step stranded q" for q
    using orphan_steps [OF that, of 0] o by (auto simp: list_ex_iff close_end_def finished_def)
next
  let ?a = "pool_Removed ''s'' looked_up" let ?b = "snd (connection_begin 0 http_server [] False 0 ?a)"
  let ?c = "connection_check 0 ?b" let ?d = "open_dialed 0 ?c" let ?e = "open_record 0 ?d"
  have s: "mp_svnext ?a = 1" "mp_next ?b = 1" "cn_phase (mp_conns ?b 0) = Claimed" "mp_next ?c = 1" "cn_phase (mp_conns ?c 0) = Opening"
    "mp_next ?d = 1" "cn_phase (mp_conns ?d 0) = Dialed" "mp_next ?e = 1" "cn_phase (mp_conns ?e 0) = Recorded" by code_simp+
  have "reachable NewPool mp_step ?a" by (rule reach_step, rule looked_up_reachable(1), rule mp_removed)
  then have "reachable NewPool mp_step ?b" by (rule reach_step) (rule mp_begin; simp add: s)
  then have "reachable NewPool mp_step ?c" by (rule reach_step) (rule mp_check; simp add: s)
  then have "reachable NewPool mp_step ?d" by (rule reach_step) (rule mp_dialed; simp add: s)
  then have "reachable NewPool mp_step ?e" by (rule reach_step) (rule mp_record; simp add: s)
  then show "reachable NewPool mp_step forgotten" unfolding forgotten_def by (rule reach_step) (rule mp_ready; simp add: s)
  show "alive (mp_conns forgotten 0)" "mp_servers forgotten ''s'' = None" "mp_closing forgotten = []" by code_simp+
qed

theorem mcp_shutdown_races_witness: "0 \<in> set (mp_closing stranded) \<and> close_end 0 stranded = None"
  using mcp_shutdown_races steps_refl [of mp_step stranded] by blast

end
