(* ===== verification/Sign_In.thy ===== *)
theory Sign_In
  imports Session_Store
begin

text \<open>
  \<^verbatim>\<open>server/auth.go\<close>, \<^verbatim>\<open>server/password.go\<close> and \<^verbatim>\<open>store/auth.go\<close>: the password of a harness, the sessions of
  signed-in browsers and which requests are let through. A handler reads and writes the database several
  times, so each access is a step of its own and the requests that are being served interleave. The key
  derivation, the base64 encoding and the hash of a token are the fields of a record \<open>crypto\<close>
  (\<^verbatim>\<open>tokenHash\<close> is \<open>cr_sha\<close>); salts and tokens are random and arguments of the steps. Nothing is assumed of
  them but \<open>crypto_ok\<close>.
\<close>

section \<open>Passwords\<close>

record crypto =
  cr_kdf :: "string \<Rightarrow> string \<Rightarrow> int \<Rightarrow> nat \<Rightarrow> string option"
  cr_enc :: "string \<Rightarrow> string"
  cr_dec :: "string \<Rightarrow> string option"
  cr_sha :: "string \<Rightarrow> string"

definition passwordScheme :: string where "passwordScheme = ''pbkdf2-sha256''"

definition passwordIterations :: int where "passwordIterations = 600000"

definition passwordKeyBytes :: nat where "passwordKeyBytes = 32"

definition minPasswordLength :: nat where "minPasswordLength = 8"

definition maxPasswordLength :: nat where "maxPasswordLength = 1024"

fun split_char :: "char \<Rightarrow> string \<Rightarrow> string list" where
  "split_char d [] = [[]]"
| "split_char d (c # s) =
    (if c = d then [] # split_char d s else (case split_char d s of [] \<Rightarrow> [[c]] | p # ps \<Rightarrow> (c # p) # ps))"

text \<open>\<^verbatim>\<open>strconv.Atoi\<close> on 64 bits.\<close>

definition digit_value :: "char \<Rightarrow> int" where
  "digit_value c = of_char c - 48"

definition atoi :: "string \<Rightarrow> int option" where
  "atoi s =
    (let (neg, ds) = (case s of c # cs \<Rightarrow> if c = CHR ''-'' then (True, cs) else if c = CHR ''+'' then (False, cs) else (False, s)
                               | [] \<Rightarrow> (False, []));
         n = foldl (\<lambda>n c. 10 * n + digit_value c) 0 ds; n = (if neg then - n else n) in
     if ds \<noteq> [] \<and> list_all (between 48 57) ds \<and> - (2 ^ 63) \<le> n \<and> n < 2 ^ 63 then Some n else None)"

definition hashPassword :: "crypto \<Rightarrow> string \<Rightarrow> string \<Rightarrow> string option" where
  "hashPassword cr salt password =
    (case cr_kdf cr password salt passwordIterations passwordKeyBytes of
       None \<Rightarrow> None
     | Some key \<Rightarrow> Some (join_str ''$'' [passwordScheme, itoa passwordIterations, cr_enc cr salt, cr_enc cr key]))"

definition checkPassword :: "crypto \<Rightarrow> string \<Rightarrow> string \<Rightarrow> bool" where
  "checkPassword cr stored password =
    (case split_char (CHR ''$'') stored of
       [scheme, iter, salt, key] \<Rightarrow>
         if scheme \<noteq> passwordScheme then False
         else (case atoi iter of
                 None \<Rightarrow> False
               | Some iterations \<Rightarrow>
                   if iterations < 1 then False
                   else (case cr_dec cr salt of
                           None \<Rightarrow> False
                         | Some salt \<Rightarrow>
                             (case cr_dec cr key of
                                None \<Rightarrow> False
                              | Some want \<Rightarrow>
                                  if want = [] then False
                                  else cr_kdf cr password salt iterations (length want) = Some want)))
     | _ \<Rightarrow> False)"

definition validatePassword :: "string \<Rightarrow> bool" where
  "validatePassword password \<longleftrightarrow> \<not> length (runes password) < minPasswordLength \<and> \<not> length password > maxPasswordLength"

text \<open>
  What the checks rely on: the encoding decodes and does not contain the separator, and a derived key
  has the length that was asked for.
\<close>

definition crypto_ok :: "crypto \<Rightarrow> bool" where
  "crypto_ok cr \<longleftrightarrow> (\<forall>s. cr_dec cr (cr_enc cr s) = Some s \<and> CHR ''$'' \<notin> set (cr_enc cr s))
     \<and> (\<forall>pw salt it n key. cr_kdf cr pw salt it n = Some key \<longrightarrow> length key = n)"

lemma split_char_nonempty [simp]: "split_char d s \<noteq> []"
  by (induction s) (auto split: list.split)

lemma split_char_append: "split_char d (a @ d # b) = split_char d a @ split_char d b"
proof (induction a)
  case (Cons x a)
  then show ?case by (cases "split_char d a") (auto split: list.splits)
qed simp

lemma split_char_plain: "d \<notin> set s \<Longrightarrow> split_char d s = [s]"
  by (induction s) auto

lemma itoa_600000: "itoa passwordIterations = ''600000''"
proof -
  have "digits 600000 = ''600000''" by (simp add: digits.simps) code_simp
  then show ?thesis by (simp add: itoa_def passwordIterations_def)
qed

lemma itoa_iterations: "atoi (itoa passwordIterations) = Some passwordIterations" "CHR ''$'' \<notin> set (itoa passwordIterations)"
  unfolding itoa_600000 by code_simp+

text \<open>A stored hash accepts exactly the passwords that derive the same key.\<close>

lemma checkPassword_hash:
  assumes "crypto_ok cr" "hashPassword cr salt pw = Some h"
  shows "checkPassword cr h pw' \<longleftrightarrow>
    cr_kdf cr pw' salt passwordIterations passwordKeyBytes = cr_kdf cr pw salt passwordIterations passwordKeyBytes"
proof -
  obtain key where k: "cr_kdf cr pw salt passwordIterations passwordKeyBytes = Some key"
    and h: "h = passwordScheme @ ''$'' @ itoa passwordIterations @ ''$'' @ cr_enc cr salt @ ''$'' @ cr_enc cr key"
    using assms(2) by (auto simp: hashPassword_def split: option.splits)
  have l: "length key = passwordKeyBytes" using assms(1) k unfolding crypto_ok_def by blast
  then have "key \<noteq> []" by (auto simp: passwordKeyBytes_def)
  note l = l this
  have "CHR ''$'' \<notin> set passwordScheme" by code_simp
  then have "split_char (CHR ''$'') h = [passwordScheme, itoa passwordIterations, cr_enc cr salt, cr_enc cr key]"
    using assms(1) itoa_iterations(2) by (simp add: h split_char_append split_char_plain crypto_ok_def)
  then show ?thesis using assms(1) l k itoa_iterations(1)
    by (simp add: checkPassword_def crypto_ok_def passwordIterations_def)
qed

section \<open>Tokens\<close>

record auth_request =
  ar_header :: string
  ar_path :: string
  ar_query :: string

definition eventsPath :: string where "eventsPath = ''/api/events''"

definition terminal_path :: "string \<Rightarrow> bool" where
  "terminal_path p = (case split_char (CHR ''/'') p of
     [a, b, c, w, t] \<Rightarrow> a = [] \<and> b = ''api'' \<and> c = ''workspaces'' \<and> w \<noteq> [] \<and> t = ''terminal'' | _ \<Rightarrow> False)"

definition isSocketPath :: "string \<Rightarrow> bool" where
  "isSocketPath p \<longleftrightarrow> p = eventsPath \<or> terminal_path p"

definition bearerToken :: "auth_request \<Rightarrow> string" where
  "bearerToken r =
    (if prefix ''Bearer '' (ar_header r) then trim_space (drop 7 (ar_header r))
     else if isSocketPath (ar_path r) then trim_space (ar_query r) else [])"

type_synonym auth_sessions = "(string \<times> int) list"

definition AuthSessionExpiry :: "string \<Rightarrow> auth_sessions \<Rightarrow> int option" where
  "AuthSessionExpiry th t = map_of t th"

definition CreateAuthSession :: "int \<Rightarrow> string \<Rightarrow> int \<Rightarrow> auth_sessions \<Rightarrow> err + auth_sessions" where
  "CreateAuthSession now th expires t =
    (let t = filter (\<lambda>(_, e). \<not> e \<le> now) t in
     if th \<in> fst ` set t then Inl (wrap_err ''create session'' ErrConflict) else Inr ((th, expires) # t))"

definition DeleteAuthSession :: "string \<Rightarrow> auth_sessions \<Rightarrow> auth_sessions" where
  "DeleteAuthSession th t = filter (\<lambda>(h, _). h \<noteq> th) t"

definition CreatePasswordHash :: "string \<Rightarrow> string option \<Rightarrow> err + string option" where
  "CreatePasswordHash h stored = (if stored \<noteq> None then Inl (wrap_err ''create password'' ErrConflict) else Inr (Some h))"

definition ReplacePasswordHash :: "string \<Rightarrow> string option \<times> auth_sessions \<Rightarrow> err + string option \<times> auth_sessions" where
  "ReplacePasswordHash h db = (if fst db = None then Inl (wrap_err ''replace password'' ErrNotFound) else Inr (Some h, []))"

definition sessionLifetime :: int where "sessionLifetime = 30 * 24 * 60 * 60 * 1000000000"

definition authorized :: "crypto \<Rightarrow> string \<Rightarrow> int \<Rightarrow> auth_request \<Rightarrow> auth_sessions \<Rightarrow> bool" where
  "authorized cr apiToken now r t =
    (let token = bearerToken r in
     if token = [] then False
     else if apiToken \<noteq> [] \<and> token = apiToken then True
     else (case AuthSessionExpiry (cr_sha cr token) t of None \<Rightarrow> False | Some expires \<Rightarrow> now < expires))"

section \<open>The handlers\<close>

text \<open>
  The three requests that end in a session, each with its body. The phases are the points between the
  accesses to the database; \<open>ap_read\<close> is the local \<^verbatim>\<open>stored\<close> and \<open>ap_wrote\<close> the local \<^verbatim>\<open>hash\<close> once it is in the
  database. A refusal carries the status of the answer.
\<close>

datatype attempt_kind = Login string | Setup string | Change string string

datatype attempt_phase = Arrived | Reading string | Storing | Verified | SignedIn string | Turned_Away nat

record auth_attempt =
  ap_kind :: attempt_kind
  ap_phase :: attempt_phase
  ap_read :: "string option"
  ap_wrote :: "string option"

record auth =
  au_hash :: "string option"
  au_sessions :: auth_sessions
  au_attempts :: "nat \<Rightarrow> auth_attempt"
  au_next :: nat

definition new_attempt :: "attempt_kind \<Rightarrow> auth_attempt" where
  "new_attempt k = \<lparr>ap_kind = k, ap_phase = Arrived, ap_read = None, ap_wrote = None\<rparr>"

definition no_auth :: auth where
  "no_auth = \<lparr>au_hash = None, au_sessions = [], au_attempts = (\<lambda>_. new_attempt (Login [])), au_next = 0\<rparr>"

definition upd_attempt :: "nat \<Rightarrow> (auth_attempt \<Rightarrow> auth_attempt) \<Rightarrow> auth \<Rightarrow> auth" where
  "upd_attempt ref f a = a\<lparr>au_attempts := (au_attempts a)(ref := f (au_attempts a ref))\<rparr>"

definition to_phase :: "nat \<Rightarrow> attempt_phase \<Rightarrow> auth \<Rightarrow> auth" where
  "to_phase ref ph a = upd_attempt ref (\<lambda>x. x\<lparr>ap_phase := ph\<rparr>) a"

definition arrive :: "attempt_kind \<Rightarrow> auth \<Rightarrow> auth" where
  "arrive k a = a\<lparr>au_attempts := (au_attempts a)(au_next a := new_attempt k), au_next := Suc (au_next a)\<rparr>"

definition passwordSet :: "auth \<Rightarrow> bool" where
  "passwordSet a \<longleftrightarrow> au_hash a \<noteq> None"

text \<open>
  The handlers up to their first access: setup asks whether there is a password, a sign-in and a change
  read its hash.
\<close>

definition setup_begin :: "string \<Rightarrow> nat \<Rightarrow> auth \<Rightarrow> auth" where
  "setup_begin pw ref a =
    (if \<not> validatePassword pw then to_phase ref (Turned_Away 400) a
     else if passwordSet a then to_phase ref (Turned_Away 409) a else to_phase ref Storing a)"

definition login_begin :: "nat \<Rightarrow> auth \<Rightarrow> auth" where
  "login_begin ref a =
    (case au_hash a of
       None \<Rightarrow> to_phase ref (Turned_Away 409) a
     | Some h \<Rightarrow> upd_attempt ref (\<lambda>x. x\<lparr>ap_phase := Reading h, ap_read := Some h\<rparr>) a)"

definition change_begin :: "nat \<Rightarrow> auth \<Rightarrow> auth" where
  "change_begin ref a =
    (case au_hash a of
       None \<Rightarrow> to_phase ref (Turned_Away 404) a
     | Some h \<Rightarrow> upd_attempt ref (\<lambda>x. x\<lparr>ap_phase := Reading h, ap_read := Some h\<rparr>) a)"

definition read_stored :: "nat \<Rightarrow> auth \<Rightarrow> auth" where
  "read_stored ref a =
    (case ap_kind (au_attempts a ref) of
       Setup pw \<Rightarrow> setup_begin pw ref a | Login _ \<Rightarrow> login_begin ref a | Change _ _ \<Rightarrow> change_begin ref a)"

text \<open>Checking the password against the hash that was read.\<close>

definition password_ok :: "crypto \<Rightarrow> string \<Rightarrow> string \<Rightarrow> bool" where
  "password_ok cr stored pw \<longleftrightarrow> length pw \<le> maxPasswordLength \<and> checkPassword cr stored pw"

definition login_check :: "crypto \<Rightarrow> string \<Rightarrow> string \<Rightarrow> nat \<Rightarrow> auth \<Rightarrow> auth" where
  "login_check cr stored pw ref a =
    (if \<not> password_ok cr stored pw then to_phase ref (Turned_Away 401) a else to_phase ref Verified a)"

definition change_check :: "crypto \<Rightarrow> string \<Rightarrow> string \<Rightarrow> string \<Rightarrow> nat \<Rightarrow> auth \<Rightarrow> auth" where
  "change_check cr stored cur new ref a =
    (if \<not> password_ok cr stored cur then to_phase ref (Turned_Away 400) a
     else if \<not> validatePassword new then to_phase ref (Turned_Away 400) a
     else to_phase ref Storing a)"

definition check_read :: "crypto \<Rightarrow> nat \<Rightarrow> string \<Rightarrow> auth \<Rightarrow> auth" where
  "check_read cr ref stored a =
    (case ap_kind (au_attempts a ref) of
       Login pw \<Rightarrow> login_check cr stored pw ref a
     | Change cur new \<Rightarrow> change_check cr stored cur new ref a
     | Setup _ \<Rightarrow> a)"

text \<open>The password that is hashed and stored.\<close>

definition new_password :: "attempt_kind \<Rightarrow> string option" where
  "new_password k = (case k of Login _ \<Rightarrow> None | Setup pw \<Rightarrow> Some pw | Change _ new \<Rightarrow> Some new)"

definition wrote :: "nat \<Rightarrow> string \<Rightarrow> auth \<Rightarrow> auth" where
  "wrote ref h a = upd_attempt ref (\<lambda>x. x\<lparr>ap_phase := Verified, ap_wrote := Some h\<rparr>) a"

definition setup_store :: "crypto \<Rightarrow> string \<Rightarrow> string \<Rightarrow> nat \<Rightarrow> auth \<Rightarrow> auth" where
  "setup_store cr salt pw ref a =
    (case hashPassword cr salt pw of
       None \<Rightarrow> to_phase ref (Turned_Away 500) a
     | Some h \<Rightarrow>
         (case CreatePasswordHash h (au_hash a) of
            Inl _ \<Rightarrow> to_phase ref (Turned_Away 409) a
          | Inr stored \<Rightarrow> (wrote ref h a)\<lparr>au_hash := stored\<rparr>))"

definition change_store :: "crypto \<Rightarrow> string \<Rightarrow> string \<Rightarrow> nat \<Rightarrow> auth \<Rightarrow> auth" where
  "change_store cr salt new ref a =
    (case hashPassword cr salt new of
       None \<Rightarrow> to_phase ref (Turned_Away 500) a
     | Some h \<Rightarrow>
         (case ReplacePasswordHash h (au_hash a, au_sessions a) of
            Inl _ \<Rightarrow> to_phase ref (Turned_Away 404) a
          | Inr (stored, t) \<Rightarrow> (wrote ref h a)\<lparr>au_hash := stored, au_sessions := t\<rparr>))"

definition store_hash :: "crypto \<Rightarrow> string \<Rightarrow> nat \<Rightarrow> auth \<Rightarrow> auth" where
  "store_hash cr salt ref a =
    (case ap_kind (au_attempts a ref) of
       Setup pw \<Rightarrow> setup_store cr salt pw ref a | Change _ new \<Rightarrow> change_store cr salt new ref a | Login _ \<Rightarrow> a)"

definition signIn :: "crypto \<Rightarrow> string \<Rightarrow> int \<Rightarrow> nat \<Rightarrow> auth \<Rightarrow> auth" where
  "signIn cr token now ref a =
    (case CreateAuthSession now (cr_sha cr token) (now + sessionLifetime) (au_sessions a) of
       Inl _ \<Rightarrow> to_phase ref (Turned_Away 409) a
     | Inr t \<Rightarrow> (to_phase ref (SignedIn (cr_sha cr token)) a)\<lparr>au_sessions := t\<rparr>)"

definition handleLogout :: "crypto \<Rightarrow> auth_request \<Rightarrow> auth \<Rightarrow> auth" where
  "handleLogout cr r a = a\<lparr>au_sessions := DeleteAuthSession (cr_sha cr (bearerToken r)) (au_sessions a)\<rparr>"

text \<open>
  Setup and sign-in are public, a change and a sign-out are behind \<^verbatim>\<open>authenticated\<close>. Whatever else fails (the
  body, the database) ends a request without an effect.
\<close>

definition public_kind :: "attempt_kind \<Rightarrow> bool" where
  "public_kind k = (case k of Change _ _ \<Rightarrow> False | _ \<Rightarrow> True)"

definition in_flight :: "attempt_phase \<Rightarrow> bool" where
  "in_flight ph = (case ph of SignedIn _ \<Rightarrow> False | Turned_Away _ \<Rightarrow> False | _ \<Rightarrow> True)"

inductive au_step :: "crypto \<Rightarrow> string \<Rightarrow> auth \<Rightarrow> auth \<Rightarrow> bool" for cr apiToken where
  au_arrive: "public_kind k \<or> authorized cr apiToken now r (au_sessions a) \<Longrightarrow> au_step cr apiToken a (arrive k a)"
| au_read: "ref < au_next a \<Longrightarrow> ap_phase (au_attempts a ref) = Arrived \<Longrightarrow> au_step cr apiToken a (read_stored ref a)"
| au_check: "ref < au_next a \<Longrightarrow> ap_phase (au_attempts a ref) = Reading h \<Longrightarrow> au_step cr apiToken a (check_read cr ref h a)"
| au_store: "ref < au_next a \<Longrightarrow> ap_phase (au_attempts a ref) = Storing \<Longrightarrow> au_step cr apiToken a (store_hash cr salt ref a)"
| au_sign: "ref < au_next a \<Longrightarrow> ap_phase (au_attempts a ref) = Verified \<Longrightarrow> au_step cr apiToken a (signIn cr token now ref a)"
| au_fail: "ref < au_next a \<Longrightarrow> in_flight (ap_phase (au_attempts a ref)) \<Longrightarrow>
    au_step cr apiToken a (to_phase ref (Turned_Away code) a)"
| au_logout: "authorized cr apiToken now r (au_sessions a) \<Longrightarrow> au_step cr apiToken a (handleLogout cr r a)"

section \<open>What a session rests on\<close>

text \<open>A hash somebody chose: setup or a change wrote it.\<close>

definition chosen :: "auth \<Rightarrow> string \<Rightarrow> bool" where
  "chosen a h \<longleftrightarrow> (\<exists>ref < au_next a. ap_wrote (au_attempts a ref) = Some h)"

definition has_checked :: "crypto \<Rightarrow> auth_attempt \<Rightarrow> string \<Rightarrow> bool" where
  "has_checked cr x pw \<longleftrightarrow> (\<exists>h. ap_read x = Some h \<and> password_ok cr h pw)"

definition has_hashed :: "crypto \<Rightarrow> string \<Rightarrow> string \<Rightarrow> bool" where
  "has_hashed cr pw h \<longleftrightarrow> validatePassword pw \<and> (\<exists>salt. hashPassword cr salt pw = Some h)"

text \<open>What holds of one request by itself, before it may store and after it did.\<close>

definition may_store :: "crypto \<Rightarrow> auth_attempt \<Rightarrow> bool" where
  "may_store cr x = (case ap_kind x of
     Login _ \<Rightarrow> False
   | Setup pw \<Rightarrow> validatePassword pw
   | Change cur new \<Rightarrow> has_checked cr x cur \<and> validatePassword new)"

definition may_sign :: "crypto \<Rightarrow> auth_attempt \<Rightarrow> bool" where
  "may_sign cr x = (case ap_kind x of Login pw \<Rightarrow> has_checked cr x pw | _ \<Rightarrow> may_store cr x \<and> ap_wrote x \<noteq> None)"

definition attempt_ok :: "crypto \<Rightarrow> auth_attempt \<Rightarrow> bool" where
  "attempt_ok cr x \<longleftrightarrow>
     (case ap_phase x of
        Arrived \<Rightarrow> ap_wrote x = None
      | Reading h \<Rightarrow> ap_read x = Some h \<and> ap_wrote x = None
      | Storing \<Rightarrow> may_store cr x \<and> ap_wrote x = None
      | Verified \<Rightarrow> may_sign cr x
      | SignedIn _ \<Rightarrow> may_sign cr x
      | _ \<Rightarrow> True)
   \<and> (\<forall>h. ap_wrote x = Some h \<longrightarrow> (\<exists>pw. new_password (ap_kind x) = Some pw \<and> has_hashed cr pw h))"

definition is_setup :: "attempt_kind \<Rightarrow> bool" where
  "is_setup k = (case k of Setup _ \<Rightarrow> True | _ \<Rightarrow> False)"

definition hash_inv :: "auth \<Rightarrow> bool" where
  "hash_inv a \<longleftrightarrow>
     (\<forall>h. au_hash a = Some h \<longrightarrow> chosen a h)
   \<and> (au_hash a = None \<longrightarrow> (\<forall>h. \<not> chosen a h))
   \<and> (\<forall>ref < au_next a. \<forall>h. ap_read (au_attempts a ref) = Some h \<longrightarrow> chosen a h)"

definition setup_inv :: "auth \<Rightarrow> bool" where
  "setup_inv a \<longleftrightarrow> (\<forall>r < au_next a. \<forall>r' < au_next a.
     is_setup (ap_kind (au_attempts a r)) \<and> ap_wrote (au_attempts a r) \<noteq> None \<and>
     is_setup (ap_kind (au_attempts a r')) \<and> ap_wrote (au_attempts a r') \<noteq> None \<longrightarrow> r = r')"

definition signed_in :: "auth \<Rightarrow> string \<Rightarrow> bool" where
  "signed_in a th \<longleftrightarrow> (\<exists>ref < au_next a. ap_phase (au_attempts a ref) = SignedIn th)"

definition sessions_inv :: "auth \<Rightarrow> bool" where
  "sessions_inv a \<longleftrightarrow> (\<forall>th \<in> fst ` set (au_sessions a). signed_in a th)"

definition au_inv :: "crypto \<Rightarrow> auth \<Rightarrow> bool" where
  "au_inv cr a \<longleftrightarrow> (\<forall>ref < au_next a. attempt_ok cr (au_attempts a ref)) \<and> hash_inv a \<and> setup_inv a \<and> sessions_inv a"

lemmas handler_defs = read_stored_def setup_begin_def login_begin_def change_begin_def passwordSet_def
  check_read_def login_check_def change_check_def store_hash_def setup_store_def change_store_def
  CreatePasswordHash_def ReplacePasswordHash_def

text \<open>Updates of one request.\<close>

lemma upd_attempt_simps [simp]:
  "au_hash (upd_attempt ref f a) = au_hash a"
  "au_sessions (upd_attempt ref f a) = au_sessions a"
  "au_next (upd_attempt ref f a) = au_next a"
  "au_attempts (upd_attempt ref f a) ref = f (au_attempts a ref)"
  "r \<noteq> ref \<Longrightarrow> au_attempts (upd_attempt ref f a) r = au_attempts a r"
  by (simp_all add: upd_attempt_def)

lemma other_congs [simp]:
  "chosen (a\<lparr>au_hash := x\<rparr>) = chosen a" "chosen (a\<lparr>au_sessions := t\<rparr>) = chosen a"
  "signed_in (a\<lparr>au_hash := x\<rparr>) = signed_in a" "signed_in (a\<lparr>au_sessions := t\<rparr>) = signed_in a"
  "setup_inv (a\<lparr>au_hash := x\<rparr>) = setup_inv a" "setup_inv (a\<lparr>au_sessions := t\<rparr>) = setup_inv a"
  by (simp_all add: chosen_def signed_in_def setup_inv_def fun_eq_iff)

text \<open>A field that an update keeps is the same in every request.\<close>

lemma upd_keeps: "(\<And>x. g (f x) = g x) \<Longrightarrow> g (au_attempts (upd_attempt ref f a) r) = g (au_attempts a r)"
  by (cases "r = ref") simp_all

lemma upd_all:
  assumes "\<forall>r < n. P (au_attempts a r)" "P (f (au_attempts a ref))" "r < n"
  shows "P (au_attempts (upd_attempt ref f a) r)"
  using assms by (cases "r = ref") simp_all

lemma chosen_upd:
  assumes "\<And>x. ap_wrote (f x) = ap_wrote x"
  shows "chosen (upd_attempt ref f a) = chosen a"
  using upd_keeps [of ap_wrote, OF assms] by (simp add: chosen_def fun_eq_iff)

lemma hash_inv_upd:
  assumes "hash_inv a" "\<And>x. ap_wrote (f x) = ap_wrote x" "\<And>h. ap_read (f (au_attempts a ref)) = Some h \<Longrightarrow> chosen a h"
  shows "hash_inv (upd_attempt ref f a)"
proof -
  have "\<forall>h. ap_read (au_attempts (upd_attempt ref f a) r) = Some h \<longrightarrow> chosen a h" if "r < au_next a" for r
    by (rule upd_all [OF _ _ that]) (use assms in \<open>auto simp: hash_inv_def\<close>)
  then show ?thesis using assms by (simp add: hash_inv_def chosen_upd)
qed

lemma setup_inv_upd:
  assumes "setup_inv a" "\<And>x. ap_wrote (f x) = ap_wrote x" "\<And>x. ap_kind (f x) = ap_kind x"
  shows "setup_inv (upd_attempt ref f a)"
  using assms(1) upd_keeps [of ap_wrote f, OF assms(2)] upd_keeps [of ap_kind f, OF assms(3)] by (simp add: setup_inv_def)

lemma signed_in_upd:
  assumes "signed_in a th" "in_flight (ap_phase (au_attempts a ref))"
  shows "signed_in (upd_attempt ref f a) th"
proof -
  obtain r where r: "r < au_next a" "ap_phase (au_attempts a r) = SignedIn th" using assms(1) by (auto simp: signed_in_def)
  then have "r \<noteq> ref" using assms(2) by (auto simp: in_flight_def)
  then show ?thesis using r unfolding signed_in_def by (intro exI [of _ r]) simp
qed

lemma sessions_inv_upd:
  assumes "sessions_inv a" "in_flight (ap_phase (au_attempts a ref))"
  shows "sessions_inv (upd_attempt ref f a)"
  using assms by (auto simp: sessions_inv_def intro: signed_in_upd)

lemma au_inv_upd:
  assumes "au_inv cr a" "in_flight (ap_phase (au_attempts a ref))"
    and "\<And>x. ap_wrote (f x) = ap_wrote x" "\<And>x. ap_kind (f x) = ap_kind x"
    and "\<And>h. ap_read (f (au_attempts a ref)) = Some h \<Longrightarrow> chosen a h"
    and "attempt_ok cr (f (au_attempts a ref))"
  shows "au_inv cr (upd_attempt ref f a)"
  using assms by (auto simp: au_inv_def intro!: hash_inv_upd setup_inv_upd sessions_inv_upd intro: upd_all [where P = "attempt_ok cr"])

lemma au_inv_to_phase:
  assumes "au_inv cr a" "ref < au_next a" "in_flight (ap_phase (au_attempts a ref))"
    and "attempt_ok cr ((au_attempts a ref)\<lparr>ap_phase := ph\<rparr>)"
  shows "au_inv cr (to_phase ref ph a)"
  unfolding to_phase_def using assms by (intro au_inv_upd) (auto simp: au_inv_def hash_inv_def)

lemma checked_phase [simp]: "has_checked cr (x\<lparr>ap_phase := ph\<rparr>) = has_checked cr x"
  "has_checked cr (x\<lparr>ap_wrote := w\<rparr>) = has_checked cr x"
  by (simp_all add: has_checked_def fun_eq_iff)

lemma may_store_phase [simp]: "may_store cr (x\<lparr>ap_phase := ph\<rparr>) = may_store cr x"
  "may_store cr (x\<lparr>ap_wrote := w\<rparr>) = may_store cr x"
  by (simp_all add: may_store_def split: attempt_kind.split)

lemma may_sign_phase [simp]: "may_sign cr (x\<lparr>ap_phase := ph\<rparr>) = may_sign cr x"
  by (simp add: may_sign_def split: attempt_kind.split)

lemma attempt_ok_away: "attempt_ok cr x \<Longrightarrow> attempt_ok cr (x\<lparr>ap_phase := Turned_Away n\<rparr>)"
  by (simp add: attempt_ok_def)

lemma au_inv_away:
  assumes "au_inv cr a" "ref < au_next a" "in_flight (ap_phase (au_attempts a ref))"
  shows "au_inv cr (to_phase ref (Turned_Away n) a)"
  using assms by (intro au_inv_to_phase) (auto simp: au_inv_def intro: attempt_ok_away)

lemma au_inv_sessions:
  assumes "au_inv cr a"
    and "\<And>th. th \<in> fst ` set t \<Longrightarrow> signed_in a th"
  shows "au_inv cr (a\<lparr>au_sessions := t\<rparr>)"
  using assms by (simp add: au_inv_def hash_inv_def sessions_inv_def)

text \<open>The steps keep the invariant.\<close>

lemma arrive_inv:
  assumes "au_inv cr a"
  shows "au_inv cr (arrive k a)"
proof -
  let ?b = "arrive k a"
  have at: "au_attempts ?b r = (if r = au_next a then new_attempt k else au_attempts a r)" "au_next ?b = Suc (au_next a)"
    "au_hash ?b = au_hash a" "au_sessions ?b = au_sessions a" for r by (simp_all add: arrive_def)
  have n: "ap_wrote (new_attempt k) = None" "ap_read (new_attempt k) = None" "attempt_ok cr (new_attempt k)"
    by (simp_all add: new_attempt_def attempt_ok_def)
  have "chosen ?b h \<longleftrightarrow> chosen a h" for h
  proof
    assume "chosen ?b h"
    then show "chosen a h" using n by (auto simp: chosen_def at less_Suc_eq split: if_splits)
  next
    assume "chosen a h"
    then obtain r where r: "r < au_next a" "ap_wrote (au_attempts a r) = Some h" by (auto simp: chosen_def)
    then have "r < au_next ?b" "ap_wrote (au_attempts ?b r) = Some h" by (simp_all add: at)
    then show "chosen ?b h" unfolding chosen_def by blast
  qed
  then have "hash_inv ?b" using assms n by (auto simp: hash_inv_def at au_inv_def less_Suc_eq)
  moreover have "setup_inv ?b" using assms n by (auto simp: setup_inv_def at au_inv_def less_Suc_eq)
  moreover have "signed_in ?b th" if th: "signed_in a th" for th
  proof -
    obtain r where "r < au_next a" "ap_phase (au_attempts a r) = SignedIn th" using th by (auto simp: signed_in_def)
    then show ?thesis unfolding signed_in_def by (intro exI [of _ r]) (simp add: at)
  qed
  then have "sessions_inv ?b" using assms by (simp add: sessions_inv_def at au_inv_def)
  ultimately show ?thesis using assms n by (auto simp: au_inv_def at less_Suc_eq)
qed

lemma read_stored_inv:
  assumes inv: "au_inv cr a" and ref: "ref < au_next a" "ap_phase (au_attempts a ref) = Arrived"
  shows "au_inv cr (read_stored ref a)"
proof -
  have fresh: "ap_wrote (au_attempts a ref) = None" using inv ref by (auto simp: au_inv_def attempt_ok_def)
  have fl: "in_flight (ap_phase (au_attempts a ref))" using ref by (simp add: in_flight_def)
  note away = au_inv_away [OF inv ref(1) fl]
  have r: "au_inv cr (upd_attempt ref (\<lambda>x. x\<lparr>ap_phase := Reading h, ap_read := Some h\<rparr>) a)" if "au_hash a = Some h" for h
    using inv fl fresh that by (intro au_inv_upd) (auto simp: attempt_ok_def au_inv_def hash_inv_def)
  have s: "au_inv cr (to_phase ref Storing a)" if "ap_kind (au_attempts a ref) = Setup pw" "validatePassword pw" for pw
    using that fresh by (intro au_inv_to_phase inv ref fl) (simp add: attempt_ok_def may_store_def)
  show ?thesis using away r s by (auto simp: handler_defs split: attempt_kind.split option.split)
qed

lemma check_read_inv:
  assumes inv: "au_inv cr a" and ref: "ref < au_next a" "ap_phase (au_attempts a ref) = Reading h"
  shows "au_inv cr (check_read cr ref h a)"
proof -
  have fresh: "ap_wrote (au_attempts a ref) = None" using inv ref by (auto simp: au_inv_def attempt_ok_def)
  have fl: "in_flight (ap_phase (au_attempts a ref))" using ref by (simp add: in_flight_def)
  note away = au_inv_away [OF inv ref(1) fl]
  have read: "ap_read (au_attempts a ref) = Some h" using inv ref by (auto simp: au_inv_def attempt_ok_def)
  have v: "au_inv cr (to_phase ref Verified a)" if "ap_kind (au_attempts a ref) = Login pw" "password_ok cr h pw" for pw
    using that fresh read by (intro au_inv_to_phase inv ref fl) (simp add: attempt_ok_def may_sign_def has_checked_def)
  have s: "au_inv cr (to_phase ref Storing a)"
    if "ap_kind (au_attempts a ref) = Change cur new" "password_ok cr h cur" "validatePassword new" for cur new
    using that fresh read by (intro au_inv_to_phase inv ref fl) (simp add: attempt_ok_def may_store_def has_checked_def)
  show ?thesis using away v s inv by (auto simp: handler_defs split: attempt_kind.split)
qed

text \<open>Only a setup that finds no hash writes the first one, so no other has written before it.\<close>

lemma wrote_inv:
  assumes inv: "au_inv cr a" and ref: "ref < au_next a" "ap_phase (au_attempts a ref) = Storing"
    and new: "new_password (ap_kind (au_attempts a ref)) = Some pw" "hashPassword cr salt pw = Some h"
    and first: "is_setup (ap_kind (au_attempts a ref)) \<Longrightarrow> au_hash a = None"
    and t: "set t \<subseteq> set (au_sessions a)"
  shows "au_inv cr ((wrote ref h a)\<lparr>au_hash := Some h, au_sessions := t\<rparr>)"
proof -
  let ?f = "\<lambda>x. x\<lparr>ap_phase := Verified, ap_wrote := Some h\<rparr>"
  let ?b = "upd_attempt ref ?f a"
  have fl: "in_flight (ap_phase (au_attempts a ref))" using ref by (simp add: in_flight_def)
  have st: "may_store cr (au_attempts a ref)" "ap_wrote (au_attempts a ref) = None"
    using inv ref by (auto simp: au_inv_def attempt_ok_def)
  have grow: "chosen ?b h'" if c: "chosen a h'" for h'
  proof -
    obtain r where r: "r < au_next a" "ap_wrote (au_attempts a r) = Some h'" using c by (auto simp: chosen_def)
    then have "r \<noteq> ref" using st(2) by auto
    then show ?thesis using r unfolding chosen_def by (intro exI [of _ r]) simp
  qed
  have mine: "chosen ?b h" using ref unfolding chosen_def by (intro exI [of _ ref]) simp
  have "validatePassword pw" using st(1) new(1) by (auto simp: may_store_def new_password_def split: attempt_kind.splits)
  then have ok: "attempt_ok cr (?f (au_attempts a ref))"
    using st(1) new by (auto simp: attempt_ok_def may_sign_def has_hashed_def new_password_def split: attempt_kind.splits)
  have "ap_read (au_attempts ?b r) = ap_read (au_attempts a r)" for r by (rule upd_keeps) simp
  then have "hash_inv (?b\<lparr>au_hash := Some h, au_sessions := t\<rparr>)"
    using inv mine grow by (simp add: hash_inv_def au_inv_def)
  moreover have "setup_inv ?b"
  proof (cases "is_setup (ap_kind (au_attempts a ref))")
    case True
    then have "ap_wrote (au_attempts a r) = None" if "r < au_next a" for r
      using inv that first by (cases "ap_wrote (au_attempts a r)") (auto simp: au_inv_def hash_inv_def chosen_def)
    then have "ap_wrote (au_attempts ?b r) \<noteq> None \<Longrightarrow> r < au_next a \<Longrightarrow> r = ref" for r by (cases "r = ref") auto
    then show ?thesis unfolding setup_inv_def upd_attempt_simps(3) by metis
  next
    case False
    have "ap_kind (au_attempts ?b r) = ap_kind (au_attempts a r)" for r by (rule upd_keeps) simp
    moreover have "ap_wrote (au_attempts ?b r) = ap_wrote (au_attempts a r)" if "is_setup (ap_kind (au_attempts a r))" for r
      using that False by (cases "r = ref") auto
    ultimately show ?thesis using inv by (simp add: setup_inv_def au_inv_def cong: conj_cong)
  qed
  moreover have "sessions_inv ?b" using inv fl by (intro sessions_inv_upd) (auto simp: au_inv_def)
  then have "sessions_inv (?b\<lparr>au_hash := Some h, au_sessions := t\<rparr>)" using t by (auto simp: sessions_inv_def)
  moreover have "attempt_ok cr (au_attempts ?b r)" if "r < au_next a" for r
    by (rule upd_all [OF _ _ that]) (use inv ok in \<open>auto simp: au_inv_def\<close>)
  ultimately show ?thesis by (simp add: au_inv_def wrote_def)
qed

lemma store_hash_inv:
  assumes inv: "au_inv cr a" and ref: "ref < au_next a" "ap_phase (au_attempts a ref) = Storing"
  shows "au_inv cr (store_hash cr salt ref a)"
proof -
  have fl: "in_flight (ap_phase (au_attempts a ref))" using ref by (simp add: in_flight_def)
  note away = au_inv_away [OF inv ref(1) fl]
  note w = wrote_inv [OF inv ref]
  show ?thesis
  proof (cases "ap_kind (au_attempts a ref)")
    case (Setup pw)
    moreover have "au_inv cr ((wrote ref h a)\<lparr>au_hash := Some h\<rparr>)"
      if "hashPassword cr salt pw = Some h" "au_hash a = None" for h
      using w [of pw salt h "au_sessions a"] that Setup by (simp add: new_password_def wrote_def upd_attempt_def)
    ultimately show ?thesis using away
      by (auto simp: handler_defs new_password_def split: option.split)
  next
    case (Change cur new)
    then show ?thesis using away w [of new salt _ "[]"]
      by (auto simp: handler_defs new_password_def is_setup_def split: option.split)
  qed (use inv in \<open>simp add: store_hash_def\<close>)
qed

lemma signIn_inv:
  assumes inv: "au_inv cr a" and ref: "ref < au_next a" "ap_phase (au_attempts a ref) = Verified"
  shows "au_inv cr (signIn cr token now ref a)"
proof -
  have fl: "in_flight (ap_phase (au_attempts a ref))" using ref by (simp add: in_flight_def)
  let ?th = "cr_sha cr token" and ?b = "to_phase ref (SignedIn (cr_sha cr token)) a"
  have b: "au_inv cr ?b" using inv ref by (intro au_inv_to_phase inv ref fl) (auto simp: au_inv_def attempt_ok_def)
  have "signed_in ?b ?th" using ref unfolding signed_in_def to_phase_def by (intro exI [of _ ref]) simp
  moreover have "signed_in ?b th" if "th \<in> fst ` set (au_sessions a)" for th
    using b that by (auto simp: au_inv_def sessions_inv_def to_phase_def)
  ultimately have in_b: "\<And>th. th = ?th \<or> th \<in> fst ` set (au_sessions a) \<Longrightarrow> signed_in ?b th" by blast
  have "au_inv cr (?b\<lparr>au_sessions := t\<rparr>)" if "CreateAuthSession now ?th e (au_sessions a) = Inr t" for t e
    using that by (intro au_inv_sessions b in_b) (auto simp: CreateAuthSession_def Let_def split: if_splits)
  then show ?thesis using au_inv_away [OF inv ref(1) fl] by (auto simp: signIn_def split: sum.split)
qed

lemma handleLogout_inv: "au_inv cr a \<Longrightarrow> au_inv cr (handleLogout cr r a)"
  unfolding handleLogout_def
  by (rule au_inv_sessions) (auto simp: DeleteAuthSession_def au_inv_def sessions_inv_def)

lemma no_auth_inv: "au_inv cr no_auth"
  by (simp add: au_inv_def no_auth_def hash_inv_def setup_inv_def sessions_inv_def chosen_def)

interpretation sign_in: transition_system no_auth "au_step cr apiToken" "au_inv cr" for cr apiToken
proof unfold_locales
  fix a b assume inv: "au_inv cr a" and st: "au_step cr apiToken a b"
  from st inv show "au_inv cr b"
    by (cases rule: au_step.cases)
      (auto intro: arrive_inv read_stored_inv check_read_inv store_hash_inv signIn_inv handleLogout_inv au_inv_away)
qed (rule no_auth_inv)

section \<open>Who is let through\<close>

text \<open>The password a request proved itself with.\<close>

definition presented :: "attempt_kind \<Rightarrow> string" where
  "presented k = (case k of Login pw \<Rightarrow> pw | Setup pw \<Rightarrow> pw | Change cur _ \<Rightarrow> cur)"

definition same_key :: "crypto \<Rightarrow> string \<Rightarrow> string \<Rightarrow> string \<Rightarrow> bool" where
  "same_key cr salt pw pw' \<longleftrightarrow>
     cr_kdf cr pw salt passwordIterations passwordKeyBytes = cr_kdf cr pw' salt passwordIterations passwordKeyBytes"

text \<open>\<open>knows\<close>: the password derives the key of one that setup or a change has stored.\<close>

definition knows :: "crypto \<Rightarrow> auth \<Rightarrow> string \<Rightarrow> bool" where
  "knows cr a pw \<longleftrightarrow> (\<exists>ref < au_next a. \<exists>choice salt h.
     new_password (ap_kind (au_attempts a ref)) = Some choice \<and> validatePassword choice \<and>
     hashPassword cr salt choice = Some h \<and> ap_wrote (au_attempts a ref) = Some h \<and> same_key cr salt pw choice)"

lemma wrote_hashed:
  assumes "au_inv cr a" "ref < au_next a" "ap_wrote (au_attempts a ref) = Some h"
  obtains choice salt where "new_password (ap_kind (au_attempts a ref)) = Some choice" "validatePassword choice"
    "hashPassword cr salt choice = Some h"
proof -
  have "attempt_ok cr (au_attempts a ref)" using assms by (simp add: au_inv_def)
  then show ?thesis using assms(3) that by (auto simp: attempt_ok_def has_hashed_def)
qed

lemma chosen_knows:
  assumes "au_inv cr a" "crypto_ok cr" "chosen a h" "password_ok cr h pw"
  shows "knows cr a pw"
proof -
  obtain ref where ref: "ref < au_next a" "ap_wrote (au_attempts a ref) = Some h" using assms(3) by (auto simp: chosen_def)
  obtain choice salt where c: "new_password (ap_kind (au_attempts a ref)) = Some choice" "validatePassword choice"
    "hashPassword cr salt choice = Some h" using wrote_hashed [OF assms(1) ref] .
  have "same_key cr salt pw choice"
    using checkPassword_hash [OF assms(2) c(3)] assms(4) by (simp add: password_ok_def same_key_def)
  then show ?thesis using ref c unfolding knows_def by blast
qed

lemma checked_knows:
  assumes "au_inv cr a" "crypto_ok cr" "ref < au_next a" "has_checked cr (au_attempts a ref) pw"
  shows "knows cr a pw"
proof -
  obtain h where h: "ap_read (au_attempts a ref) = Some h" "password_ok cr h pw" using assms(4) by (auto simp: has_checked_def)
  then have "chosen a h" using assms(1,3) by (simp add: au_inv_def hash_inv_def)
  then show ?thesis using chosen_knows assms(1,2) h(2) by blast
qed

lemma signed_in_knows:
  assumes inv: "au_inv cr a" and cr: "crypto_ok cr" and ref: "ref < au_next a" "may_sign cr (au_attempts a ref)"
  shows "knows cr a (presented (ap_kind (au_attempts a ref)))"
proof (cases "ap_kind (au_attempts a ref)")
  case (Setup pw)
  then obtain h where h: "ap_wrote (au_attempts a ref) = Some h" using ref by (auto simp: may_sign_def)
  obtain salt where "validatePassword pw" "hashPassword cr salt pw = Some h"
    using wrote_hashed [OF inv ref(1) h] Setup by (auto simp: new_password_def)
  then show ?thesis using ref Setup h
    by (auto simp: knows_def presented_def new_password_def same_key_def intro!: exI [of _ ref])
qed (use checked_knows [OF inv cr ref(1)] ref(2) in \<open>auto simp: presented_def may_sign_def may_store_def\<close>)

text \<open>
  However many browsers race for it, setup succeeds once: two requests that set the first password are
  the same request.
\<close>

lemma setup_claimed_once:
  assumes "reachable no_auth (au_step cr apiToken) a" "r < au_next a" "r' < au_next a"
    and "ap_kind (au_attempts a r) = Setup pw" "ap_phase (au_attempts a r) \<in> {Verified, SignedIn th}"
    and "ap_kind (au_attempts a r') = Setup pw'" "ap_phase (au_attempts a r') \<in> {Verified, SignedIn th'}"
  shows "r = r'"
proof -
  have inv: "au_inv cr a" using sign_in.reachable_inv assms(1) .
  have "ap_wrote (au_attempts a r) \<noteq> None" "ap_wrote (au_attempts a r') \<noteq> None"
    using inv assms by (auto simp: au_inv_def attempt_ok_def may_sign_def)
  then show ?thesis using inv assms by (simp add: au_inv_def setup_inv_def is_setup_def)
qed

text \<open>
  C12. \<open>authorized\<close>, in every state that any interleaving of setups, sign-ins, password changes and
  sign-outs reaches: a request that is let through carries the API token of the configuration, or the
  token of a session that was given to a request which presented a password deriving the same key as
  a valid password that setup or an authorised change stored, and which has not expired.
\<close>

theorem authorized_verified:
  assumes "crypto_ok cr" "reachable no_auth (au_step cr apiToken) a" "authorized cr apiToken now r (au_sessions a)"
  shows "bearerToken r \<noteq> [] \<and> (bearerToken r = apiToken
    \<or> (\<exists>ref < au_next a. \<exists>expires. ap_phase (au_attempts a ref) = SignedIn (cr_sha cr (bearerToken r))
         \<and> knows cr a (presented (ap_kind (au_attempts a ref)))
         \<and> AuthSessionExpiry (cr_sha cr (bearerToken r)) (au_sessions a) = Some expires \<and> now < expires))"
proof (cases "bearerToken r = apiToken")
  case False
  let ?th = "cr_sha cr (bearerToken r)"
  have inv: "au_inv cr a" using sign_in.reachable_inv assms(2) .
  obtain e where e: "bearerToken r \<noteq> []" "map_of (au_sessions a) ?th = Some e" "now < e"
    using assms(3) False by (auto simp: authorized_def AuthSessionExpiry_def Let_def split: if_splits option.splits)
  then have "?th \<in> fst ` set (au_sessions a)" by (force dest: map_of_SomeD)
  then obtain ref where ref: "ref < au_next a" "ap_phase (au_attempts a ref) = SignedIn ?th"
    using inv by (auto simp: au_inv_def sessions_inv_def signed_in_def)
  then have "may_sign cr (au_attempts a ref)" using inv by (auto simp: au_inv_def attempt_ok_def)
  then show ?thesis using signed_in_knows [OF inv assms(1) ref(1)] ref e by (auto simp: AuthSessionExpiry_def)
qed (use assms(3) in \<open>auto simp: authorized_def Let_def split: if_splits\<close>)

text \<open>
  An instance of the derivations: the key is the padded password, the encoding escapes the separator.
\<close>

fun escape_sep :: "string \<Rightarrow> string" where
  "escape_sep [] = []"
| "escape_sep (c # s) = (if c = CHR ''$'' then ''%0'' @ escape_sep s else if c = CHR ''%'' then ''%1'' @ escape_sep s else c # escape_sep s)"

fun unescape_sep :: "string \<Rightarrow> string option" where
  "unescape_sep [] = Some []"
| "unescape_sep (c # s) =
    (if c = CHR ''%'' then (case s of d # t \<Rightarrow> map_option (Cons (if d = CHR ''0'' then CHR ''$'' else c)) (unescape_sep t) | [] \<Rightarrow> None)
     else map_option (Cons c) (unescape_sep s))"

definition plain_crypto :: crypto where
  "plain_crypto = \<lparr>cr_kdf = (\<lambda>pw salt it n. Some (take n (pw @ replicate n (CHR ''='')))), cr_enc = escape_sep, cr_dec = unescape_sep,
     cr_sha = (\<lambda>s. s)\<rparr>"

lemma plain_crypto_ok: "crypto_ok plain_crypto"
proof -
  have "unescape_sep (escape_sep s) = Some s" "CHR ''$'' \<notin> set (escape_sep s)" for s by (induction s) auto
  then show ?thesis by (auto simp: crypto_ok_def plain_crypto_def)
qed

lemma plain_sha [simp]: "cr_sha plain_crypto t = t"
  by (simp add: plain_crypto_def)

lemma plain_hash: "\<exists>h. hashPassword plain_crypto salt pw = Some h"
  by (simp add: hashPassword_def plain_crypto_def)

lemma plain_accepts:
  assumes "hashPassword plain_crypto salt pw = Some h" "length pw' \<le> maxPasswordLength"
  shows "password_ok plain_crypto h pw' \<longleftrightarrow> take 32 (pw' @ replicate 32 (CHR ''='')) = take 32 (pw @ replicate 32 (CHR ''=''))"
  using checkPassword_hash [OF plain_crypto_ok assms(1)] assms(2)
  by (simp add: password_ok_def plain_crypto_def passwordKeyBytes_def)

text \<open>
  A setup that signs in, a change the session then asks for and a sign-in with the first password that
  reads the hash before the change replaces it.
\<close>

definition first_sign_in :: "string \<Rightarrow> auth" where
  "first_sign_in old = signIn plain_crypto ''t0'' 0 0 (store_hash plain_crypto ''s0'' 0 (read_stored 0 (arrive (Setup old) no_auth)))"

definition both_read :: "string \<Rightarrow> string \<Rightarrow> auth" where
  "both_read old new = read_stored 1 (read_stored 2 (arrive (Login old) (arrive (Change old new) (first_sign_in old))))"

definition late_sign_in :: "string \<Rightarrow> string \<Rightarrow> string \<Rightarrow> auth" where
  "late_sign_in h old new = signIn plain_crypto ''t1'' 0 2
     (check_read plain_crypto 2 h (store_hash plain_crypto ''s1'' 1 (check_read plain_crypto 1 h (both_read old new))))"

lemmas run_defs = handler_defs arrive_def signIn_def to_phase_def wrote_def upd_attempt_def
  CreateAuthSession_def new_attempt_def no_auth_def Let_def

definition token_request :: "string \<Rightarrow> auth_request" where
  "token_request t = \<lparr>ar_header = ''Bearer '' @ t, ar_path = ''/api/sessions'', ar_query = []\<rparr>"

lemma token_requests: "bearerToken (token_request ''t0'') = ''t0''" "bearerToken (token_request ''t1'') = ''t1''"
  by code_simp+

lemma first_sign_in_state:
  assumes "validatePassword old" "hashPassword plain_crypto ''s0'' old = Some h"
  shows "first_sign_in old = \<lparr>au_hash = Some h, au_sessions = [(''t0'', sessionLifetime)],
    au_attempts = (au_attempts no_auth)(0 := \<lparr>ap_kind = Setup old, ap_phase = SignedIn ''t0'', ap_read = None, ap_wrote = Some h\<rparr>),
    au_next = 1\<rparr>"
  using assms by (simp add: first_sign_in_def run_defs)

lemma au_reach: "reachable no_auth (au_step cr t) a \<Longrightarrow> au_step cr t a b \<Longrightarrow> reachable no_auth (au_step cr t) b"
  by (rule reach_step)

lemma first_sign_in_reachable:
  assumes "validatePassword old" "hashPassword plain_crypto ''s0'' old = Some h"
  shows "reachable no_auth (au_step plain_crypto []) (first_sign_in old)"
proof -
  let ?step = "au_step plain_crypto []"
  let ?a = "arrive (Setup old) no_auth"
  have s1: "?step no_auth ?a" by (rule au_arrive) (simp add: public_kind_def)
  have s2: "?step ?a (read_stored 0 ?a)" by (rule au_read) (simp_all add: run_defs)
  have s3: "?step (read_stored 0 ?a) (store_hash plain_crypto ''s0'' 0 (read_stored 0 ?a))"
    by (rule au_store) (use assms in \<open>simp_all add: run_defs\<close>)
  have s4: "?step (store_hash plain_crypto ''s0'' 0 (read_stored 0 ?a)) (first_sign_in old)"
    unfolding first_sign_in_def by (rule au_sign) (use assms in \<open>simp_all add: run_defs\<close>)
  show ?thesis by (rule au_reach [OF au_reach [OF au_reach [OF au_reach [OF reach_start s1] s2] s3] s4])
qed

lemma both_read_state:
  assumes "validatePassword old" "hashPassword plain_crypto ''s0'' old = Some h"
  shows "au_hash (both_read old new) = Some h" "au_next (both_read old new) = 3"
    "au_attempts (both_read old new) (Suc 0) = \<lparr>ap_kind = Change old new, ap_phase = Reading h, ap_read = Some h, ap_wrote = None\<rparr>"
    "au_attempts (both_read old new) 2 = \<lparr>ap_kind = Login old, ap_phase = Reading h, ap_read = Some h, ap_wrote = None\<rparr>"
  by (simp_all add: both_read_def first_sign_in_state [OF assms] run_defs)

lemma late_sign_in_state:
  assumes "validatePassword old" "hashPassword plain_crypto ''s0'' old = Some h"
    and "validatePassword new" "hashPassword plain_crypto ''s1'' new = Some h'" "password_ok plain_crypto h old"
  shows "au_hash (late_sign_in h old new) = Some h'" "au_sessions (late_sign_in h old new) = [(''t1'', sessionLifetime)]"
    "au_attempts (late_sign_in h old new) 2 = \<lparr>ap_kind = Login old, ap_phase = SignedIn ''t1'', ap_read = Some h, ap_wrote = None\<rparr>"
    "au_next (late_sign_in h old new) = 3"
  using both_read_state [OF assms(1,2)] assms(3-) by (simp_all add: late_sign_in_def run_defs)

lemma late_sign_in_reachable:
  assumes "validatePassword old" "hashPassword plain_crypto ''s0'' old = Some h"
    and "validatePassword new" "hashPassword plain_crypto ''s1'' new = Some h'" "password_ok plain_crypto h old"
  shows "reachable no_auth (au_step plain_crypto []) (late_sign_in h old new)"
proof -
  let ?step = "au_step plain_crypto []" and ?r0 = "first_sign_in old"
  let ?a = "arrive (Change old new) ?r0" and ?b = "both_read old new"
  let ?c = "store_hash plain_crypto ''s1'' 1 (check_read plain_crypto 1 h ?b)"
  note d = first_sign_in_state [OF assms(1,2)] run_defs and e = both_read_state [OF assms(1,2)] run_defs
  have "authorized plain_crypto [] 0 (token_request ''t0'') (au_sessions ?r0)"
    by (simp add: d authorized_def token_requests AuthSessionExpiry_def sessionLifetime_def)
  then have s1: "?step ?r0 ?a" using au_arrive by blast
  have s2: "?step ?a (arrive (Login old) ?a)" by (rule au_arrive) (simp add: public_kind_def)
  have s3: "?step (arrive (Login old) ?a) (read_stored 2 (arrive (Login old) ?a))"
    by (rule au_read) (simp_all add: d)
  have s4: "?step (read_stored 2 (arrive (Login old) ?a)) ?b"
    unfolding both_read_def by (rule au_read) (simp_all add: d)
  have s5: "?step ?b (check_read plain_crypto 1 h ?b)" by (rule au_check) (simp_all add: e)
  have s6: "?step (check_read plain_crypto 1 h ?b) ?c" by (rule au_store) (use assms in \<open>simp_all add: e\<close>)
  have s7: "?step ?c (check_read plain_crypto 2 h ?c)" by (rule au_check) (use assms in \<open>simp_all add: e\<close>)
  have s8: "?step (check_read plain_crypto 2 h ?c) (late_sign_in h old new)"
    unfolding late_sign_in_def by (rule au_sign) (use assms in \<open>simp_all add: e\<close>)
  note first_sign_in_reachable [OF assms(1,2)]
  note au_reach [OF au_reach [OF au_reach [OF au_reach [OF this s1] s2] s3] s4]
  from au_reach [OF au_reach [OF au_reach [OF au_reach [OF this s5] s6] s7] s8] show ?thesis .
qed

theorem authorized_verified_witness:
  "crypto_ok plain_crypto \<and> reachable no_auth (au_step plain_crypto []) (first_sign_in ''old-password'')
   \<and> authorized plain_crypto [] 0 (token_request ''t0'') (au_sessions (first_sign_in ''old-password''))
   \<and> (\<exists>ref < au_next (first_sign_in ''old-password'').
        knows plain_crypto (first_sign_in ''old-password'') (presented (ap_kind (au_attempts (first_sign_in ''old-password'') ref))))"
proof -
  let ?a = "first_sign_in ''old-password''" and ?r = "token_request ''t0''"
  obtain h where h: "hashPassword plain_crypto ''s0'' ''old-password'' = Some h" using plain_hash by blast
  have v: "validatePassword ''old-password''" by code_simp
  have au: "authorized plain_crypto [] 0 ?r (au_sessions ?a)"
    by (simp add: first_sign_in_state [OF v h] authorized_def token_requests AuthSessionExpiry_def sessionLifetime_def)
  note re = first_sign_in_reachable [OF v h]
  show ?thesis using authorized_verified [OF plain_crypto_ok re au] plain_crypto_ok re au by (auto simp: token_requests)
qed

text \<open>
  C36. \<open>ReplacePasswordHash\<close> ends every session so that \<^emph>\<open>no browser signed in with the old password
  outlives the change\<close>, and \<open>handleChangePassword\<close> promises that a leaked password \<^emph>\<open>stops working
  everywhere at once\<close>. A sign-in that has read the old hash is not stopped: there is a reachable state in
  which a request is let through with the session of a sign-in whose password the stored hash refuses.
\<close>

theorem old_password_signs_in:
  "\<exists>cr a ref pw h r now. crypto_ok cr \<and> reachable no_auth (au_step cr []) a \<and> ref < au_next a
     \<and> ap_kind (au_attempts a ref) = Login pw \<and> ap_phase (au_attempts a ref) = SignedIn (cr_sha cr (bearerToken r))
     \<and> au_hash a = Some h \<and> \<not> password_ok cr h pw \<and> authorized cr [] now r (au_sessions a)"
proof -
  let ?old = "''old-password''" and ?new = "''new-password''" and ?cr = plain_crypto
  obtain h h' where h: "hashPassword ?cr ''s0'' ?old = Some h" "hashPassword ?cr ''s1'' ?new = Some h'"
    using plain_hash by metis
  have v: "validatePassword ?old" "validatePassword ?new" by code_simp+
  have ok: "password_ok ?cr h ?old" by (simp add: plain_accepts [OF h(1)] maxPasswordLength_def)
  have no: "\<not> password_ok ?cr h' ?old" by (simp add: plain_accepts [OF h(2)] maxPasswordLength_def)
  note st = late_sign_in_state [OF v(1) h(1) v(2) h(2) ok]
  let ?a = "late_sign_in h ?old ?new" and ?r = "token_request ''t1''"
  have "authorized ?cr [] 0 ?r (au_sessions ?a)"
    by (simp add: st authorized_def token_requests AuthSessionExpiry_def sessionLifetime_def)
  moreover have "ap_phase (au_attempts ?a 2) = SignedIn (cr_sha ?cr (bearerToken ?r))"
    by (simp add: st token_requests)
  moreover have "ap_kind (au_attempts ?a 2) = Login ?old" "2 < au_next ?a" "au_hash ?a = Some h'" by (simp_all add: st)
  ultimately show ?thesis
    using plain_crypto_ok no late_sign_in_reachable [OF v(1) h(1) v(2) h(2) ok] by blast
qed

end
