(* ===== verification/Spec2Isabelle.thy ===== *)
theory Spec2Isabelle
  imports Scenario Session_Properties Run_Manager_Laws Event_Bus Search_Engine Egress Subagents Questions
    Tool_Output Context_Files Streams Mcp_Pool Sign_In
begin

text \<open>
  Eika is a harness for coding agents. A session is a tree of messages in a database; a run takes a
  user message, drives a model in a loop of answers and tool calls, and stores everything it says in
  the session. A server starts, steers and stops runs, one per session, streams their events to
  clients, keeps the containers they work in, and gives the model tools: commands, questions to the
  user, child agents, web search. This development models that core, translated function by function
  from the Go sources under \<^verbatim>\<open>src/internal\<close>; definitions keep the names of the source.

  \<^bold>\<open>How the program is modelled.\<close> Structures are records, tagged unions datatypes, Go strings byte lists,
  maps partial functions, errors values of a sum type. Shared objects are indices into a heap where
  their aliasing matters (\<open>rn_heap\<close>, \<open>c_heap\<close>, \<open>sp_heap\<close>, \<open>qs_heap\<close>). Code under a lock is one step; the
  interleaving of goroutines is a step relation (\<open>rm_step\<close>, \<open>bus_step\<close>, \<open>qs_step\<close>, \<open>sp_step\<close>, \<open>mp_step\<close>) whose
  invariants are proved through the locale \<open>transition_system\<close> of \<open>Prelude\<close>, or, inside a run, a
  function from the number of the moment to what arrives then. A loop that may not end takes fuel;
  \<open>Run_returns\<close> shows that enough fuel exists under its conditions, and the other theorems on runs
  hold for every result a run returns with any fuel. The loop that looks for the longest existing
  prefix of a path has one unit of fuel more than the path has bytes, which \<open>daemon_resolve_confined\<close>
  shows to be enough.

  \<^bold>\<open>The agent loop\<close> (\<^verbatim>\<open>agent/\<close>). \<open>Provider\<close>, \<open>Provider_Errors\<close>, \<open>Sampling\<close>: messages, tool calls, errors
  and their classification, layered sampling parameters (\<^verbatim>\<open>provider/\<close>). \<open>Conversation\<close>: the
  conversation and the two queues other goroutines put messages into. \<open>Tool_Registry\<close>: the tools of
  a run. \<open>Context\<close>: prompt sections, the estimate of a request and what of it fits the window.
  \<open>Compaction\<close>, \<open>Transcript\<close>, \<open>Summary\<close>: planning a compaction, the text sent for a summary, asking for
  it. \<open>Response\<close>: reading one streamed answer. \<open>Agent_Loop\<close>: a model call with retries, a turn, the
  loop over turns and queues. \<open>Agent_Shape\<close> (locale \<open>terminal_store\<close>) shows every tool call is answered;
  \<open>Agent_Sync\<close> (locale \<open>message_store\<close>) that memory and store agree; \<open>Agent_Ends\<close> how turns and runs end
  and what is put back; \<open>Agent_Returns\<close> (locale \<open>winding_down\<close>) when they do.

  \<^bold>\<open>Sessions\<close> (\<^verbatim>\<open>store/\<close>, \<^verbatim>\<open>session/\<close>). \<open>Session_Store\<close>: the tables of sessions and entries and the
  statements on them. \<open>Session_Tree\<close>: entries and messages, the path of a session, what may be
  resumed, the outline. \<open>Session_Laws\<close>, \<open>Session_Resume\<close>, \<open>Session_Properties\<close>: the invariant of the
  tables, append, branch, fork, listing, outline, round trip. \<open>Stored_Agent\<close> interprets the
  agent's locales on the database; \<open>Scenario\<close> holds concrete runs. What is relied on of PostgreSQL's
  \<^verbatim>\<open>jsonb\<close> is the hypothesis \<open>pg_ok\<close>.

  \<^bold>\<open>The server's state\<close> (\<^verbatim>\<open>server/\<close>). \<open>Run_Store\<close>: the rows of the runs. \<open>Run_Manager\<close>: reservation,
  building, driving, finishing, aborting, shutting down and the messages kept between runs, as
  interleaved steps; \<open>Run_Manager_Laws\<close>: its invariant and properties, and two traces on which it
  loses messages or an abort. \<open>Idle_Workspaces\<close>: the sweep that stops unused workspaces.
  \<open>Event_Bus\<close>: the bus and its bounded subscriptions (\<^verbatim>\<open>event/\<close>).

  \<^bold>\<open>Search and network\<close> (\<^verbatim>\<open>search/\<close>, \<^verbatim>\<open>netguard/\<close>, \<^verbatim>\<open>egress/\<close>). \<open>Search_Cache\<close>: the cache as a map and a
  linked list, its refinement of a list ordered by use, and the locale \<open>keyed_cache\<close> for what a client
  relies on. \<open>Search_Usage\<close>: quotas and cooldowns. \<open>Search_Engine\<close>: the chain of providers on top of
  both. \<open>Netguard\<close>: which addresses are public, on words. \<open>Egress\<close>: the allowlist and the decision of
  the proxy.

  \<^bold>\<open>Subagents\<close> (\<^verbatim>\<open>subagent/\<close>). \<open>Subagents\<close>: the rows of child agents, their names, branches and results, the
  slots the spawner gives out and the life of a child, as interleaved steps with deletions and
  restarts; the limits on width and depth hold in every reachable state.

  \<^bold>\<open>Tools\<close> (\<^verbatim>\<open>tool/builtin\<close>, \<^verbatim>\<open>executor/\<close>, \<^verbatim>\<open>eikad/\<close>, \<^verbatim>\<open>contextfile/\<close>). \<open>Questions\<close>: the broker a run asks the user
  through, and that a question gets one answer. \<open>Tool_Output\<close>: the output of a command, cut in the
  middle, and its timeout. \<open>Paths\<close>: cleaning and resolving paths, in the executor and in the daemon
  that follows symbolic links, and that neither leaves the workspace. \<open>Context_Files\<close>: the files of
  instructions that apply to a directory.

  \<^bold>\<open>Connections\<close> (\<^verbatim>\<open>mcp/\<close>, \<^verbatim>\<open>provider/openai\<close>). \<open>Mcp_Pool\<close>: the connections to the servers of the Model Context
  Protocol, made, lost, replaced and closed by goroutines that interleave; that no open client is lost
  track of, and two races at shutdown and deletion. \<open>Streams\<close>: server-sent events read in chunks, and tool
  calls assembled from fragments.

  \<^bold>\<open>Sign-in\<close> (\<^verbatim>\<open>server/auth.go\<close>, \<^verbatim>\<open>server/password.go\<close>, \<^verbatim>\<open>store/auth.go\<close>). \<open>Sign_In\<close>: how a password is hashed and
  checked, which token a request carries, and setup, sign-in, change of password and sign-out as
  requests that interleave between their accesses to the database. A request that is let through goes
  back to a password somebody chose; setup is claimed once; and a sign-in with a password that is being
  replaced slips through.

  \<^bold>\<open>Bounds and fuel.\<close> Token counts, sizes and times are unbounded integers where the code cannot reach
  the 64-bit limit with them; the doubled back-off of a retry is wrapped to 64 bits. Channels have
  their 256 slots, lists of refused hosts their 20 entries, addresses their 32 and 128 bits. Natural
  numbers stand for lengths, for counters that only grow, and for sizes the sources pass as positive
  constants.

  \<^bold>\<open>Not modelled.\<close> The other HTTP handlers and wire formats, the messages, transports and
  authorization of the MCP client, the container runtime and git,
  the processes, files and terminals of the daemon, the search services and the extraction of text from pages, image
  codecs, cryptography and process start-up: they are input and output around the state above, or
  translate formats. Logging is left out everywhere. What a model, a tool, a service or a clock
  answers is an argument.
\<close>

section \<open>Runs and the session they are stored in\<close>

lemma scenario_run_ends:
  obtains st where "Run 2 scenario_db (UserMessage ''hi'') (scenario_state scenario_script) = Some (None, st)"
    "length (conv st) = 4"
  using scenario_run by (auto split: option.splits prod.splits)

text \<open>
  C1. A run keeps the stored session and the conversation in step: when loading the session gives
  the conversation (in the spelling the database keeps it in), it still does after any run that
  starts from it, whether the run succeeded, failed or was cancelled, and whatever the endpoint, the
  tools, the clock and other goroutines did meanwhile. The tables stay well formed.
\<close>

theorem Run_keeps_store:
  assumes "pg_ok p" "fresh_ids gen" "o_has_store (a_opts base)" "db_ok (w_db (world st))"
    and "tree_Messages sid (w_db (world st)) = Inr (map (canon_message (pg_jsonb p)) (conv st))"
    and "Run fuel (db_agent p gen commit sid base) m st = Some (e, st')"
  shows "db_ok (w_db (world st'))
    \<and> tree_Messages sid (w_db (world st')) = Inr (map (canon_message (pg_jsonb p)) (conv st'))"
proof -
  note sync = message_store.synced_def [OF message_store_db [OF assms(1,2)]]
  have "message_store.synced (db_agent p gen commit sid base) (db_good sid) (db_load sid)
      (canon_message (pg_jsonb p)) (length (conv st')) st'"
    by (rule message_store.Run_insync [OF message_store_db [OF assms(1,2)] assms(6)])
      (use assms in \<open>simp add: sync db_good_def db_load_def\<close>)
  then show ?thesis using assms(3) by (auto simp: sync db_good_def db_load_def)
qed

theorem Run_keeps_store_witness:
  "\<exists>st'. Run 2 scenario_db (UserMessage ''hi'') (scenario_state scenario_script) = Some (None, st')
    \<and> length (conv st') = 4
    \<and> tree_Messages ''s'' (w_db (world st')) = Inr (map (canon_message (pg_jsonb plain_pg)) (conv st'))"
proof (rule scenario_run_ends)
  fix st' assume r: "Run 2 scenario_db (UserMessage ''hi'') (scenario_state scenario_script) = Some (None, st')"
    "length (conv st') = 4"
  have "db_ok (w_db (world st'))
    \<and> tree_Messages ''s'' (w_db (world st')) = Inr (map (canon_message (pg_jsonb plain_pg)) (conv st'))"
    by (rule Run_keeps_store [OF plain_pg_ok(1) long_id_fresh _ _ _ r(1)])
      (simp_all add: scenario_start scenario_agent_def scenario_opts_def)
  with r show ?thesis by blast
qed





text \<open>
  C6. A run returns once the model stops asking for tools and nobody sends more: when \<open>left\<close> bounds
  the replies with tool calls still to come plus the messages still to arrive, fuel above \<open>left\<close> and
  the messages already queued gives an answer. What is assumed is only how the endpoint and the
  other goroutines behave, not how the agent does.
\<close>

theorem Run_returns:
  assumes "winding_down a left"
    and "left (world st) + length (PendingSteering (queues st)) + length (PendingFollowUps (queues st)) < fuel"
  shows "\<exists>r st'. Run fuel a m st = Some (r, st')"
  using winding_down.Run_winds_down [OF assms(1), of st fuel m] assms(2)
  by (simp add: winding_down.toll_def [OF assms(1)] winding_down.waiting_def [OF assms(1)])

theorem Run_returns_witness:
  "\<exists>r st'. Run 3 scenario_db (UserMessage ''hi'') (scenario_state scenario_script) = Some (r, st')"
  by (rule Run_returns [OF scripted.winding_down_axioms])
    (simp add: scenario_state_def scenario_script_def queue_defs)

text \<open>
  A turn announces its end. With every event encodable, a turn that succeeds ends with
  \<^verbatim>\<open>turn.end\<close> and one that fails ends with \<^verbatim>\<open>run.error\<close> carrying its error, unless what failed was
  storing the model's reply.
\<close>

lemma turn_announces_its_end:
  assumes "encodes_all a" "turn fuel a prompt msgs orig st = Some (r, st')"
    and "\<forall>f. r \<noteq> Some (ErrWrap ''store message'' f)"
  shows "\<exists>runID. (case r of
      None \<Rightarrow> \<exists>stop rep. last (events st') = EvTurnEnd runID stop rep
    | Some e \<Rightarrow> last (events st') = EvRunError runID (err_text e) (Retryable e))"
  using announced_turn [OF assms(1,2)] assms(3) by (auto simp: announced_def reply_not_stored_def)



text \<open>
  What a failed turn puts back: of the messages it had taken, those that were not stored return
  to the front of their queues, before anything queued meanwhile, in order, except that steering
  taken during the turn is put before the steering messages the turn itself was started with.
\<close>

lemma restoreFrom_puts_back:
  assumes "stored \<le> length (tu_msgs tu @ tu_steered tu)"
  shows "PendingSteering (queues (restoreFrom a stored tu st)) =
        drop (stored - length (tu_msgs tu)) (tu_steered tu)
          @ (if tu_origin tu = Some FromSteering then drop stored (tu_msgs tu) else [])
          @ PendingSteering (queues (poll a st))
    \<and> PendingFollowUps (queues (restoreFrom a stored tu st)) =
        (if tu_origin tu = Some FromFollowUps then drop stored (tu_msgs tu) else [])
          @ PendingFollowUps (queues (poll a st))"
  by (intro conjI restoreFrom_queues [OF assms])


section \<open>The model call\<close>






text \<open>
  C33. A reply is an assistant message with a stop reason; when the endpoint cut it off it carries no
  tool call, so that no half-written call is ever run or stored.
\<close>

theorem reply_shape:
  assumes "stream a runID req gen st = (Inr r, gen', st')"
  shows "m_role (rs_message r) = RoleAssistant \<and> rs_stop r \<noteq> [] \<and> m_metrics (rs_message r) = None
    \<and> (cutOff (rs_stop r) \<longrightarrow> m_tool_calls (rs_message r) = [])
    \<and> conv st' = conv st \<and> queues st' = queues st"
  using stream_reply [OF assms] stream_fields [OF assms] by blast

theorem reply_shape_witness:
  "\<exists>r g st'. stream scenario_agent ''run'' (context_Request (agent_base (a_enc scenario_agent) scenario_opts [])) None
      \<lparr>conv = [], queues = new_queues,
       world = [[(0, ToolCallEvent scenario_call), (0, DoneEvent ''length'')]], events = []\<rparr> = (Inr r, g, st')
    \<and> m_tool_calls (rs_message r) = []"
proof -
  let ?st = "\<lparr>conv = [], queues = new_queues,
      world = [[(0, ToolCallEvent scenario_call), (0, DoneEvent ''length'')]], events = []\<rparr>"
  let ?req = "context_Request (agent_base (a_enc scenario_agent) scenario_opts [])"
  obtain r g st' where s: "stream scenario_agent ''run'' ?req None ?st = (Inr r, g, st')" "cutOff (rs_stop r)"
    by (simp add: stream_def lift_world_def scenario_agent_def stream_one_def stream_start_def stream_finish_def
        cutOff_def)
  from reply_shape [OF s(1)] s show ?thesis by blast
qed

section \<open>Compaction\<close>


text \<open>
  Where a compaction cuts. Something is summarized and something stored is kept; the cut is never
  in front of a tool result, so no result loses its call; a turn the cut splits starts at the last
  user message before it; and unless only tool results follow, what is kept after the message at the
  cut is below the budget.
\<close>

lemma planCompaction_cut:
  assumes "planCompaction msgs sizes stored keep = (p, True)"
    and "stored \<le> length sizes" "\<forall>s \<in> set sizes. 0 \<le> s" "0 < keep"
  shows "pl_start p < pl_first p \<and> pl_first p < stored \<and> m_role (msgs ! pl_first p) \<noteq> RoleTool
    \<and> (\<forall>t. pl_turn_start p = Some t \<longrightarrow> pl_start p \<le> t \<and> t < pl_first p \<and> m_role (msgs ! t) = RoleUser
          \<and> (\<forall>k. t < k \<and> k \<le> pl_first p \<longrightarrow> m_role (msgs ! k) \<noteq> RoleUser))
    \<and> (sum_list (take (stored - Suc (pl_first p)) (drop (Suc (pl_first p)) sizes)) < keep
        \<or> (\<forall>k. pl_first p < k \<and> k < stored \<longrightarrow> m_role (msgs ! k) = RoleTool))"
  using planCompaction_progress [OF assms(1)] planCompaction_first [OF assms(1)]
    planCompaction_turn [OF assms(1)] planCompaction_keep [OF assms] by blast



text \<open>
  After a compaction nothing is measured any more: the next estimate counts the whole request
  (prompt, tools and messages) instead of trusting a measurement of the larger conversation; and the
  summary a compaction stored is the summary the next one reads.
\<close>

lemma compaction_resets_estimate:
  "estimateContext c (Compacted before k) =
      sum_list (map s_tokens (x_sections c)) + sum_list (map ts_tokens (x_tools c)) + sum_list (x_message_sizes c)
    \<and> summaryText (hd (Compacted before k)) = c_summary k"
  by (intro conjI estimate_after_compaction) (simp add: Compacted_def Let_def summaryText_SummaryMessage)

text \<open>
  The budgets leave room: what is kept for the reply and what is kept of the conversation together
  take at most half of the window, whatever the settings say.
\<close>

lemma compaction_budgets:
  assumes "0 < window"
  shows "2 * (reserveTokens c window + keepRecentTokens c window) \<le> window"
  by (rule reserve_keep_half [OF assms])

section \<open>Parameters and tools\<close>

text \<open>
  Sampling layers form a monoid that keeps validity: layers can be resolved in any grouping, an
  empty layer changes nothing, a parameter the upper layer sets is the one that counts, and layers
  that each validate resolve to parameters that validate.
\<close>

lemma sampling_layers:
  "Over (Over a b) c = Over a (Over b c) \<and> Over no_sampling a = a \<and> Over a no_sampling = a
    \<and> (Temperature a = Some t \<longrightarrow> Temperature (Over a b) = Some t)
    \<and> (Validate a = None \<and> Validate b = None \<longrightarrow> Validate (Over a b) = None)"
  using Over_assoc [of a b c] Over_no_sampling [of a] Over_valid [of a b] by (simp add: Over_def)

text \<open>
  A filtered registry offers exactly the tools the filter keeps, under their own names, in name
  order: what a session may not use is neither offered to the model nor found when it is called.
\<close>

lemma registry_Filter_offers:
  assumes "NewRegistry ts = Inr r"
  shows "set (registry_List (registry_Filter keep r)) = {t \<in> set (registry_List r). keep t}
    \<and> sorted_wrt (<) (map tool_name (registry_List (registry_Filter keep r)))
    \<and> (\<forall>n t. registry_Get n (registry_Filter keep r) = Some t \<longleftrightarrow> registry_Get n r = Some t \<and> keep t)"
proof -
  note ok = NewRegistry_ok [OF assms]
  note f = Filter_spec [OF ok, of keep]
  show ?thesis using f registry_List_sorted [OF f(1)] Get_List [OF f(1)] Get_List [OF ok] by auto
qed

end
